(* ===== verification/Prelude.thy ===== *)
theory Prelude
  imports Main "HOL-Library.Word" "HOL-Library.Monad_Syntax"
begin

text \<open>
  Shared vocabulary of the development: machine types, \<open>size_t\<close> arithmetic with its wrap-around,
  characters as bytes, little-endian byte images of words, and the two index scans that the string
  routines of \<^verbatim>\<open>src/base\<close> are written with.

  The program is compiled for 64-bit Linux on a little-endian machine (\<^verbatim>\<open>base/byteorder.h\<close> and
  \<^verbatim>\<open>base/atomicops.h\<close> only build there): \<open>size_t\<close>, \<open>long\<close> and \<open>time_t\<close> have 64 bits, \<open>int\<close> has 32,
  \<open>char\<close> is signed. The makefile does not define NDEBUG, so a failed CHECK, DCHECK or assert ends the
  process; a definition whose source contains one returns \<open>None\<close> in that case.
\<close>

unbundle bit_operations_syntax

named_theorems byte_simps \<open>reading and writing byte images of words\<close>
named_theorems scan_specs \<open>what an index scan returns\<close>

type_synonym byte = "8 word"
type_synonym u16 = "16 word"
type_synonym u32 = "32 word"
type_synonym u64 = "64 word"

subsection \<open>\<open>size_t\<close> values as natural numbers below \<open>2 ^ 64\<close>\<close>

definition size_max :: nat where
  "size_max = 2 ^ 64"

definition npos :: nat where
  "npos = size_max - 1"

definition size_add :: "nat \<Rightarrow> nat \<Rightarrow> nat" where
  "size_add a b = (a + b) mod size_max"

definition size_sub :: "nat \<Rightarrow> nat \<Rightarrow> nat" where
  "size_sub a b = (a + (size_max - b mod size_max)) mod size_max"

lemma size_max_pos [simp]: "0 < size_max"
  by (simp add: size_max_def)

lemma npos_less_size_max [simp]: "npos < size_max"
  by (simp add: npos_def)

lemma size_add_less [simp]: "size_add a b < size_max"
  by (simp add: size_add_def)

lemma size_sub_less [simp]: "size_sub a b < size_max"
  by (simp add: size_sub_def)

lemma size_add_exact: "a + b < size_max \<Longrightarrow> size_add a b = a + b"
  by (simp add: size_add_def)

lemma size_sub_exact:
  assumes "b \<le> a" and "a < size_max"
  shows "size_sub a b = a - b"
proof -
  from assms have "a + (size_max - b mod size_max) = size_max + (a - b)"
    by simp
  then have "size_sub a b = (size_max + (a - b)) mod size_max"
    by (simp only: size_sub_def)
  also have "\<dots> = a - b"
    using assms by (simp only: mod_add_self1) simp
  finally show ?thesis .
qed

lemma size_add_npos_1 [simp]: "size_add npos 1 = 0" "size_add npos (Suc 0) = 0"
  by (simp_all add: size_add_def npos_def)

lemma size_add_npos_2 [simp]: "size_add npos 2 = 1"
  by (simp add: size_add_def npos_def size_max_def)

lemma size_sub_0_npos [simp]: "size_sub 0 npos = 1"
  by (simp add: size_sub_def npos_def size_max_def)

lemma size_sub_0_1 [simp]: "size_sub 0 1 = npos" "size_sub 0 (Suc 0) = npos"
  by (simp_all add: size_sub_def npos_def size_max_def)

lemma size_add_mod: "size_add (a mod size_max) b = (a + b) mod size_max"
  by (simp add: size_add_def mod_simps)

lemma size_sub_mod:
  assumes "0 < a"
  shows "size_sub (a mod size_max) 1 = (a - 1) mod size_max"
proof -
  have "1 mod size_max = 1" by (simp add: size_max_def)
  then have "size_sub (a mod size_max) 1 = (a + (size_max - 1)) mod size_max"
    by (simp add: size_sub_def mod_simps)
  also have "a + (size_max - 1) = (a - 1) + size_max"
    using assms by (simp add: size_max_def)
  finally show ?thesis by simp
qed

lemma size_sub_0_0 [simp]: "size_sub 0 0 = 0"
  by (simp add: size_sub_def)

subsection \<open>Checks\<close>

text \<open>A failed CHECK, DCHECK or assert ends the process: the value \<open>None\<close> of the option monad.\<close>

definition CHECK :: "bool \<Rightarrow> unit option" where
  "CHECK b = (if b then Some () else None)"

lemma CHECK_simps [simp]: "CHECK True = Some ()" "CHECK False = None"
  by (simp_all add: CHECK_def)

lemma bind_CHECK [simp]: "Option.bind (CHECK b) f = (if b then f () else None)"
  by (simp add: CHECK_def)

subsection \<open>Characters\<close>

text \<open>\<open>uc\<close> reads a \<open>char\<close> as \<open>unsigned char\<close>, \<open>sc\<close> as the signed \<open>char\<close> of the platform.\<close>

definition uc :: "char \<Rightarrow> nat" where
  "uc c = of_char c"

definition sc :: "char \<Rightarrow> int" where
  "sc c = (if uc c < 128 then int (uc c) else int (uc c) - 256)"

definition chr_of :: "nat \<Rightarrow> char" where
  "chr_of n = char_of n"

lemma uc_less_256 [simp]: "uc c < 256"
  by (simp add: uc_def)

lemma chr_of_uc [simp]: "chr_of (uc c) = c"
  by (simp add: chr_of_def uc_def)

lemma uc_chr_of [simp]: "n < 256 \<Longrightarrow> uc (chr_of n) = n"
  by (simp add: chr_of_def uc_def)

lemma uc_inject [simp]: "uc c = uc d \<longleftrightarrow> c = d"
  by (metis chr_of_uc)

lemma uc_cases [case_names less greater equal]:
  obtains "uc a < uc b" | "uc b < uc a" | "a = b"
  by (metis linorder_neqE_nat uc_inject)

lemma sc_inject [simp]: "sc c = sc d \<longleftrightarrow> c = d"
proof
  assume "sc c = sc d"
  then have "uc c = uc d"
    using uc_less_256 [of c] uc_less_256 [of d]
    by (simp add: sc_def del: uc_inject uc_less_256 split: if_splits)
  then show "c = d" by simp
qed simp

subsection \<open>Little-endian byte images\<close>

fun le_bytes :: "nat \<Rightarrow> 'a::len word \<Rightarrow> byte list" where
  "le_bytes 0 w = []"
| "le_bytes (Suc n) w = ucast w # le_bytes n (drop_bit 8 w)"

fun le_word :: "byte list \<Rightarrow> 'a::len word" where
  "le_word [] = 0"
| "le_word (b # bs) = ucast b OR push_bit 8 (le_word bs)"

lemma length_le_bytes [simp, byte_simps]: "length (le_bytes n w) = n"
  by (induction n arbitrary: w) auto

lemma le_word_le_bytes_take: "le_word (le_bytes n w) = take_bit (8 * n) w"
proof (induction n arbitrary: w)
  case 0
  then show ?case by simp
next
  case (Suc n)
  show ?case
    by (rule bit_word_eqI) (auto simp: Suc bit_simps)
qed

lemma le_word_le_bytes [simp, byte_simps]:
  "LENGTH('a::len) \<le> 8 * n \<Longrightarrow> le_word (le_bytes n (w :: 'a word)) = w"
  by (simp add: le_word_le_bytes_take take_bit_word_eq_self)

lemma bit_le_word:
  "bit (le_word bs :: 'a::len word) i \<longleftrightarrow>
     i < LENGTH('a) \<and> i < 8 * length bs \<and> bit (bs ! (i div 8)) (i mod 8)"
proof (induction bs arbitrary: i)
  case Nil
  then show ?case by simp
next
  case (Cons b bs)
  show ?case
  proof (cases "i < 8")
    case True
    then show ?thesis by (auto simp: bit_simps)
  next
    case False
    then obtain j where i: "i = j + 8" by (metis add.commute le_Suc_ex linorder_not_less)
    have "\<not> bit b (j + 8)" using bit_imp_le_length [of b "j + 8"] by auto
    moreover have "(j + 8) div 8 = Suc (j div 8)" by simp
    ultimately show ?thesis by (auto simp: bit_simps Cons i)
  qed
qed

lemma le_bytes_le_word:
  assumes "LENGTH('a::len) = 8 * length bs"
  shows "le_bytes (length bs) (le_word bs :: 'a word) = bs"
proof -
  have gen: "le_bytes n w = map (\<lambda>k. ucast (drop_bit (8 * k) w)) [0..<n]" for n and w :: "'a word"
    by (induction n arbitrary: w)
       (simp_all add: upt_conv_Cons map_Suc_upt [symmetric] add.commute del: upt_Suc map_Suc_upt)
  show ?thesis
  proof (rule nth_equalityI)
    fix i assume "i < length (le_bytes (length bs) (le_word bs :: 'a word))"
    then have i: "i < length bs" by simp
    have "bit (ucast (drop_bit (8 * i) (le_word bs :: 'a word)) :: byte) j = bit (bs ! i) j" for j
    proof (cases "j < 8")
      case True
      with i assms show ?thesis by (auto simp: bit_simps bit_le_word)
    next
      case False
      then show ?thesis
        using bit_imp_le_length [of "bs ! i" j] by (auto simp: bit_simps)
    qed
    with i show "le_bytes (length bs) (le_word bs :: 'a word) ! i = bs ! i"
      by (auto simp: gen intro: bit_word_eqI)
  qed simp
qed

subsection \<open>Index scans\<close>

text \<open>
  \<open>scan_up P s i\<close> is \<^verbatim>\<open>for (; i < s.size(); ++i) if (P(s[i])) return i; return npos;\<close> and
  \<open>scan_down P s i\<close> is \<^verbatim>\<open>for (;; --i) { if (P(s[i])) return i; if (i == 0) break; } return npos;\<close>.
\<close>

function scan_up :: "('a \<Rightarrow> bool) \<Rightarrow> 'a list \<Rightarrow> nat \<Rightarrow> nat" where
  "scan_up P s i = (if i < length s then (if P (s ! i) then i else scan_up P s (Suc i)) else npos)"
  by pat_completeness auto
termination
  by (relation "measure (\<lambda>(P, s, i). length s - i)") auto

declare scan_up.simps [simp del]

fun scan_down :: "('a \<Rightarrow> bool) \<Rightarrow> 'a list \<Rightarrow> nat \<Rightarrow> nat" where
  "scan_down P s 0 = (if P (s ! 0) then 0 else npos)"
| "scan_down P s (Suc i) = (if P (s ! Suc i) then Suc i else scan_down P s i)"

lemma scan_up_cases [scan_specs]:
  "scan_up P s i = npos \<and> (\<forall>j. i \<le> j \<longrightarrow> j < length s \<longrightarrow> \<not> P (s ! j)) \<or>
   i \<le> scan_up P s i \<and> scan_up P s i < length s \<and> P (s ! scan_up P s i) \<and>
     (\<forall>j. i \<le> j \<longrightarrow> j < scan_up P s i \<longrightarrow> \<not> P (s ! j))"
proof (induction P s i rule: scan_up.induct)
  case (1 P s i)
  show ?case
  proof (cases "i < length s \<and> \<not> P (s ! i)")
    case True
    then have eq: "scan_up P s i = scan_up P s (Suc i)"
      by (simp add: scan_up.simps [of P s i])
    have skip: "i \<le> j \<longleftrightarrow> j = i \<or> Suc i \<le> j" for j by auto
    from 1 True show ?thesis unfolding eq skip by auto
  next
    case False
    then show ?thesis by (auto simp: scan_up.simps [of P s i])
  qed
qed

lemma scan_down_cases [scan_specs]:
  "scan_down P s i = npos \<and> (\<forall>j\<le>i. \<not> P (s ! j)) \<or>
   scan_down P s i \<le> i \<and> P (s ! scan_down P s i) \<and> (\<forall>j. scan_down P s i < j \<longrightarrow> j \<le> i \<longrightarrow> \<not> P (s ! j))"
proof (induction i)
  case (Suc i)
  then show ?case
    by (cases "P (s ! Suc i)") (simp_all add: le_Suc_eq, blast)
qed simp

text \<open>Reference descriptions of the two searches: the first index from \<open>i\<close> on, the last up to \<open>i\<close>.\<close>

definition head_or_npos :: "nat list \<Rightarrow> nat" where
  "head_or_npos is = (case is of [] \<Rightarrow> npos | i # _ \<Rightarrow> i)"

definition first_index :: "('a \<Rightarrow> bool) \<Rightarrow> 'a list \<Rightarrow> nat \<Rightarrow> nat" where
  "first_index P s i = head_or_npos (filter (\<lambda>j. P (s ! j)) [i..<length s])"

definition last_index :: "('a \<Rightarrow> bool) \<Rightarrow> 'a list \<Rightarrow> nat \<Rightarrow> nat" where
  "last_index P s i = head_or_npos (filter (\<lambda>j. P (s ! j)) (rev [0..<min (Suc i) (length s)]))"

lemma head_or_npos_simps [simp]: "head_or_npos [] = npos" "head_or_npos (i # is) = i"
  by (simp_all add: head_or_npos_def)

lemma scan_up_first_index: "scan_up P s i = first_index P s i"
proof (induction P s i rule: scan_up.induct)
  case (1 P s i)
  then show ?case
    by (cases "i < length s") (simp_all add: scan_up.simps [of P s i] first_index_def upt_conv_Cons)
qed

lemma scan_down_last_index: "i < length s \<Longrightarrow> scan_down P s i = last_index P s i"
  by (induction i) (simp_all add: last_index_def min_def not_less_eq_eq)

lemma last_index_clip: "s \<noteq> [] \<Longrightarrow> last_index P s (min i (length s - 1)) = last_index P s i"
proof -
  assume "s \<noteq> []"
  then have "min (Suc (min i (length s - 1))) (length s) = min (Suc i) (length s)"
    by (cases s) auto
  then show ?thesis by (simp only: last_index_def)
qed

lemma first_index_Nil [simp]: "first_index P [] i = npos"
  by (simp add: first_index_def)

lemma last_index_Nil [simp]: "last_index P [] i = npos"
  by (simp add: last_index_def)

subsection \<open>Sums over a list with one entry replaced\<close>

lemma sum_list_update_swap:
  fixes f :: "'a \<Rightarrow> 'b::comm_monoid_add"
  assumes "i < length xs"
  shows "sum_list (map f (xs[i := y])) + f (xs ! i) = sum_list (map f xs) + f y"
  using assms
proof (induction xs arbitrary: i)
  case (Cons x xs)
  show ?case
  proof (cases i)
    case (Suc j)
    with Cons have "sum_list (map f (xs[j := y])) + f (xs ! j) = sum_list (map f xs) + f y" by simp
    then show ?thesis by (simp add: Suc add.assoc)
  qed (simp add: ac_simps)
qed simp

lemma sum_list_ge_nth:
  fixes f :: "'a \<Rightarrow> nat"
  shows "i < length xs \<Longrightarrow> f (xs ! i) \<le> sum_list (map f xs)"
  by (rule member_le_sum_list) auto

end
