(* ===== verification/Bits.thy ===== *)
theory Bits
  imports Prelude
begin

text \<open>
  \<^verbatim>\<open>base/bits.h\<close> and \<^verbatim>\<open>base/byteorder.h\<close>: integer logarithms, alignment to a power of two and byte
  order conversion. The lemmas give each routine its arithmetic meaning; the alignment facts carry
  the bounds of the pickle format.
\<close>

unbundle bit_operations_syntax

subsection \<open>\<open>Log2Floor\<close> and \<open>Log2Ceiling\<close>\<close>

text \<open>\<open>log2_loop k v l\<close> runs the loop body for \<open>i = k - 1, \<dots>, 0\<close>.\<close>

fun log2_loop :: "nat \<Rightarrow> u32 \<Rightarrow> nat \<Rightarrow> u32 \<times> nat" where
  "log2_loop 0 value log = (value, log)"
| "log2_loop (Suc i) value log =
     (let shift = 2 ^ i; x = drop_bit shift value in
      if x \<noteq> 0 then log2_loop i x (log + shift) else log2_loop i value log)"

definition Log2Floor :: "u32 \<Rightarrow> int option" where
  "Log2Floor n =
     (if n = 0 then Some (- 1)
      else let (value, log) = log2_loop 5 n 0 in
           if value = 1 then Some (int log) else None)"

definition Log2Ceiling :: "u32 \<Rightarrow> int option" where
  "Log2Ceiling n =
     (if n = 0 then Some (- 1)
      else map_option (\<lambda>l. 1 + l) (Log2Floor (n - 1)))"

lemma log2_loop_inv:
  assumes "log2_loop k v l = (v', l')" and "v \<noteq> 0" and "unat v < 2 ^ 2 ^ k"
    and "unat v = n div 2 ^ l"
  shows "v' = 1 \<and> n div 2 ^ l' = 1"
  using assms
proof (induction k arbitrary: v l)
  case 0
  then have "unat v = unat (1 :: u32)" using unat_gt_0 [of v] by simp
  then have "v = 1" by (rule unsigned_word_eqI)
  with 0 show ?case by simp
next
  case (Suc i)
  let ?x = "drop_bit (2 ^ i) v"
  have x: "unat ?x = unat v div 2 ^ 2 ^ i"
    by (simp only: unat_drop_bit_eq drop_bit_eq_div [where 'a = nat])
  have sq: "(2::nat) ^ 2 ^ Suc i = 2 ^ 2 ^ i * 2 ^ 2 ^ i"
    by (simp add: mult_2 power_add)
  show ?case
  proof (cases "?x = 0")
    case True
    then have "unat v div 2 ^ 2 ^ i = 0" using x by simp
    then have "unat v < 2 ^ 2 ^ i" by (simp add: div_eq_0_iff)
    with Suc.prems True show ?thesis by (intro Suc.IH [of v l]) simp_all
  next
    case False
    have "unat ?x < 2 ^ 2 ^ i"
      using Suc.prems(3) unfolding x sq by (rule less_mult_imp_div_less)
    moreover have "unat ?x = n div 2 ^ (l + 2 ^ i)"
      using Suc.prems(4) by (simp add: x div_mult2_eq power_add)
    ultimately show ?thesis
      using Suc.prems False by (intro Suc.IH [of ?x "l + 2 ^ i"]) (simp_all add: Let_def)
  qed
qed

lemma div_eq_1_bounds:
  assumes "n div m = (1::nat)"
  shows "m \<le> n \<and> n < 2 * m"
proof -
  have "0 < m" using assms by (cases m) auto
  moreover have "n = m + n mod m" using assms by (metis div_mult_mod_eq mult_1)
  ultimately show ?thesis using mod_less_divisor [of m n] by linarith
qed

lemma Log2Floor_nonzero:
  assumes "n \<noteq> 0"
  shows "\<exists>k. Log2Floor n = Some (int k) \<and> 2 ^ k \<le> unat n \<and> unat n < 2 ^ Suc k"
proof -
  obtain v l where vl: "log2_loop 5 n 0 = (v, l)" by fastforce
  have "unat n < 2 ^ 2 ^ 5" using unsigned_less [of n] by simp
  with log2_loop_inv [OF vl assms] have "v = 1" and "unat n div 2 ^ l = 1" by auto
  with vl assms show ?thesis
    using div_eq_1_bounds [of "unat n" "2 ^ l"] by (auto simp: Log2Floor_def)
qed

lemma Log2Ceiling_spec:
  assumes "1 < unat n"
  shows "\<exists>k. Log2Ceiling n = Some (int (Suc k)) \<and> 2 ^ k < unat n \<and> unat n \<le> 2 ^ Suc k"
proof -
  have n: "n \<noteq> 0" using assms by auto
  then have un: "unat (n - 1) = unat n - 1" by (rule unat_minus_one)
  with assms have "n - 1 \<noteq> 0" by (metis diff_is_0_eq linorder_not_less unsigned_0)
  from Log2Floor_nonzero [OF this] n un assms show ?thesis
    by (auto simp: Log2Ceiling_def)
qed

lemma Log2Ceiling_small [simp]: "Log2Ceiling 0 = Some (- 1)" "Log2Ceiling 1 = Some 0"
  by (simp_all add: Log2Ceiling_def Log2Floor_def)

subsection \<open>\<open>Align\<close>\<close>

text \<open>The DCHECK asks for a power of two (zero passes it as well).\<close>

definition Align :: "u64 \<Rightarrow> u64 \<Rightarrow> u64 option" where
  "Align n alignment =
     (if alignment AND (alignment - 1) = 0
      then Some ((n + alignment - 1) AND NOT (alignment - 1)) else None)"

text \<open>What \<open>Align\<close> computes when nothing wraps: the least multiple of \<open>a\<close> that is at least \<open>n\<close>.\<close>

definition align_up :: "nat \<Rightarrow> nat \<Rightarrow> nat" where
  "align_up a n = (n + (a - 1)) div a * a"

lemma align_up_ge:
  assumes "0 < a"
  shows "n \<le> align_up a n"
  using mod_less_divisor [OF assms, of "n + (a - 1)"] div_mult_mod_eq [of "n + (a - 1)" a]
  unfolding align_up_def by linarith

lemma align_up_less:
  assumes "0 < a"
  shows "align_up a n < n + a"
  using div_times_less_eq_dividend [of "n + (a - 1)" a] assms
  unfolding align_up_def by linarith

lemma align_up_dvd [simp]: "a dvd align_up a n"
  by (simp add: align_up_def)

lemma align_up_least:
  assumes "0 < a" and "a dvd m" and "n \<le> m"
  shows "align_up a n \<le> m"
proof -
  from assms(2) obtain q where m: "m = a * q" ..
  have "align_up a n < m + a"
    using align_up_less [OF assms(1), of n] assms(3) by linarith
  moreover obtain r where r: "align_up a n = a * r"
    using align_up_dvd [of a n] ..
  ultimately have "a * r < a * Suc q" by (simp add: m)
  then have "r < Suc q" by (metis mult_less_cancel1)
  then show ?thesis by (simp add: m r)
qed

lemma align_up_id: "0 < a \<Longrightarrow> a dvd n \<Longrightarrow> align_up a n = n"
  by (metis align_up_ge align_up_least le_antisym order_refl)

lemma pow2_and_pred: "(2 ^ k :: 'a::len word) AND (2 ^ k - 1) = 0"
  by (rule bit_word_eqI) (auto simp: bit_simps mask_eq_exp_minus_1 [symmetric])

lemma and_not_pred_pow2: "(x :: u64) AND NOT (2 ^ k - 1) = push_bit k (drop_bit k x)"
  by (rule bit_word_eqI) (auto simp: bit_simps mask_eq_exp_minus_1 [symmetric])

lemma unat_clear_low:
  fixes x :: u64
  shows "unat (push_bit k (drop_bit k x)) = unat x div 2 ^ k * 2 ^ k"
proof -
  have "unat x div 2 ^ k * 2 ^ k < 2 ^ 64"
    using unsigned_less [of x] by (intro le_less_trans [OF div_times_less_eq_dividend]) simp
  then show ?thesis
    by (simp only: unsigned_push_bit_eq unat_drop_bit_eq push_bit_eq_mult [where 'a = nat]
        drop_bit_eq_div [where 'a = nat]) (simp add: take_bit_nat_eq_self)
qed

lemma unat_exp_u64: "k < 64 \<Longrightarrow> unat (2 ^ k :: u64) = 2 ^ k"
  using unsigned_of_nat [of "2 ^ k", where 'b = 64, where 'a = nat]
  by (simp add: take_bit_nat_eq_self)

lemma Align_pow2:
  assumes "k < 64" and "unat s + 2 ^ k - 1 < 2 ^ 64"
  shows "\<exists>r. Align s (2 ^ k) = Some r \<and> unat r = align_up (2 ^ k) (unat s)"
proof -
  have "unat (2 ^ k :: u64) = 2 ^ k"
    using assms(1) by (simp add: unsigned_eq_0_iff unat_exp_u64)
  then have "s + 2 ^ k - 1 = word_of_nat (unat s + 2 ^ k - 1)"
    by (simp add: of_nat_diff Suc_le_eq trans_less_add2)
  then have "unat (s + 2 ^ k - 1) = unat s + 2 ^ k - 1"
    using assms(2) by (simp add: unsigned_of_nat take_bit_nat_eq_self)
  then show ?thesis
    by (simp add: Align_def pow2_and_pred and_not_pred_pow2 unat_clear_low align_up_def)
qed

lemma Align_cases:
  assumes "Align n a = Some r"
  shows "a AND (a - 1) = 0 \<and> r = (n + a - 1) AND NOT (a - 1)"
  using assms by (simp add: Align_def split: if_splits)

subsection \<open>Byte order\<close>

text \<open>\<open>bswap_16/32/64\<close> of the C library reverse the bytes of their argument.\<close>

definition ByteSwap16 :: "u16 \<Rightarrow> u16" where
  "ByteSwap16 x = le_word (rev (le_bytes 2 x))"

definition ByteSwap32 :: "u32 \<Rightarrow> u32" where
  "ByteSwap32 x = le_word (rev (le_bytes 4 x))"

definition ByteSwap64 :: "u64 \<Rightarrow> u64" where
  "ByteSwap64 x = le_word (rev (le_bytes 8 x))"

definition ByteSwapToLE16 :: "u16 \<Rightarrow> u16" where "ByteSwapToLE16 x = x"

definition ByteSwapToLE32 :: "u32 \<Rightarrow> u32" where "ByteSwapToLE32 x = x"

definition ByteSwapToLE64 :: "u64 \<Rightarrow> u64" where "ByteSwapToLE64 x = x"

definition NetToHost16 :: "u16 \<Rightarrow> u16" where "NetToHost16 x = ByteSwap16 x"

definition NetToHost32 :: "u32 \<Rightarrow> u32" where "NetToHost32 x = ByteSwap32 x"

definition NetToHost64 :: "u64 \<Rightarrow> u64" where "NetToHost64 x = ByteSwap64 x"

definition HostToNet16 :: "u16 \<Rightarrow> u16" where "HostToNet16 x = ByteSwap16 x"

definition HostToNet32 :: "u32 \<Rightarrow> u32" where "HostToNet32 x = ByteSwap32 x"

definition HostToNet64 :: "u64 \<Rightarrow> u64" where "HostToNet64 x = ByteSwap64 x"

lemma le_bytes_swapped:
  assumes "LENGTH('a::len) = 8 * n"
  shows "le_bytes n (le_word (rev (le_bytes n (x :: 'a word))) :: 'a word) = rev (le_bytes n x)"
  using le_bytes_le_word [of "rev (le_bytes n x)", where 'a = 'a] assms by simp

lemma swap_twice:
  assumes "LENGTH('a::len) = 8 * n"
  shows "le_word (rev (le_bytes n (le_word (rev (le_bytes n (x :: 'a word))) :: 'a word))) = x"
  using assms by (simp add: le_bytes_swapped)

lemma ByteSwap_images [byte_simps]:
  "le_bytes 2 (ByteSwap16 x) = rev (le_bytes 2 x)"
  "le_bytes 4 (ByteSwap32 y) = rev (le_bytes 4 y)"
  "le_bytes 8 (ByteSwap64 z) = rev (le_bytes 8 z)"
  by (simp_all add: ByteSwap16_def ByteSwap32_def ByteSwap64_def le_bytes_swapped)

lemma ByteSwap_involution [simp]:
  "ByteSwap16 (ByteSwap16 x) = x" "ByteSwap32 (ByteSwap32 y) = y" "ByteSwap64 (ByteSwap64 z) = z"
  by (simp_all add: ByteSwap16_def ByteSwap32_def ByteSwap64_def swap_twice)

subsection \<open>Properties\<close>

text \<open>\<open>Log2Ceiling\<close> never aborts and returns the least exponent \<open>k\<close> with \<open>n \<le> 2 ^ k\<close>
  (and \<open>-1\<close> for 0): the five-step binary search is the mathematical logarithm on all 32-bit inputs.\<close>

theorem Log2Ceiling_least_exponent:
  "Log2Ceiling n = Some (if n = 0 then - 1 else int (LEAST k. unat n \<le> 2 ^ k))"
proof (cases "n = 0 \<or> n = 1")
  case True
  have "(LEAST k. (1::nat) \<le> 2 ^ k) = 0" by (rule Least_equality) auto
  with True show ?thesis by auto
next
  case False
  then have "unat n \<noteq> 0 \<and> unat n \<noteq> 1"
    by (metis unsigned_0 unsigned_1 unsigned_word_eqI)
  then obtain k where k: "Log2Ceiling n = Some (int (Suc k))" "2 ^ k < unat n" "unat n \<le> 2 ^ Suc k"
    using Log2Ceiling_spec [of n] by auto
  have "(LEAST k. unat n \<le> 2 ^ k) = Suc k"
  proof (rule Least_equality)
    fix m assume "unat n \<le> 2 ^ m"
    with k(2) have "(2::nat) ^ k < 2 ^ m" by linarith
    then show "Suc k \<le> m" using power_less_imp_less_exp [of 2 k m] by simp
  qed (fact k(3))
  with k(1) False show ?thesis by simp
qed

end
