(* ===== verification/Ascii_Ctype.thy ===== *)
theory Ascii_Ctype
  imports Prelude
begin

text \<open>
  \<^verbatim>\<open>base/ascii_ctype.h\<close> and \<^verbatim>\<open>.cc\<close>: the three tables as they stand in the source and the
  functions that read them. A \<open>char\<close> argument is converted to \<open>unsigned char\<close> (\<open>uc\<close>) at the call.
  The theorems tie the tables to the classification they were generated from.
\<close>

unbundle bit_operations_syntax

subsection \<open>The tables\<close>

text \<open>The initialiser of \<open>kAsciiPropertyBits\<close> lists 128 bytes; C++ zeroes the other 128.\<close>

definition kAsciiPropertyBits :: "nat list" where
  "kAsciiPropertyBits =
     [
      0x40, 0x40, 0x40, 0x40, 0x40, 0x40, 0x40, 0x40,
      0x40, 0x68, 0x48, 0x48, 0x48, 0x48, 0x40, 0x40,
      0x40, 0x40, 0x40, 0x40, 0x40, 0x40, 0x40, 0x40,
      0x40, 0x40, 0x40, 0x40, 0x40, 0x40, 0x40, 0x40,
      0x28, 0x10, 0x10, 0x10, 0x10, 0x10, 0x10, 0x10,
      0x10, 0x10, 0x10, 0x10, 0x10, 0x10, 0x10, 0x10,
      0x84, 0x84, 0x84, 0x84, 0x84, 0x84, 0x84, 0x84,
      0x84, 0x84, 0x10, 0x10, 0x10, 0x10, 0x10, 0x10,
      0x10, 0x85, 0x85, 0x85, 0x85, 0x85, 0x85, 0x05,
      0x05, 0x05, 0x05, 0x05, 0x05, 0x05, 0x05, 0x05,
      0x05, 0x05, 0x05, 0x05, 0x05, 0x05, 0x05, 0x05,
      0x05, 0x05, 0x05, 0x10, 0x10, 0x10, 0x10, 0x10,
      0x10, 0x85, 0x85, 0x85, 0x85, 0x85, 0x85, 0x05,
      0x05, 0x05, 0x05, 0x05, 0x05, 0x05, 0x05, 0x05,
      0x05, 0x05, 0x05, 0x05, 0x05, 0x05, 0x05, 0x05,
      0x05, 0x05, 0x05, 0x10, 0x10, 0x10, 0x10, 0x40] @ replicate 128 0"

definition kAsciiToLower :: "nat list" where
  "kAsciiToLower =
     [
      0, 1, 2, 3, 4, 5, 6, 7, 8, 9, 10, 11, 12, 13, 14, 15,
      16, 17, 18, 19, 20, 21, 22, 23, 24, 25, 26, 27, 28, 29, 30, 31,
      32, 33, 34, 35, 36, 37, 38, 39, 40, 41, 42, 43, 44, 45, 46, 47,
      48, 49, 50, 51, 52, 53, 54, 55, 56, 57, 58, 59, 60, 61, 62, 63,
      64, 97, 98, 99, 100, 101, 102, 103, 104, 105, 106, 107, 108, 109, 110, 111,
      112, 113, 114, 115, 116, 117, 118, 119, 120, 121, 122, 91, 92, 93, 94, 95,
      96, 97, 98, 99, 100, 101, 102, 103, 104, 105, 106, 107, 108, 109, 110, 111,
      112, 113, 114, 115, 116, 117, 118, 119, 120, 121, 122, 123, 124, 125, 126, 127,
      128, 129, 130, 131, 132, 133, 134, 135, 136, 137, 138, 139, 140, 141, 142, 143,
      144, 145, 146, 147, 148, 149, 150, 151, 152, 153, 154, 155, 156, 157, 158, 159,
      160, 161, 162, 163, 164, 165, 166, 167, 168, 169, 170, 171, 172, 173, 174, 175,
      176, 177, 178, 179, 180, 181, 182, 183, 184, 185, 186, 187, 188, 189, 190, 191,
      192, 193, 194, 195, 196, 197, 198, 199, 200, 201, 202, 203, 204, 205, 206, 207,
      208, 209, 210, 211, 212, 213, 214, 215, 216, 217, 218, 219, 220, 221, 222, 223,
      224, 225, 226, 227, 228, 229, 230, 231, 232, 233, 234, 235, 236, 237, 238, 239,
      240, 241, 242, 243, 244, 245, 246, 247, 248, 249, 250, 251, 252, 253, 254, 255]"

definition kAsciiToUpper :: "nat list" where
  "kAsciiToUpper =
     [
      0, 1, 2, 3, 4, 5, 6, 7, 8, 9, 10, 11, 12, 13, 14, 15,
      16, 17, 18, 19, 20, 21, 22, 23, 24, 25, 26, 27, 28, 29, 30, 31,
      32, 33, 34, 35, 36, 37, 38, 39, 40, 41, 42, 43, 44, 45, 46, 47,
      48, 49, 50, 51, 52, 53, 54, 55, 56, 57, 58, 59, 60, 61, 62, 63,
      64, 65, 66, 67, 68, 69, 70, 71, 72, 73, 74, 75, 76, 77, 78, 79,
      80, 81, 82, 83, 84, 85, 86, 87, 88, 89, 90, 91, 92, 93, 94, 95,
      96, 65, 66, 67, 68, 69, 70, 71, 72, 73, 74, 75, 76, 77, 78, 79,
      80, 81, 82, 83, 84, 85, 86, 87, 88, 89, 90, 123, 124, 125, 126, 127,
      128, 129, 130, 131, 132, 133, 134, 135, 136, 137, 138, 139, 140, 141, 142, 143,
      144, 145, 146, 147, 148, 149, 150, 151, 152, 153, 154, 155, 156, 157, 158, 159,
      160, 161, 162, 163, 164, 165, 166, 167, 168, 169, 170, 171, 172, 173, 174, 175,
      176, 177, 178, 179, 180, 181, 182, 183, 184, 185, 186, 187, 188, 189, 190, 191,
      192, 193, 194, 195, 196, 197, 198, 199, 200, 201, 202, 203, 204, 205, 206, 207,
      208, 209, 210, 211, 212, 213, 214, 215, 216, 217, 218, 219, 220, 221, 222, 223,
      224, 225, 226, 227, 228, 229, 230, 231, 232, 233, 234, 235, 236, 237, 238, 239,
      240, 241, 242, 243, 244, 245, 246, 247, 248, 249, 250, 251, 252, 253, 254, 255]"

subsection \<open>The functions\<close>

definition ascii_isalpha :: "char \<Rightarrow> bool" where
  "ascii_isalpha c = (kAsciiPropertyBits ! uc c AND 0x01 \<noteq> 0)"

definition ascii_isalnum :: "char \<Rightarrow> bool" where
  "ascii_isalnum c = (kAsciiPropertyBits ! uc c AND 0x04 \<noteq> 0)"

definition ascii_isspace :: "char \<Rightarrow> bool" where
  "ascii_isspace c = (kAsciiPropertyBits ! uc c AND 0x08 \<noteq> 0)"

definition ascii_ispunct :: "char \<Rightarrow> bool" where
  "ascii_ispunct c = (kAsciiPropertyBits ! uc c AND 0x10 \<noteq> 0)"

definition ascii_isblank :: "char \<Rightarrow> bool" where
  "ascii_isblank c = (kAsciiPropertyBits ! uc c AND 0x20 \<noteq> 0)"

definition ascii_iscntrl :: "char \<Rightarrow> bool" where
  "ascii_iscntrl c = (kAsciiPropertyBits ! uc c AND 0x40 \<noteq> 0)"

definition ascii_isxdigit :: "char \<Rightarrow> bool" where
  "ascii_isxdigit c = (kAsciiPropertyBits ! uc c AND 0x80 \<noteq> 0)"

definition ascii_isdigit :: "char \<Rightarrow> bool" where
  "ascii_isdigit c = (48 \<le> uc c \<and> uc c \<le> 57)"

definition ascii_isprint :: "char \<Rightarrow> bool" where
  "ascii_isprint c = (32 \<le> uc c \<and> uc c < 127)"

definition ascii_isgraph :: "char \<Rightarrow> bool" where
  "ascii_isgraph c = (32 < uc c \<and> uc c < 127)"

definition ascii_isupper :: "char \<Rightarrow> bool" where
  "ascii_isupper c = (65 \<le> uc c \<and> uc c \<le> 90)"

definition ascii_islower :: "char \<Rightarrow> bool" where
  "ascii_islower c = (97 \<le> uc c \<and> uc c \<le> 122)"

definition ascii_isascii :: "char \<Rightarrow> bool" where
  "ascii_isascii c = (uc c < 128)"

definition ascii_tolower :: "char \<Rightarrow> char" where
  "ascii_tolower c = chr_of (kAsciiToLower ! uc c)"

definition ascii_toupper :: "char \<Rightarrow> char" where
  "ascii_toupper c = chr_of (kAsciiToUpper ! uc c)"

subsection \<open>The generator of the property table\<close>

text \<open>The Python program quoted above the table, on character codes.\<close>

definition gen_alpha :: "nat \<Rightarrow> bool" where
  "gen_alpha n = ((65 \<le> n \<and> n \<le> 90) \<or> (97 \<le> n \<and> n \<le> 122))"

definition gen_digit :: "nat \<Rightarrow> bool" where
  "gen_digit n = (48 \<le> n \<and> n \<le> 57)"

definition gen_space :: "nat \<Rightarrow> bool" where
  "gen_space n = (n = 32 \<or> (9 \<le> n \<and> n \<le> 13))"

definition gen_punct :: "nat \<Rightarrow> bool" where
  "gen_punct n = (32 \<le> n \<and> n < 127 \<and> \<not> gen_space n \<and> \<not> gen_alpha n \<and> \<not> gen_digit n)"

definition gen_blank :: "nat \<Rightarrow> bool" where
  "gen_blank n = (n = 32 \<or> n = 9)"

definition gen_cntrl :: "nat \<Rightarrow> bool" where
  "gen_cntrl n = (n < 32 \<or> n = 127)"

definition gen_xdigit :: "nat \<Rightarrow> bool" where
  "gen_xdigit n = (gen_digit n \<or> (65 \<le> n \<and> n \<le> 70) \<or> (97 \<le> n \<and> n \<le> 102))"

lemmas gen_defs = gen_alpha_def gen_digit_def gen_space_def gen_punct_def gen_blank_def
  gen_cntrl_def gen_xdigit_def

definition gen_mask :: "nat \<Rightarrow> nat" where
  "gen_mask n =
     (if gen_alpha n then 0x01 else 0) OR (if gen_alpha n \<or> gen_digit n then 0x04 else 0) OR
     (if gen_space n then 0x08 else 0) OR (if gen_punct n then 0x10 else 0) OR
     (if gen_blank n then 0x20 else 0) OR (if gen_cntrl n then 0x40 else 0) OR
     (if gen_xdigit n then 0x80 else 0)"

lemma property_table: "kAsciiPropertyBits = map gen_mask [0..<128] @ replicate 128 0"
  by code_simp

lemma lower_table:
  "kAsciiToLower = map (\<lambda>n. if 65 \<le> n \<and> n \<le> 90 then n + 32 else n) [0..<256]"
  by code_simp

lemma upper_table:
  "kAsciiToUpper = map (\<lambda>n. if 97 \<le> n \<and> n \<le> 122 then n - 32 else n) [0..<256]"
  by code_simp

lemma property_bits: "kAsciiPropertyBits ! uc c = (if uc c < 128 then gen_mask (uc c) else 0)"
  using uc_less_256 [of c] by (simp add: property_table nth_append del: uc_less_256)

lemma gen_mask_bits:
  "gen_mask n AND 0x01 \<noteq> 0 \<longleftrightarrow> gen_alpha n"
  "gen_mask n AND 0x04 \<noteq> 0 \<longleftrightarrow> gen_alpha n \<or> gen_digit n"
  "gen_mask n AND 0x08 \<noteq> 0 \<longleftrightarrow> gen_space n"
  "gen_mask n AND 0x10 \<noteq> 0 \<longleftrightarrow> gen_punct n"
  "gen_mask n AND 0x20 \<noteq> 0 \<longleftrightarrow> gen_blank n"
  "gen_mask n AND 0x40 \<noteq> 0 \<longleftrightarrow> gen_cntrl n"
  "gen_mask n AND 0x80 \<noteq> 0 \<longleftrightarrow> gen_xdigit n"
  unfolding gen_mask_def by (simp_all split: if_split)

lemmas ascii_table_defs = ascii_isalpha_def ascii_isalnum_def ascii_isspace_def ascii_ispunct_def
  ascii_isblank_def ascii_iscntrl_def ascii_isxdigit_def

lemmas ascii_range_defs = ascii_isdigit_def ascii_isprint_def ascii_isgraph_def ascii_isupper_def
  ascii_islower_def ascii_isascii_def

lemma table_reads:
  "ascii_isalpha c \<longleftrightarrow> uc c < 128 \<and> gen_alpha (uc c)"
  "ascii_isalnum c \<longleftrightarrow> uc c < 128 \<and> (gen_alpha (uc c) \<or> gen_digit (uc c))"
  "ascii_isspace c \<longleftrightarrow> uc c < 128 \<and> gen_space (uc c)"
  "ascii_ispunct c \<longleftrightarrow> uc c < 128 \<and> gen_punct (uc c)"
  "ascii_isblank c \<longleftrightarrow> uc c < 128 \<and> gen_blank (uc c)"
  "ascii_iscntrl c \<longleftrightarrow> uc c < 128 \<and> gen_cntrl (uc c)"
  "ascii_isxdigit c \<longleftrightarrow> uc c < 128 \<and> gen_xdigit (uc c)"
  unfolding ascii_table_defs property_bits
  by (cases "uc c < 128"; simp only: gen_mask_bits if_True if_False; simp)+

lemma uc_tolower: "uc (ascii_tolower c) = (if 65 \<le> uc c \<and> uc c \<le> 90 then uc c + 32 else uc c)"
  by (simp add: ascii_tolower_def lower_table)

lemma uc_toupper: "uc (ascii_toupper c) = (if 97 \<le> uc c \<and> uc c \<le> 122 then uc c - 32 else uc c)"
  using uc_less_256 [of c] by (simp add: ascii_toupper_def upper_table del: uc_less_256)

lemma tolower_idem [simp]: "ascii_tolower (ascii_tolower c) = ascii_tolower c"
  by (rule uc_inject [THEN iffD1]) (simp add: uc_tolower)

lemma isspace_uc: "ascii_isspace c \<longleftrightarrow> uc c = 32 \<or> (9 \<le> uc c \<and> uc c \<le> 13)"
  by (auto simp: table_reads gen_space_def)

subsection \<open>Properties\<close>

text \<open>Every function that reads the property table decides exactly the class its name says, on
  all 256 bytes (so the hand-copied table has no wrong entry), and answers False above 127.\<close>

theorem ascii_classification:
  "ascii_isalpha c = (ascii_isupper c \<or> ascii_islower c) \<and>
   ascii_isalnum c = (ascii_isalpha c \<or> ascii_isdigit c) \<and>
   ascii_isspace c = (uc c = 32 \<or> (9 \<le> uc c \<and> uc c \<le> 13)) \<and>
   ascii_ispunct c = (ascii_isgraph c \<and> \<not> ascii_isalnum c) \<and>
   ascii_isblank c = (uc c = 32 \<or> uc c = 9) \<and>
   ascii_iscntrl c = (ascii_isascii c \<and> \<not> ascii_isprint c) \<and>
   ascii_isxdigit c = (ascii_isdigit c \<or> (65 \<le> uc c \<and> uc c \<le> 70) \<or> (97 \<le> uc c \<and> uc c \<le> 102))"
  unfolding table_reads ascii_range_defs gen_defs by auto

end
