(* ===== verification/String_Piece.thy ===== *)
theory String_Piece
  imports Prelude
begin

text \<open>
  \<^verbatim>\<open>base/string_piece.h\<close> and \<^verbatim>\<open>.cc\<close>. A piece is modelled by the characters it views
  (\<open>ptr_[0], \<dots>, ptr_[length_ - 1]\<close>); the searches keep the loops, the special cases and the lookup
  table of the source. \<open>std::search\<close>, \<open>std::find\<close> and \<open>std::find_end\<close> are the standard ones. Two
  pieces fit in the address space together, so sums of two lengths do not wrap.
\<close>

type_synonym piece = string

subsection \<open>Comparison\<close>

text \<open>\<open>memcmp\<close> on the first \<open>n\<close> bytes; both operands have at least that many.\<close>

fun wordmemcmp :: "piece \<Rightarrow> piece \<Rightarrow> nat \<Rightarrow> int" where
  "wordmemcmp (a # p) (b # q) (Suc n) =
     (if uc a < uc b then - 1 else if uc b < uc a then 1 else wordmemcmp p q n)"
| "wordmemcmp _ _ _ = 0"

definition piece_eq :: "piece \<Rightarrow> piece \<Rightarrow> bool" where
  "piece_eq x y = (if length x \<noteq> length y then False else wordmemcmp x y (length x) = 0)"

definition piece_ne :: "piece \<Rightarrow> piece \<Rightarrow> bool" where "piece_ne x y = (\<not> piece_eq x y)"

definition compare :: "piece \<Rightarrow> piece \<Rightarrow> int" where
  "compare self x =
     (let r = wordmemcmp self x (if length self < length x then length self else length x) in
      if r = 0 then (if length self < length x then - 1 else if length self > length x then 1 else r)
      else r)"

definition piece_less :: "piece \<Rightarrow> piece \<Rightarrow> bool" where
  "piece_less x y =
     (let r = wordmemcmp x y (if length x < length y then length x else length y) in
      r < 0 \<or> (r = 0 \<and> length x < length y))"

definition piece_greater :: "piece \<Rightarrow> piece \<Rightarrow> bool" where "piece_greater x y = piece_less y x"

definition piece_le :: "piece \<Rightarrow> piece \<Rightarrow> bool" where "piece_le x y = (\<not> piece_greater x y)"

definition piece_ge :: "piece \<Rightarrow> piece \<Rightarrow> bool" where "piece_ge x y = (\<not> piece_less x y)"

definition starts_with :: "piece \<Rightarrow> piece \<Rightarrow> bool" where
  "starts_with self x = (length self \<ge> length x \<and> wordmemcmp self x (length x) = 0)"

definition ends_with :: "piece \<Rightarrow> piece \<Rightarrow> bool" where
  "ends_with self x =
     (length self \<ge> length x \<and> wordmemcmp (drop (length self - length x) self) x (length x) = 0)"

subsection \<open>Copying and shrinking\<close>

text \<open>\<open>None\<close> is a read or a length outside the viewed buffer.\<close>

definition remove_prefix :: "nat \<Rightarrow> piece \<Rightarrow> piece option" where
  "remove_prefix n self = (if n \<le> length self then Some (drop n self) else None)"

definition remove_suffix :: "nat \<Rightarrow> piece \<Rightarrow> piece option" where
  "remove_suffix n self = (if n \<le> length self then Some (take (length self - n) self) else None)"

definition CopyToString :: "piece \<Rightarrow> string \<Rightarrow> string" where
  "CopyToString self target = (if self = [] then [] else self)"

definition AppendToString :: "piece \<Rightarrow> string \<Rightarrow> string" where
  "AppendToString self target = (if self \<noteq> [] then target @ self else target)"

definition piece_copy :: "piece \<Rightarrow> nat \<Rightarrow> nat \<Rightarrow> string option" where
  "piece_copy self n pos =
     (let ret = min (size_sub (length self) pos) n in
      if pos + ret \<le> length self then Some (take ret (drop pos self)) else None)"

definition substr :: "piece \<Rightarrow> nat \<Rightarrow> nat \<Rightarrow> piece" where
  "substr self pos n =
     (let pos = (if pos > length self then length self else pos);
          n = (if n > length self - pos then length self - pos else n)
      in take n (drop pos self))"

definition StringPieceHash :: "piece \<Rightarrow> u64" where
  "StringPieceHash sp = fold (\<lambda>c result. result * 131 + word_of_int (sc c)) sp 0"

subsection \<open>Searching\<close>

text \<open>Does \<open>s\<close> occur in \<open>self\<close> at \<open>i\<close>?\<close>

definition occurs_at :: "piece \<Rightarrow> piece \<Rightarrow> nat \<Rightarrow> bool" where
  "occurs_at self s i = (take (length s) (drop i self) = s)"

function std_search :: "piece \<Rightarrow> piece \<Rightarrow> nat \<Rightarrow> nat" where
  "std_search self s i =
     (if i + length s \<le> length self
      then (if occurs_at self s i then i else std_search self s (Suc i)) else length self)"
  by pat_completeness auto
termination
  by (relation "measure (\<lambda>(self, s, i). Suc (length self) - i)") auto

declare std_search.simps [simp del]

fun find_end_loop :: "piece \<Rightarrow> piece \<Rightarrow> nat \<Rightarrow> nat \<Rightarrow> nat" where
  "find_end_loop self s lst 0 = (if occurs_at self s 0 then 0 else lst)"
| "find_end_loop self s lst (Suc i) =
     (if occurs_at self s (Suc i) then Suc i else find_end_loop self s lst i)"

definition std_find_end :: "piece \<Rightarrow> piece \<Rightarrow> nat \<Rightarrow> nat" where
  "std_find_end self s lst =
     (if s = [] \<or> lst < length s then lst else find_end_loop self s lst (lst - length s))"

definition find_piece :: "piece \<Rightarrow> piece \<Rightarrow> nat \<Rightarrow> nat" where
  "find_piece self s pos =
     (if pos > length self then npos
      else let xpos = std_search self s pos in
           if xpos + length s \<le> length self then xpos else npos)"

definition find_char :: "piece \<Rightarrow> char \<Rightarrow> nat \<Rightarrow> nat" where
  "find_char self c pos = (if pos \<ge> length self then npos else scan_up (\<lambda>d. d = c) self pos)"

definition rfind_piece :: "piece \<Rightarrow> piece \<Rightarrow> nat \<Rightarrow> nat" where
  "rfind_piece self s pos =
     (if length self < length s then npos
      else if s = [] then min (length self) pos
      else let lst = min (length self - length s) pos + length s;
               result = std_find_end self s lst
           in if result \<noteq> lst then result else npos)"

definition rfind_char :: "piece \<Rightarrow> char \<Rightarrow> nat \<Rightarrow> nat" where
  "rfind_char self c pos =
     (if length self = 0 then npos
      else scan_down (\<lambda>d. d = c) self (min pos (length self - 1)))"

text \<open>The table has one flag per \<open>unsigned char\<close>.\<close>

fun BuildLookupTable :: "piece \<Rightarrow> bool list \<Rightarrow> bool list" where
  "BuildLookupTable [] table = table"
| "BuildLookupTable (c # cs) table = BuildLookupTable cs (table[uc c := True])"

definition lookup_table :: "piece \<Rightarrow> bool list" where
  "lookup_table s = BuildLookupTable s (replicate 256 False)"

definition find_first_of :: "piece \<Rightarrow> piece \<Rightarrow> nat \<Rightarrow> nat" where
  "find_first_of self s pos =
     (if length self = 0 \<or> length s = 0 then npos
      else if length s = 1 then find_char self (s ! 0) pos
      else let lookup = lookup_table s in scan_up (\<lambda>c. lookup ! uc c) self pos)"

definition find_first_not_of_char :: "piece \<Rightarrow> char \<Rightarrow> nat \<Rightarrow> nat" where
  "find_first_not_of_char self c pos =
     (if length self = 0 then npos else scan_up (\<lambda>d. d \<noteq> c) self pos)"

definition find_first_not_of :: "piece \<Rightarrow> piece \<Rightarrow> nat \<Rightarrow> nat" where
  "find_first_not_of self s pos =
     (if length self = 0 then npos
      else if length s = 0 then 0
      else if length s = 1 then find_first_not_of_char self (s ! 0) pos
      else let lookup = lookup_table s in scan_up (\<lambda>c. \<not> lookup ! uc c) self pos)"

definition find_last_of :: "piece \<Rightarrow> piece \<Rightarrow> nat \<Rightarrow> nat" where
  "find_last_of self s pos =
     (if length self = 0 \<or> length s = 0 then npos
      else if length s = 1 then rfind_char self (s ! 0) pos
      else let lookup = lookup_table s in
           scan_down (\<lambda>c. lookup ! uc c) self (min pos (length self - 1)))"

definition find_last_not_of_char :: "piece \<Rightarrow> char \<Rightarrow> nat \<Rightarrow> nat" where
  "find_last_not_of_char self c pos =
     (if length self = 0 then npos
      else scan_down (\<lambda>d. d \<noteq> c) self (min pos (length self - 1)))"

definition find_last_not_of :: "piece \<Rightarrow> piece \<Rightarrow> nat \<Rightarrow> nat" where
  "find_last_not_of self s pos =
     (if length self = 0 then npos
      else let i = min pos (length self - 1) in
           if length s = 0 then i
           else if length s = 1 then find_last_not_of_char self (s ! 0) pos
           else let lookup = lookup_table s in scan_down (\<lambda>c. \<not> lookup ! uc c) self i)"

subsection \<open>Lemmas: comparison\<close>

lemma wordmemcmp_eq_0:
  "n \<le> length x \<Longrightarrow> n \<le> length y \<Longrightarrow> wordmemcmp x y n = 0 \<longleftrightarrow> take n x = take n y"
proof (induction x y n rule: wordmemcmp.induct)
  case (1 a p b q n)
  then show ?case by (cases rule: uc_cases [of a b]) auto
qed auto

lemma wordmemcmp_sign: "wordmemcmp y x n = - wordmemcmp x y n"
  by (induction x y n rule: wordmemcmp.induct) auto

lemma wordmemcmp_range: "wordmemcmp x y n \<in> {- 1, 0, 1}"
  by (induction x y n rule: wordmemcmp.induct) auto

lemma piece_eq_iff [simp]: "piece_eq x y \<longleftrightarrow> x = y"
  by (auto simp: piece_eq_def wordmemcmp_eq_0)

lemma starts_with_iff: "starts_with self x \<longleftrightarrow> take (length x) self = x"
proof
  assume *: "take (length x) self = x"
  then have "length x \<le> length self" by (metis length_take min.cobounded1)
  with * show "starts_with self x" by (simp add: starts_with_def wordmemcmp_eq_0)
qed (auto simp: starts_with_def wordmemcmp_eq_0)

lemma ends_with_iff: "ends_with self x \<longleftrightarrow> (\<exists>p. self = p @ x)"
proof
  assume "ends_with self x"
  then have "drop (length self - length x) self = x"
    by (auto simp: ends_with_def wordmemcmp_eq_0)
  then show "\<exists>p. self = p @ x" by (metis append_take_drop_id)
qed (auto simp: ends_with_def wordmemcmp_eq_0)

text \<open>Comparison is lexicographic on the unsigned bytes.\<close>

definition byte_less :: "(char \<times> char) set" where
  "byte_less = {(a, b). uc a < uc b}"

lemma compare_Cons:
  "compare (a # p) (b # q) = (if uc a < uc b then - 1 else if uc b < uc a then 1 else compare p q)"
  by (simp add: compare_def Let_def)

lemma compare_Nil [simp]:
  "compare [] x = (if x = [] then 0 else - 1)" "compare x [] = (if x = [] then 0 else 1)"
  by (simp_all add: compare_def)

lemma compare_neg_iff: "compare x y < 0 \<longleftrightarrow> (x, y) \<in> lexord byte_less"
proof (induction x arbitrary: y)
  case Nil
  then show ?case by (cases y) auto
next
  case (Cons a x)
  show ?case
  proof (cases y)
    case y: (Cons b z)
    from Cons show ?thesis
      by (cases rule: uc_cases [of a b]) (auto simp: y compare_Cons byte_less_def)
  qed simp
qed

lemma compare_swap: "compare y x = - compare x y"
  using wordmemcmp_sign [of x y] by (auto simp: compare_def Let_def)

lemma compare_eq_0: "compare x y = 0 \<longleftrightarrow> x = y"
proof (induction x arbitrary: y)
  case (Cons a x)
  show ?case
  proof (cases y)
    case y: (Cons b z)
    from Cons show ?thesis
      by (cases rule: uc_cases [of a b]) (auto simp: y compare_Cons)
  qed simp
qed auto

lemma piece_less_compare: "piece_less x y \<longleftrightarrow> compare x y < 0"
  using wordmemcmp_range [of x y "min (length x) (length y)"]
  by (auto simp: piece_less_def compare_def Let_def min_def split: if_splits)

lemma substr_take_drop: "substr s pos n = take n (drop pos s)"
  by (simp add: substr_def Let_def)

subsection \<open>Lemmas: searching\<close>

lemma length_BuildLookupTable [simp]: "length (BuildLookupTable s t) = length t"
  by (induction s t rule: BuildLookupTable.induct) auto

lemma BuildLookupTable_nth:
  "length t = 256 \<Longrightarrow> BuildLookupTable s t ! uc c = (t ! uc c \<or> c \<in> set s)"
  by (induction s t rule: BuildLookupTable.induct) (auto simp: nth_list_update)

lemma lookup_table_nth [simp]: "lookup_table s ! uc c \<longleftrightarrow> c \<in> set s"
  by (simp add: lookup_table_def BuildLookupTable_nth)

lemma length_1_set: "length s = 1 \<Longrightarrow> c \<in> set s \<longleftrightarrow> c = s ! 0"
  by (cases s) auto

lemma first_index_beyond: "length s \<le> i \<Longrightarrow> first_index P s i = npos"
  by (simp add: first_index_def)

lemma scan_down_clip:
  "s \<noteq> [] \<Longrightarrow> scan_down P s (min i (length s - 1)) = last_index P s i"
  by (simp add: scan_down_last_index last_index_clip [unfolded One_nat_def] min_less_iff_disj)

lemma find_char_first_index: "find_char self c pos = first_index (\<lambda>d. d = c) self pos"
  by (simp add: find_char_def scan_up_first_index first_index_beyond)

lemma rfind_char_last_index: "rfind_char self c pos = last_index (\<lambda>d. d = c) self pos"
  using scan_down_clip [of self] by (auto simp: rfind_char_def)

lemma first_index_True: "s \<noteq> [] \<Longrightarrow> first_index (\<lambda>_. True) s 0 = 0"
  by (simp add: first_index_def upt_conv_Cons del: upt_Suc)

lemma last_index_True: "s \<noteq> [] \<Longrightarrow> last_index (\<lambda>_. True) s i = min i (length s - 1)"
  by (cases s) (simp_all add: last_index_def min_def)

lemma find_first_of_eq: "find_first_of self s pos = first_index (\<lambda>c. c \<in> set s) self pos"
  by (cases "length s = 1")
     (auto simp: find_first_of_def find_char_first_index scan_up_first_index
       length_1_set [unfolded One_nat_def] first_index_def)

lemma find_last_of_eq: "find_last_of self s pos = last_index (\<lambda>c. c \<in> set s) self pos"
  by (cases "length s = 1")
     (auto simp: find_last_of_def rfind_char_last_index scan_down_clip [unfolded One_nat_def]
       length_1_set [unfolded One_nat_def] last_index_def)

lemma find_last_not_of_eq: "find_last_not_of self s pos = last_index (\<lambda>c. c \<notin> set s) self pos"
  by (cases "length s = 1")
     (auto simp: find_last_not_of_def find_last_not_of_char_def scan_down_clip [unfolded One_nat_def]
       length_1_set [unfolded One_nat_def] last_index_True Let_def)

lemma find_first_not_of_eq:
  "find_first_not_of self s pos =
     (if s = [] \<and> self \<noteq> [] then 0 else first_index (\<lambda>c. c \<notin> set s) self pos)"
  by (cases "length s = 1")
     (auto simp: find_first_not_of_def find_first_not_of_char_def scan_up_first_index
       length_1_set [unfolded One_nat_def])

lemmas char_set_search_eqs = find_first_of_eq find_last_of_eq find_last_not_of_eq find_first_not_of_eq

text \<open>The substring searches against all start positions, in increasing and decreasing order.\<close>

lemma occurs_at_fits: "occurs_at self s i \<Longrightarrow> s \<noteq> [] \<Longrightarrow> i + length s \<le> length self"
  by (cases "i \<le> length self") (auto simp: occurs_at_def min_def dest!: arg_cong [where f = length] split: if_splits)

lemma std_search_result:
  "i + length s \<le> length self \<or> s \<noteq> [] \<Longrightarrow>
   (if std_search self s i + length s \<le> length self then std_search self s i else npos)
     = head_or_npos (filter (occurs_at self s) [i..<Suc (length self) - length s])"
proof (induction self s i rule: std_search.induct)
  case (1 self s i)
  show ?case
  proof (cases "i + length s \<le> length self")
    case True
    then have "i < Suc (length self) - length s" by linarith
    moreover have "s \<noteq> []" if "\<not> occurs_at self s i" using that by (auto simp: occurs_at_def)
    ultimately show ?thesis
      using 1 True by (cases "occurs_at self s i")
         (auto simp: std_search.simps [of self s i] upt_conv_Cons split: if_splits)
  next
    case False
    with 1 show ?thesis by (simp add: std_search.simps [of self s i])
  qed
qed

lemma filter_upt_less:
  "filter (\<lambda>i. i < m \<and> P i) [a..<n] = filter P [a..<min m n]"
  by (induction n) (auto simp: min_def le_Suc_eq)

lemma find_end_loop_result:
  assumes "i < lst"
  shows "(if find_end_loop self s lst i \<noteq> lst then find_end_loop self s lst i else npos)
     = head_or_npos (filter (occurs_at self s) (rev [0..<Suc i]))"
  using assms by (induction i) auto

lemma rfind_piece_result:
  "rfind_piece self s pos = head_or_npos
     (filter (occurs_at self s) (rev [0..<min (Suc pos) (Suc (length self) - length s)]))"
proof (cases "s = [] \<or> length self < length s")
  case True
  then show ?thesis by (auto simp: rfind_piece_def occurs_at_def min_def)
next
  case False
  define i where "i = min (length self - length s) pos"
  have "Suc i = min (Suc pos) (Suc (length self) - length s)" using False by (auto simp: i_def)
  moreover have "rfind_piece self s pos =
      (if find_end_loop self s (i + length s) i \<noteq> i + length s
       then find_end_loop self s (i + length s) i else npos)"
    using False by (simp add: rfind_piece_def std_find_end_def Let_def i_def [symmetric])
  moreover have "\<dots> = head_or_npos (filter (occurs_at self s) (rev [0..<Suc i]))"
    using False by (intro find_end_loop_result) simp
  ultimately show ?thesis by (simp only:)
qed

subsection \<open>Properties\<close>

text \<open>The comparison operators of a piece are one total order: \<open>compare\<close> is negative exactly for
  lexicographically smaller contents (bytes unsigned), zero exactly for equal contents, antisymmetric,
  and \<open>==\<close>, \<open><\<close>, \<open><=\<close> agree with it.\<close>

theorem piece_order:
  "(compare x y < 0 \<longleftrightarrow> (x, y) \<in> lexord byte_less) \<and>
   (compare x y = 0 \<longleftrightarrow> x = y) \<and> compare y x = - compare x y \<and>
   piece_eq x y = (compare x y = 0) \<and> piece_less x y = (compare x y < 0) \<and>
   piece_le x y = (compare x y \<le> 0) \<and> piece_greater x y = (compare x y > 0)"
  using compare_neg_iff [of x y] compare_eq_0 [of x y] compare_swap [of y x]
  by (auto simp: piece_less_compare piece_greater_def piece_le_def)

text \<open>The table-driven character-set searches return what the plain definition says, the first or
  last index from \<open>pos\<close> whose character is (not) in the set and \<open>npos\<close> if there is none, for every
  \<open>pos\<close> including \<open>npos\<close>; the one exception is \<open>find_first_not_of\<close> with an empty set, which answers
  0 whatever \<open>pos\<close> is.\<close>

theorem char_set_searches:
  "find_first_of self s pos = first_index (\<lambda>c. c \<in> set s) self pos \<and>
   find_last_of self s pos = last_index (\<lambda>c. c \<in> set s) self pos \<and>
   find_last_not_of self s pos = last_index (\<lambda>c. c \<notin> set s) self pos \<and>
   find_first_not_of self s pos =
     (if s = [] \<and> self \<noteq> [] then 0 else first_index (\<lambda>c. c \<notin> set s) self pos)"
  by (simp only: char_set_search_eqs)

text \<open>\<open>find\<close> returns the first position at or after \<open>pos\<close> at which the argument occurs and
  \<open>rfind\<close> the last one at or before \<open>pos\<close>, \<open>npos\<close> when there is none (empty arguments and \<open>pos\<close>
  past the end included).\<close>

theorem substring_searches:
  "find_piece self s pos =
     head_or_npos (filter (\<lambda>i. i + length s \<le> length self \<and> occurs_at self s i)
       [pos..<Suc (length self)]) \<and>
   rfind_piece self s pos =
     head_or_npos (filter (\<lambda>i. i \<le> pos \<and> i + length s \<le> length self \<and> occurs_at self s i)
       (rev [0..<Suc (length self)]))"
proof (rule conjI)
  have bound: "filter (\<lambda>i. i + length s \<le> length self \<and> occurs_at self s i) [pos..<Suc (length self)]
      = filter (occurs_at self s) [pos..<Suc (length self) - length s]"
    using filter_upt_less [of "Suc (length self) - length s" "occurs_at self s" pos "Suc (length self)"]
    by (simp add: less_diff_conv less_Suc_eq_le del: upt_Suc)
  show "find_piece self s pos = head_or_npos (filter
      (\<lambda>i. i + length s \<le> length self \<and> occurs_at self s i) [pos..<Suc (length self)])"
    unfolding bound
    using std_search_result [of pos s self]
    by (cases "pos \<le> length self"; cases "s = []") (auto simp: find_piece_def Let_def simp del: upt_Suc)
next
  have bound: "filter (\<lambda>i. i \<le> pos \<and> i + length s \<le> length self \<and> occurs_at self s i)
        (rev [0..<Suc (length self)])
      = filter (occurs_at self s) (rev [0..<min (Suc pos) (Suc (length self) - length s)])"
    using filter_upt_less [of "min (Suc pos) (Suc (length self) - length s)" "occurs_at self s" 0
        "Suc (length self)"]
    by (simp add: less_diff_conv less_Suc_eq_le rev_filter [symmetric] conj_assoc min.absorb1
        min.coboundedI2 del: upt_Suc)
  show "rfind_piece self s pos = head_or_npos (filter (\<lambda>i. i \<le> pos \<and> i + length s \<le> length self \<and>
      occurs_at self s i) (rev [0..<Suc (length self)]))"
    unfolding bound by (rule rfind_piece_result)
qed

text \<open>\<open>std::string::find\<close>: the first occurrence at or after \<open>pos\<close>.\<close>

definition std_find :: "string \<Rightarrow> string \<Rightarrow> nat \<Rightarrow> nat" where
  "std_find str s pos =
     (case List.find (occurs_at str s) [pos..<Suc (length str)] of None \<Rightarrow> npos | Some i \<Rightarrow> i)"

end
