(* ===== verification/String_Util.thy ===== *)
theory String_Util
  imports Ascii_Ctype String_Piece
begin

text \<open>
  \<^verbatim>\<open>base/string_util.h\<close> and \<^verbatim>\<open>.cc\<close>: ASCII case folding, case-insensitive comparison, prefix and
  suffix tests and the two trimming routines, with the \<open>size_t\<close> wrap-around they rely on when a
  search answers \<open>npos\<close>.
\<close>

unbundle bit_operations_syntax

subsection \<open>Case folding and comparison\<close>

definition ToLowerASCII :: "char \<Rightarrow> char" where
  "ToLowerASCII c = (if 65 \<le> sc c \<and> sc c \<le> 90 then chr_of (uc c + 32) else c)"

definition CaseInsensitiveCompareASCII :: "char \<Rightarrow> char \<Rightarrow> bool" where
  "CaseInsensitiveCompareASCII x y = (ToLowerASCII x = ToLowerASCII y)"

text \<open>The loop over \<open>i\<close>, on the characters from \<open>i\<close> on (the sizes are equal).\<close>

fun lower_equals_loop :: "piece \<Rightarrow> piece \<Rightarrow> bool" where
  "lower_equals_loop (c # str) (l # lower) =
     (if ToLowerASCII c \<noteq> l then False else lower_equals_loop str lower)"
| "lower_equals_loop _ _ = True"

definition LowerCaseEqualsASCII :: "piece \<Rightarrow> piece \<Rightarrow> bool" where
  "LowerCaseEqualsASCII str lowercase_ascii =
     (if length str \<noteq> length lowercase_ascii then False
      else lower_equals_loop str lowercase_ascii)"

text \<open>The characters are compared as the signed \<open>char\<close> of the platform.\<close>

fun CompareCaseInsensitiveASCII :: "piece \<Rightarrow> piece \<Rightarrow> int" where
  "CompareCaseInsensitiveASCII (a # as) (b # bs) =
     (if sc (ToLowerASCII a) < sc (ToLowerASCII b) then - 1
      else if sc (ToLowerASCII b) < sc (ToLowerASCII a) then 1
      else CompareCaseInsensitiveASCII as bs)"
| "CompareCaseInsensitiveASCII a b =
     (if length a = length b then 0 else if length a < length b then - 1 else 1)"

datatype CompareCase = SENSITIVE | INSENSITIVE_ASCII

definition StartsWith :: "piece \<Rightarrow> piece \<Rightarrow> CompareCase \<Rightarrow> bool" where
  "StartsWith str search_for case_sensitivity =
     (if length search_for > length str then False
      else let source = substr str 0 (length search_for) in
           case case_sensitivity of
             SENSITIVE \<Rightarrow> piece_eq source search_for
           | INSENSITIVE_ASCII \<Rightarrow> list_all2 CaseInsensitiveCompareASCII search_for source)"

definition EndsWith :: "piece \<Rightarrow> piece \<Rightarrow> CompareCase \<Rightarrow> bool" where
  "EndsWith str search_for case_sensitivity =
     (if length search_for > length str then False
      else let source = substr str (length str - length search_for) (length search_for) in
           case case_sensitivity of
             SENSITIVE \<Rightarrow> piece_eq source search_for
           | INSENSITIVE_ASCII \<Rightarrow> list_all2 CaseInsensitiveCompareASCII source search_for)"

text \<open>\<open>WriteInto\<close> resizes the string to one less than the asked length; new characters are NUL.\<close>

definition WriteInto :: "string \<Rightarrow> nat \<Rightarrow> string option" where
  "WriteInto str length_with_null =
     (if length_with_null > 1
      then let n = length_with_null - 1 in
           Some (take n str @ replicate (n - length str) (chr_of 0))
      else None)"

subsection \<open>Trimming\<close>

definition TRIM_NONE :: nat where "TRIM_NONE = 0"

definition TRIM_LEADING :: nat where "TRIM_LEADING = 1"

definition TRIM_TRAILING :: nat where "TRIM_TRAILING = 2"

definition TRIM_ALL :: nat where "TRIM_ALL = (TRIM_LEADING OR TRIM_TRAILING)"

text \<open>The output string and the returned flags.\<close>

definition TrimStringT :: "string \<Rightarrow> piece \<Rightarrow> nat \<Rightarrow> string \<times> nat" where
  "TrimStringT input trim_chars positions =
     (let last_char = size_sub (length input) 1;
          first_good_char = (if positions AND TRIM_LEADING \<noteq> 0
            then find_first_not_of input trim_chars 0 else 0);
          last_good_char = (if positions AND TRIM_TRAILING \<noteq> 0
            then find_last_not_of input trim_chars npos else last_char)
      in if input = [] \<or> first_good_char = npos \<or> last_good_char = npos
         then ([], if input = [] then TRIM_NONE else positions)
         else (substr input first_good_char (size_add (size_sub last_good_char first_good_char) 1),
               (if first_good_char = 0 then TRIM_NONE else TRIM_LEADING) OR
               (if last_good_char = last_char then TRIM_NONE else TRIM_TRAILING)))"

definition TrimString :: "string \<Rightarrow> piece \<Rightarrow> string \<times> bool" where
  "TrimString input trim_chars =
     (let (output, flags) = TrimStringT input trim_chars TRIM_ALL in (output, flags \<noteq> TRIM_NONE))"

definition TrimStringPieceT :: "piece \<Rightarrow> piece \<Rightarrow> nat \<Rightarrow> piece" where
  "TrimStringPieceT input trim_chars positions =
     (let begin = (if positions AND TRIM_LEADING \<noteq> 0
            then find_first_not_of input trim_chars 0 else 0);
          end = (if positions AND TRIM_TRAILING \<noteq> 0
            then size_add (find_last_not_of input trim_chars npos) 1 else length input)
      in substr input begin (size_sub end begin))"

subsection \<open>Lemmas: case folding\<close>

lemma ToLowerASCII_table: "ToLowerASCII c = ascii_tolower c"
proof (rule uc_inject [THEN iffD1])
  show "uc (ToLowerASCII c) = uc (ascii_tolower c)"
    using uc_less_256 [of c]
    by (auto simp: ToLowerASCII_def uc_tolower sc_def simp del: uc_less_256)
qed

lemma lower_equals_loop_iff:
  "length s = length t \<Longrightarrow> lower_equals_loop s t \<longleftrightarrow> map ToLowerASCII s = t"
  by (induction s t rule: list_induct2) auto

lemma LowerCaseEqualsASCII_iff: "LowerCaseEqualsASCII s t \<longleftrightarrow> map ToLowerASCII s = t"
  by (auto simp: LowerCaseEqualsASCII_def lower_equals_loop_iff)

lemma CompareCI_swap: "CompareCaseInsensitiveASCII b a = - CompareCaseInsensitiveASCII a b"
  by (induction a b rule: CompareCaseInsensitiveASCII.induct) auto

lemma CompareCI_eq_0:
  "CompareCaseInsensitiveASCII a b = 0 \<longleftrightarrow> map ToLowerASCII a = map ToLowerASCII b"
proof (induction a b rule: CompareCaseInsensitiveASCII.induct)
  case (1 a as b bs)
  then show ?case
    by (cases "sc (ToLowerASCII a) = sc (ToLowerASCII b)") auto
qed auto

definition schar_less :: "(char \<times> char) set" where
  "schar_less = {(a, b). sc a < sc b}"

lemma CompareCI_neg:
  "CompareCaseInsensitiveASCII a b < 0 \<longleftrightarrow>
     (map ToLowerASCII a, map ToLowerASCII b) \<in> lexord schar_less"
proof (induction a b rule: CompareCaseInsensitiveASCII.induct)
  case (1 a as b bs)
  then show ?case
    by (cases "sc (ToLowerASCII a) = sc (ToLowerASCII b)") (auto simp: schar_less_def)
qed (auto simp: neq_Nil_conv [symmetric])

lemma list_all2_lower:
  "list_all2 CaseInsensitiveCompareASCII s t \<longleftrightarrow> map ToLowerASCII s = map ToLowerASCII t"
  by (auto simp: CaseInsensitiveCompareASCII_def list_all2_conv_all_nth list_eq_iff_nth_eq)

lemma StartsWith_fold:
  "StartsWith a b INSENSITIVE_ASCII \<longleftrightarrow> take (length b) (map ToLowerASCII a) = map ToLowerASCII b"
proof (cases "length b > length a")
  case True
  then show ?thesis by (auto simp: StartsWith_def dest!: arg_cong [where f = length])
next
  case False
  then show ?thesis
    by (auto simp: StartsWith_def list_all2_lower substr_take_drop take_map)
qed

lemma EndsWith_fold:
  "EndsWith a b INSENSITIVE_ASCII \<longleftrightarrow> (\<exists>p. map ToLowerASCII a = p @ map ToLowerASCII b)"
proof (cases "length b > length a")
  case True
  then show ?thesis by (auto simp: EndsWith_def dest!: arg_cong [where f = length])
next
  case False
  let ?n = "length a - length b"
  have "map ToLowerASCII (drop ?n a) = map ToLowerASCII b \<longleftrightarrow>
      (\<exists>p. map ToLowerASCII a = p @ map ToLowerASCII b)"
  proof
    assume "map ToLowerASCII (drop ?n a) = map ToLowerASCII b"
    then show "\<exists>p. map ToLowerASCII a = p @ map ToLowerASCII b"
      by (metis append_take_drop_id drop_map)
  next
    assume "\<exists>p. map ToLowerASCII a = p @ map ToLowerASCII b"
    then obtain p where p: "map ToLowerASCII a = p @ map ToLowerASCII b" ..
    then have "length a = length p + length b" by (metis length_append length_map)
    then have "length p = ?n" by simp
    with p show "map ToLowerASCII (drop ?n a) = map ToLowerASCII b"
      by (simp add: drop_map [symmetric])
  qed
  with False show ?thesis
    by (simp add: EndsWith_def list_all2_lower substr_take_drop)
qed

subsection \<open>Lemmas: trimming\<close>

lemma takeWhile_length_less:
  "\<not> (\<forall>c\<in>set s. P c) \<Longrightarrow> length (takeWhile P s) < length s"
  by (induction s) auto

lemma first_index_takeWhile:
  "first_index (\<lambda>c. \<not> P c) s 0 =
     (if \<forall>c\<in>set s. P c then npos else length (takeWhile P s))"
proof -
  have gen: "first_index (\<lambda>c. \<not> P c) (p @ s) (length p) =
      (if \<forall>c\<in>set s. P c then npos else length p + length (takeWhile P s))" for p
  proof (induction s arbitrary: p)
    case (Cons c s)
    have "first_index (\<lambda>c. \<not> P c) (p @ c # s) (length p) =
        (if \<not> P c then length p else first_index (\<lambda>c. \<not> P c) ((p @ [c]) @ s) (length (p @ [c])))"
      by (simp add: first_index_def upt_conv_Cons del: upt_Suc)
    then show ?case using Cons [of "p @ [c]"] by auto
  qed (simp add: first_index_def)
  from gen [of "[]"] show ?thesis by simp
qed

lemma last_index_takeWhile:
  assumes "length s < size_max"
  shows "last_index (\<lambda>c. \<not> P c) s npos =
     (if \<forall>c\<in>set s. P c then npos else length s - 1 - length (takeWhile P (rev s)))"
proof -
  have all: "last_index Q t npos = head_or_npos (filter (\<lambda>j. Q (t ! j)) (rev [0..<length t]))"
    if "length t < size_max" for Q and t :: "'a list"
    using that by (simp add: last_index_def npos_def min_def)
  have "head_or_npos (filter (\<lambda>j. \<not> P (s ! j)) (rev [0..<length s])) =
      (if \<forall>c\<in>set s. P c then npos else length s - 1 - length (takeWhile P (rev s)))"
  proof (induction s rule: rev_induct)
    case (snoc c s)
    have "filter (\<lambda>j. \<not> P ((s @ [c]) ! j)) (rev [0..<length s]) =
        filter (\<lambda>j. \<not> P (s ! j)) (rev [0..<length s])"
      by (rule filter_cong) (auto simp: nth_append)
    with snoc show ?case by auto
  qed simp
  with all [OF assms] show ?thesis by simp
qed

lemma searches_from_ends:
  assumes "length input < size_max"
  shows "find_first_not_of input chars 0 =
     (if \<forall>c\<in>set input. c \<in> set chars then npos else length (takeWhile (\<lambda>c. c \<in> set chars) input))"
   and "find_last_not_of input chars npos =
     (if \<forall>c\<in>set input. c \<in> set chars then npos
      else length input - 1 - length (takeWhile (\<lambda>c. c \<in> set chars) (rev input)))"
  using last_index_takeWhile [OF assms, of "\<lambda>c. c \<in> set chars"]
    first_index_takeWhile [of "\<lambda>c. c \<in> set chars" input]
  by (cases input; auto simp: find_first_not_of_eq find_last_not_of_eq)+

text \<open>What trimming means: drop matching characters at the chosen ends.\<close>

definition trim_spec :: "piece \<Rightarrow> nat \<Rightarrow> string \<Rightarrow> string" where
  "trim_spec chars positions s =
     (let s = (if positions AND TRIM_LEADING \<noteq> 0 then dropWhile (\<lambda>c. c \<in> set chars) s else s) in
      if positions AND TRIM_TRAILING \<noteq> 0 then rev (dropWhile (\<lambda>c. c \<in> set chars) (rev s)) else s)"

lemma takeWhile_both_ends:
  assumes "\<not> (\<forall>c\<in>set s. P c)"
  shows "length (takeWhile P s) + length (takeWhile P (rev s)) < length s"
    and "takeWhile P (rev (drop (length (takeWhile P s)) s)) = takeWhile P (rev s)"
proof -
  let ?l = "length (takeWhile P s)"
  have "\<exists>c\<in>set (drop ?l s). \<not> P c"
    using assms hd_dropWhile [of P s] hd_in_set [of "dropWhile P s"]
    unfolding dropWhile_eq_drop [symmetric] by (metis dropWhile_eq_Nil_conv)
  then obtain c where c: "c \<in> set (rev (drop ?l s))" "\<not> P c" by auto
  have "rev s = rev (drop ?l s) @ rev (take ?l s)"
    by (simp add: rev_append [symmetric] del: rev_append)
  then show eq: "takeWhile P (rev (drop ?l s)) = takeWhile P (rev s)"
    using takeWhile_append1 [of c "rev (drop ?l s)" P "rev (take ?l s)"] c by simp
  have "length (takeWhile P (rev (drop ?l s))) < length (rev (drop ?l s))"
    using c by (intro takeWhile_length_less) auto
  then show "?l + length (takeWhile P (rev s)) < length s" by (simp add: eq)
qed

lemma rev_dropWhile_rev: "rev (dropWhile P (rev s)) = take (length s - length (takeWhile P (rev s))) s"
  by (simp add: dropWhile_eq_drop rev_drop)

lemma trim_spec_take_drop:
  assumes "\<not> (\<forall>c\<in>set s. c \<in> set chars)"
    and "l = (if positions AND TRIM_LEADING \<noteq> 0 then length (takeWhile (\<lambda>c. c \<in> set chars) s) else 0)"
    and "t = (if positions AND TRIM_TRAILING \<noteq> 0
              then length (takeWhile (\<lambda>c. c \<in> set chars) (rev s)) else 0)"
  shows "trim_spec chars positions s = take (length s - l - t) (drop l s)"
  using takeWhile_both_ends [OF assms(1)] assms(2,3)
  by (simp add: trim_spec_def rev_dropWhile_rev)
     (simp add: dropWhile_eq_drop)

lemma trim_spec_all:
  "\<forall>c\<in>set s. c \<in> set chars \<Longrightarrow> positions AND TRIM_LEADING \<noteq> 0 \<or> positions AND TRIM_TRAILING \<noteq> 0
    \<Longrightarrow> trim_spec chars positions s = []"
  by (auto simp: trim_spec_def dest: set_dropWhileD)

text \<open>The two cut points the routines compute, when something is left.\<close>

definition cut_front :: "piece \<Rightarrow> nat \<Rightarrow> string \<Rightarrow> nat" where
  "cut_front chars positions s =
     (if positions AND TRIM_LEADING \<noteq> 0 then length (takeWhile (\<lambda>c. c \<in> set chars) s) else 0)"

definition cut_back :: "piece \<Rightarrow> nat \<Rightarrow> string \<Rightarrow> nat" where
  "cut_back chars positions s =
     (if positions AND TRIM_TRAILING \<noteq> 0 then length (takeWhile (\<lambda>c. c \<in> set chars) (rev s)) else 0)"

definition all_trimmed :: "piece \<Rightarrow> nat \<Rightarrow> string \<Rightarrow> bool" where
  "all_trimmed chars positions s \<longleftrightarrow> s = [] \<or>
     (\<forall>c\<in>set s. c \<in> set chars) \<and> (positions AND TRIM_LEADING \<noteq> 0 \<or> positions AND TRIM_TRAILING \<noteq> 0)"

lemma cut_less:
  "\<not> all_trimmed chars positions s \<Longrightarrow> cut_front chars positions s + cut_back chars positions s < length s"
  using takeWhile_both_ends(1) [of s "\<lambda>c. c \<in> set chars"]
  by (cases "\<forall>c\<in>set s. c \<in> set chars") (auto simp: all_trimmed_def cut_front_def cut_back_def)

lemma trim_spec_cut:
  "trim_spec chars positions s =
     (if all_trimmed chars positions s then []
      else take (length s - cut_front chars positions s - cut_back chars positions s)
             (drop (cut_front chars positions s) s))"
proof (cases "\<forall>c\<in>set s. c \<in> set chars")
  case True
  then show ?thesis
    using trim_spec_all [OF True, of positions]
    by (auto simp: all_trimmed_def) (auto simp: trim_spec_def cut_front_def cut_back_def)
next
  case False
  then show ?thesis
    using trim_spec_take_drop [OF False cut_front_def cut_back_def]
    by (auto simp: all_trimmed_def)
qed

lemma trim_searches:
  assumes "length s < size_max" and "\<not> all_trimmed chars positions s"
  shows "(if positions AND TRIM_LEADING \<noteq> 0 then find_first_not_of s chars 0 else 0)
      = cut_front chars positions s"
    and "(if positions AND TRIM_TRAILING \<noteq> 0 then find_last_not_of s chars npos
      else length s - 1) = length s - 1 - cut_back chars positions s"
  using searches_from_ends [OF assms(1), of chars] assms(2)
  by (auto simp: cut_front_def cut_back_def all_trimmed_def)

lemma trim_searches_all:
  assumes "length s < size_max" and "all_trimmed chars positions s" and "s \<noteq> []"
  shows "positions AND TRIM_LEADING \<noteq> 0 \<and> find_first_not_of s chars 0 = npos \<or>
    positions AND TRIM_TRAILING \<noteq> 0 \<and> find_last_not_of s chars npos = npos"
  using searches_from_ends [OF assms(1), of chars] assms(2,3)
  by (auto simp: all_trimmed_def)

lemma TrimStringT_spec:
  assumes "length s < size_max"
  shows "fst (TrimStringT s chars positions) = trim_spec chars positions s"
    and "s \<noteq> [] \<Longrightarrow> snd (TrimStringT s chars positions) =
      (if all_trimmed chars positions s then positions
       else (if cut_front chars positions s = 0 then TRIM_NONE else TRIM_LEADING) OR
            (if cut_back chars positions s = 0 then TRIM_NONE else TRIM_TRAILING))"
proof -
  let ?l = "cut_front chars positions s" and ?t = "cut_back chars positions s"
  have len: "size_sub (length s) 1 = length s - 1" if "s \<noteq> []"
    using that assms by (simp add: size_sub_exact Suc_le_eq)
  have "fst (TrimStringT s chars positions) = trim_spec chars positions s \<and>
    (s \<noteq> [] \<longrightarrow> snd (TrimStringT s chars positions) =
      (if all_trimmed chars positions s then positions
       else (if ?l = 0 then TRIM_NONE else TRIM_LEADING) OR (if ?t = 0 then TRIM_NONE else TRIM_TRAILING)))"
  proof (cases "all_trimmed chars positions s")
    case True
    then show ?thesis
      using trim_searches_all [OF assms True]
      by (cases "s = []") (auto simp: TrimStringT_def Let_def trim_spec_cut)
  next
    case False
    have lt: "?l + ?t < length s" by (rule cut_less [OF False])
    then have ne: "s \<noteq> []" by auto
    have "size_add (size_sub (length s - 1 - ?t) ?l) 1 = length s - ?l - ?t"
      using lt assms by (simp add: size_sub_exact size_add_exact)
    moreover have "?l \<noteq> npos" "length s - 1 - ?t \<noteq> npos"
      using lt assms by (auto simp: npos_def)
    moreover have "length s - 1 - ?t = length s - 1 \<longleftrightarrow> ?t = 0"
      using lt by auto
    ultimately show ?thesis
      using ne lt False
      by (simp only: TrimStringT_def Let_def len [OF ne] trim_searches [OF assms False] trim_spec_cut)
         (simp add: substr_take_drop)
  qed
  then show "fst (TrimStringT s chars positions) = trim_spec chars positions s"
    and "s \<noteq> [] \<Longrightarrow> snd (TrimStringT s chars positions) =
      (if all_trimmed chars positions s then positions
       else (if ?l = 0 then TRIM_NONE else TRIM_LEADING) OR (if ?t = 0 then TRIM_NONE else TRIM_TRAILING))"
    by blast+
qed

lemma TrimStringPieceT_spec:
  assumes "length s < size_max"
  shows "TrimStringPieceT s chars positions = trim_spec chars positions s"
proof (cases "all_trimmed chars positions s")
  case True
  show ?thesis
  proof (cases "s = []")
    case False
    have "npos > length s \<or> npos = length s" using assms by (auto simp: npos_def)
    with trim_searches_all [OF assms True False] searches_from_ends [OF assms, of chars] True False
    show ?thesis
      by (auto simp: TrimStringPieceT_def Let_def trim_spec_cut substr_take_drop all_trimmed_def)
  qed (auto simp: TrimStringPieceT_def trim_spec_def Let_def substr_take_drop)
next
  case False
  let ?l = "cut_front chars positions s" and ?t = "cut_back chars positions s"
  have lt: "?l + ?t < length s" by (rule cut_less [OF False])
  then have end_eq: "(if positions AND TRIM_TRAILING \<noteq> 0 then size_add (find_last_not_of s chars npos) 1
      else length s) = length s - ?t"
    using trim_searches(2) [OF assms False] assms
    by (auto simp: size_add_exact cut_back_def split: if_splits)
  have "size_sub (length s - ?t) ?l = length s - ?l - ?t"
    using lt assms by (simp add: size_sub_exact)
  with lt show ?thesis
    unfolding TrimStringPieceT_def Let_def trim_searches(1) [OF assms False] end_eq trim_spec_cut
    using False by (simp add: substr_take_drop)
qed

subsection \<open>Properties\<close>

text \<open>Both trimming routines remove exactly the matching characters at the chosen ends, for every
  combination of flags, also when nothing is left (where the search answers \<open>npos\<close> and the piece
  version relies on \<open>npos + 1 = 0\<close>), and \<open>TrimString\<close> returns whether it changed the string.\<close>

theorem trim_correct:
  assumes "length input < size_max"
  shows "fst (TrimStringT input chars positions) = trim_spec chars positions input \<and>
    TrimStringPieceT input chars positions = trim_spec chars positions input \<and>
    TrimString input chars =
      (trim_spec chars TRIM_ALL input, trim_spec chars TRIM_ALL input \<noteq> input)"
proof -
  have "snd (TrimString input chars) = (trim_spec chars TRIM_ALL input \<noteq> input)"
  proof (cases "input = []")
    case True
    then show ?thesis by (simp add: TrimString_def TrimStringT_def trim_spec_def TRIM_NONE_def)
  next
    case False
    then show ?thesis
      using TrimStringT_spec(2) [OF assms False, of chars TRIM_ALL] cut_less [of chars TRIM_ALL input]
      by (auto simp: TrimString_def split_beta trim_spec_cut TRIM_ALL_def TRIM_NONE_def
          TRIM_LEADING_def TRIM_TRAILING_def dest: arg_cong [where f = length])
  qed
  moreover have "fst (TrimString input chars) = trim_spec chars TRIM_ALL input"
    using TrimStringT_spec(1) [OF assms] by (simp add: TrimString_def split_beta)
  ultimately show ?thesis
    using TrimStringT_spec(1) [OF assms] TrimStringPieceT_spec [OF assms] by (simp add: prod_eq_iff)
qed

theorem trim_correct_witness:
  "TrimString ''  ab '' '' '' = (''ab'', True)"
proof -
  have "trim_spec '' '' TRIM_ALL ''  ab '' = ''ab''"
    by (simp add: trim_spec_def TRIM_ALL_def TRIM_LEADING_def TRIM_TRAILING_def)
  then show ?thesis
    using trim_correct [of "''  ab ''" "'' ''" TRIM_ALL] by (simp add: size_max_def)
qed

text \<open>Case-insensitive comparison is a total order on the case-folded strings (signed character
  codes, like the platform's \<open>char\<close>), zero exactly when the folded strings are equal, and the prefix,
  suffix and equality tests agree with case folding; \<open>ToLowerASCII\<close> is the folding of the table in
  \<^verbatim>\<open>ascii_ctype.cc\<close>.\<close>

theorem case_insensitive_order:
  "(CompareCaseInsensitiveASCII a b < 0 \<longleftrightarrow>
      (map ToLowerASCII a, map ToLowerASCII b) \<in> lexord schar_less) \<and>
   (CompareCaseInsensitiveASCII a b = 0 \<longleftrightarrow> map ToLowerASCII a = map ToLowerASCII b) \<and>
   CompareCaseInsensitiveASCII b a = - CompareCaseInsensitiveASCII a b \<and>
   StartsWith a b INSENSITIVE_ASCII = (take (length b) (map ToLowerASCII a) = map ToLowerASCII b) \<and>
   EndsWith a b INSENSITIVE_ASCII = (\<exists>p. map ToLowerASCII a = p @ map ToLowerASCII b) \<and>
   LowerCaseEqualsASCII a b = (map ToLowerASCII a = b) \<and> ToLowerASCII = ascii_tolower"
  by (intro conjI ext)
     (simp_all add: CompareCI_neg CompareCI_eq_0 CompareCI_swap [of b a] ToLowerASCII_table
       StartsWith_fold EndsWith_fold LowerCaseEqualsASCII_iff)

end
