(* ===== verification/String_Encode.thy ===== *)
theory String_Encode
  imports Ascii_Ctype
begin

text \<open>
  \<^verbatim>\<open>base/string_encode.h\<close> and \<^verbatim>\<open>.cc\<close>: the UTF-8 coder of one code point and the hexadecimal coder
  of byte strings, each with its buffer-size checks, and their round trips. A function that fills a
  caller's buffer returns the bytes it wrote; their number is its C++ return value. Lengths are those
  of objects in memory, so three times a length does not wrap.
\<close>

unbundle bit_operations_syntax

subsection \<open>UTF-8\<close>

definition UTF8Encode :: "nat \<Rightarrow> u64 \<Rightarrow> byte list" where
  "UTF8Encode buf_len value =
     (if value \<le> 0x7F \<and> buf_len \<ge> 1 then [ucast value]
      else if value \<le> 0x7FF \<and> buf_len \<ge> 2
      then [0xC0 OR ucast (drop_bit 6 value), 0x80 OR ucast (value AND 0x3F)]
      else if value \<le> 0xFFFF \<and> buf_len \<ge> 3
      then [0xE0 OR ucast (drop_bit 12 value), 0x80 OR ucast (drop_bit 6 value AND 0x3F),
            0x80 OR ucast (value AND 0x3F)]
      else if value \<le> 0x1FFFFF \<and> buf_len \<ge> 4
      then [0xF0 OR ucast (drop_bit 18 value), 0x80 OR ucast (drop_bit 12 value AND 0x3F),
            0x80 OR ucast (drop_bit 6 value AND 0x3F), 0x80 OR ucast (value AND 0x3F)]
      else [])"

text \<open>\<open>Some (n, v)\<close>: \<open>n\<close> is returned and \<open>*value\<close> is \<open>v\<close> afterwards (unchanged if \<open>n = 0\<close>).
  The first byte is read before \<open>src_len\<close> is looked at; \<open>None\<close> is that read on an empty source.\<close>

definition UTF8Decode :: "byte list \<Rightarrow> u64 \<Rightarrow> (nat \<times> u64) option" where
  "UTF8Decode s value =
     (if s = [] then None
      else if s ! 0 AND 0x80 = 0 then Some (1, ucast (s ! 0))
      else if length s < 2 \<or> s ! 1 AND 0xC0 \<noteq> 0x80 then Some (0, value)
      else let value16 = ucast (s ! 1 AND 0x3F) in
      if s ! 0 AND 0xE0 = 0xC0 then Some (2, push_bit 6 (ucast (s ! 0 AND 0x1F)) OR value16)
      else if length s < 3 \<or> s ! 2 AND 0xC0 \<noteq> 0x80 then Some (0, value)
      else let value16 = push_bit 6 value16 OR ucast (s ! 2 AND 0x3F) in
      if s ! 0 AND 0xF0 = 0xE0 then Some (3, push_bit 12 (ucast (s ! 0 AND 0x0F)) OR value16)
      else if length s < 4 \<or> s ! 3 AND 0xC0 \<noteq> 0x80 then Some (0, value)
      else let value16 = push_bit 6 value16 OR ucast (s ! 3 AND 0x3F) in
      if s ! 0 AND 0xF8 = 0xF0 then Some (4, push_bit 18 (ucast (s ! 0 AND 0x07)) OR value16)
      else Some (0, value))"

subsection \<open>Hexadecimal\<close>

definition kHex :: string where "kHex = ''0123456789ABCDEF''"

text \<open>The one-character coders; \<open>None\<close> is the failed DCHECK of the first, \<open>false\<close> of the second.\<close>

definition hex_encode_digit :: "nat \<Rightarrow> char option" where
  "hex_encode_digit v = (if v < 16 then Some (if v < 16 then kHex ! v else CHR ''!'') else None)"

definition hex_decode_digit :: "char \<Rightarrow> nat option" where
  "hex_decode_digit ch =
     (if 48 \<le> sc ch \<and> sc ch \<le> 57 then Some (nat (sc ch - 48))
      else if 65 \<le> sc ch \<and> sc ch \<le> 90 then Some (nat (sc ch - 65 + 10))
      else if 97 \<le> sc ch \<and> sc ch \<le> 122 then Some (nat (sc ch - 97 + 10))
      else None)"

text \<open>The loops, on the characters from \<open>src_pos\<close> on; delimiter NUL means none.\<close>

fun hex_encode_loop :: "char \<Rightarrow> string \<Rightarrow> string option" where
  "hex_encode_loop delimiter [] = Some []"
| "hex_encode_loop delimiter (ch # src) =
     (case hex_encode_digit (drop_bit 4 (uc ch) AND 0xF) of None \<Rightarrow> None
      | Some a \<Rightarrow> case hex_encode_digit (uc ch AND 0xF) of None \<Rightarrow> None
      | Some b \<Rightarrow> case hex_encode_loop delimiter src of None \<Rightarrow> None
      | Some rest \<Rightarrow>
          Some (a # b # (if uc delimiter \<noteq> 0 \<and> src \<noteq> [] then [delimiter] else []) @ rest))"

definition HexEncodeWithDelimiter_buf :: "nat \<Rightarrow> string \<Rightarrow> char \<Rightarrow> string option" where
  "HexEncodeWithDelimiter_buf buf_len src delimiter =
     (if buf_len = 0 then Some []
      else let needed = (if uc delimiter \<noteq> 0 then length src * 3 else length src * 2 + 1) in
           if buf_len < needed then Some [] else hex_encode_loop delimiter src)"

definition HexEncodeWithDelimiter :: "string \<Rightarrow> char \<Rightarrow> string option" where
  "HexEncodeWithDelimiter src delimiter =
     (case HexEncodeWithDelimiter_buf (length src * 3) src delimiter of None \<Rightarrow> None
      | Some t \<Rightarrow> if length src = 0 \<or> length t > 0 then Some t else None)"

definition HexEncode :: "string \<Rightarrow> string option" where
  "HexEncode str = HexEncodeWithDelimiter str (chr_of 0)"

fun hex_decode_loop :: "char \<Rightarrow> string \<Rightarrow> string option" where
  "hex_decode_loop delimiter [] = Some []"
| "hex_decode_loop delimiter [c] = None"
| "hex_decode_loop delimiter (c1 # c2 # src) =
     (case hex_decode_digit c1 of None \<Rightarrow> None
      | Some h1 \<Rightarrow> case hex_decode_digit c2 of None \<Rightarrow> None
      | Some h2 \<Rightarrow>
          let out = chr_of ((push_bit 4 h1 OR h2) mod 256) in
          if uc delimiter \<noteq> 0 \<and> length src > 1
          then if hd src \<noteq> delimiter then None
               else map_option ((#) out) (hex_decode_loop delimiter (tl src))
          else map_option ((#) out) (hex_decode_loop delimiter src))"

definition HexDecodeWithDelimiter_buf :: "nat \<Rightarrow> string \<Rightarrow> char \<Rightarrow> string" where
  "HexDecodeWithDelimiter_buf buf_len src delimiter =
     (if buf_len = 0 then []
      else let needed = (if uc delimiter \<noteq> 0 then (length src + 1) div 3 else length src div 2) in
           if buf_len < needed then []
           else case hex_decode_loop delimiter src of None \<Rightarrow> [] | Some out \<Rightarrow> out)"

definition HexDecode :: "string \<Rightarrow> string option" where
  "HexDecode src =
     (if length src = 0 then Some []
      else let out = HexDecodeWithDelimiter_buf (length src div 2) src (chr_of 0) in
           if length out > 0 then Some out else None)"

subsection \<open>Lemmas: hexadecimal\<close>

lemma digit_table:
  "map (\<lambda>v. hex_decode_digit (kHex ! v)) [0..<16] = map Some [0..<16]"
  by code_simp

lemma hex_digit_roundtrip:
  assumes "v < 16"
  obtains c where "hex_encode_digit v = Some c" "hex_decode_digit c = Some v"
proof
  have "map (\<lambda>v. hex_decode_digit (kHex ! v)) [0..<16] ! v = map Some [0..<16] ! v"
    by (simp only: digit_table)
  with assms show "hex_decode_digit (kHex ! v) = Some v" by simp
  from assms show "hex_encode_digit v = Some (kHex ! v)" by (simp add: hex_encode_digit_def)
qed

lemma nibble_mask: "n AND 0xF = n mod (16::nat)"
  using take_bit_eq_mask [of 4 n] by (simp add: mask_eq_exp_minus_1 take_bit_eq_mod)

lemma nibbles_join:
  assumes "a < 16" and "b < 16"
  shows "push_bit 4 a OR b = a * 16 + (b::nat)"
proof -
  have low: "n < 4" if "bit b n" for n
  proof -
    have "take_bit 4 b = b" using assms(2) by (intro take_bit_nat_eq_self) simp
    with that show ?thesis by (metis bit_take_bit_iff)
  qed
  then have "push_bit 4 a AND b = 0" by (intro bit_eqI) (auto simp: bit_simps dest: low)
  then show ?thesis
    by (simp add: disjunctive_add_eq_or [symmetric] push_bit_eq_mult)
qed

lemma nibbles_of_char:
  "(push_bit 4 (drop_bit 4 (uc c) AND 0xF) OR (uc c AND 0xF)) mod 256 = uc c"
proof -
  have "drop_bit 4 (uc c) = uc c div 16" by (simp add: drop_bit_eq_div)
  with uc_less_256 [of c] have "drop_bit 4 (uc c) mod 16 = uc c div 16"
    by (simp add: less_mult_imp_div_less)
  then show ?thesis
    using nibbles_join [of "uc c div 16" "uc c mod 16"] uc_less_256 [of c]
    by (simp only: nibble_mask) (simp add: less_mult_imp_div_less)
qed

lemma hex_encode_loop_Some:
  "\<exists>t. hex_encode_loop d s = Some t \<and> hex_decode_loop d t = Some s \<and>
     length t = (if uc d \<noteq> 0 then 3 * length s - 1 else 2 * length s)"
proof (induction s)
  case (Cons c s)
  then obtain t where t: "hex_encode_loop d s = Some t" "hex_decode_loop d t = Some s"
    "length t = (if uc d \<noteq> 0 then 3 * length s - 1 else 2 * length s)" by blast
  have "drop_bit 4 (uc c) AND 0xF < (16::nat)" "uc c AND 0xF < (16::nat)"
    unfolding nibble_mask by simp_all
  then obtain x y where
    x: "hex_encode_digit (drop_bit 4 (uc c) AND 0xF) = Some x"
       "hex_decode_digit x = Some (drop_bit 4 (uc c) AND 0xF)" and
    y: "hex_encode_digit (uc c AND 0xF) = Some y" "hex_decode_digit y = Some (uc c AND 0xF)"
    by (meson hex_digit_roundtrip)
  have out: "chr_of ((push_bit 4 (drop_bit 4 (uc c) AND 0xF) OR (uc c AND 0xF)) mod 256) = c"
    by (simp only: nibbles_of_char chr_of_uc)
  show ?case
  proof (cases "s = []")
    case True
    then show ?thesis using x y out by (simp add: Let_def del: uc_inject)
  next
    case False
    then have "1 < length t" using t(3) by (cases s) auto
    with False show ?thesis
      using x y out t by (cases s) (auto simp: Let_def)
  qed
qed simp

lemma hex_decode_digit_alnum: "hex_decode_digit c \<noteq> None \<longleftrightarrow> ascii_isalnum c"
  using uc_less_256 [of c]
  by (auto simp: hex_decode_digit_def table_reads gen_alpha_def gen_digit_def sc_def
      simp del: uc_less_256 split: if_splits)

lemma hex_decode_loop_length:
  assumes "hex_decode_loop d src = Some out"
  shows "if uc d = 0 then length src = 2 * length out
    else src = [] \<and> out = [] \<or> length src + 1 = 3 * length out"
  using assms
proof (induction d src arbitrary: out rule: hex_decode_loop.induct)
  case (3 d c1 c2 src)
  from "3.prems" obtain h1 h2 where h: "hex_decode_digit c1 = Some h1" "hex_decode_digit c2 = Some h2"
    by (auto split: option.splits)
  show ?case
  proof (cases "uc d \<noteq> 0 \<and> length src > 1")
    case True
    with "3.prems" h obtain o' where "hex_decode_loop d (tl src) = Some o'" "length out = Suc (length o')"
      "hd src = d"
      by (auto simp: Let_def split: if_splits)
    with "3.IH"(1) [OF h refl True] True show ?thesis by (cases src) auto
  next
    case False
    with "3.prems" h obtain o' where o': "hex_decode_loop d src = Some o'" "length out = Suc (length o')"
      by (auto simp: Let_def split: if_splits)
    moreover have "src = []" if "uc d \<noteq> 0" using that False o' by (cases src) auto
    ultimately show ?thesis using "3.IH"(2) [OF h refl False o'(1)] by auto
  qed
qed auto

subsection \<open>Lemmas: UTF-8\<close>

lemma cont_byte:
  "(0x80 OR (y AND 0x3F)) AND 0xC0 = (0x80 :: byte)"
  "(0x80 OR (y AND 0x3F)) AND 0x3F = (y AND 0x3F :: byte)"
  by (simp_all only: bit.conj_disj_distrib2 and.assoc) simp_all

lemma lead_byte_2:
  "(0xC0 OR (y AND 0x1F)) AND 0x80 = (0x80 :: byte)" "(0xC0 OR (y AND 0x1F)) AND 0xE0 = (0xC0 :: byte)"
  "(0xC0 OR (y AND 0x1F)) AND 0x1F = (y AND 0x1F :: byte)"
  by (simp_all only: bit.conj_disj_distrib2 and.assoc) simp_all

lemma lead_byte_3:
  "(0xE0 OR (y AND 0x0F)) AND 0x80 = (0x80 :: byte)" "(0xE0 OR (y AND 0x0F)) AND 0xE0 = (0xE0 :: byte)"
  "(0xE0 OR (y AND 0x0F)) AND 0xF0 = (0xE0 :: byte)"
  "(0xE0 OR (y AND 0x0F)) AND 0x0F = (y AND 0x0F :: byte)"
  by (simp_all only: bit.conj_disj_distrib2 and.assoc) simp_all

lemma lead_byte_4:
  "(0xF0 OR (y AND 0x07)) AND 0x80 = (0x80 :: byte)" "(0xF0 OR (y AND 0x07)) AND 0xE0 = (0xE0 :: byte)"
  "(0xF0 OR (y AND 0x07)) AND 0xF0 = (0xF0 :: byte)" "(0xF0 OR (y AND 0x07)) AND 0xF8 = (0xF0 :: byte)"
  "(0xF0 OR (y AND 0x07)) AND 0x07 = (y AND 0x07 :: byte)"
  by (simp_all only: bit.conj_disj_distrib2 and.assoc) simp_all

lemmas utf8_bytes = cont_byte lead_byte_2 lead_byte_3 lead_byte_4

lemma byte_masks: "(0x3F :: 'a::len word) = mask 6" "(0x1F :: 'a word) = mask 5"
  "(0x0F :: 'a word) = mask 4" "(0x07 :: 'a word) = mask 3"
  by (simp_all add: mask_eq_exp_minus_1)

lemma bounded_bits:
  fixes v :: u64
  assumes "v \<le> mask k" and "bit v n"
  shows "n < k"
proof -
  have "unat v \<le> unat (mask k :: u64)" using assms(1) by (simp only: word_le_nat_alt)
  also have "\<dots> < 2 ^ k"
    by (simp only: take_bit_minus_one_eq_mask [symmetric] unsigned_take_bit_eq) simp
  finally have "take_bit k (unat v) = unat v" by (rule take_bit_nat_eq_self)
  moreover have "bit (unat v) n" using assms(2) by (simp add: bit_unsigned_iff)
  ultimately show ?thesis by (metis bit_take_bit_iff)
qed

lemma code_point_bounds:
  "(0x7F :: u64) = mask 7" "(0x7FF :: u64) = mask 11" "(0xFFFF :: u64) = mask 16"
  "(0x1FFFFF :: u64) = mask 21"
  by (simp_all add: mask_eq_exp_minus_1)

lemma lead_payload:
  fixes v :: u64
  shows "v \<le> 0x7FF \<Longrightarrow> ucast (drop_bit 6 v) = (ucast (drop_bit 6 v) AND 0x1F :: byte)"
    and "v \<le> 0xFFFF \<Longrightarrow> ucast (drop_bit 12 v) = (ucast (drop_bit 12 v) AND 0x0F :: byte)"
    and "v \<le> 0x1FFFFF \<Longrightarrow> ucast (drop_bit 18 v) = (ucast (drop_bit 18 v) AND 0x07 :: byte)"
  unfolding byte_masks code_point_bounds
  by (rule bit_word_eqI; auto simp: bit_simps dest: bounded_bits)+

lemma reassemble:
  fixes v :: u64
  shows "v \<le> 0x7F \<Longrightarrow> ucast (ucast v :: byte) = v"
    and "v \<le> 0x7FF \<Longrightarrow> push_bit 6 (ucast (ucast (drop_bit 6 v) AND 0x1F :: byte)) OR
      ucast (ucast v AND 0x3F :: byte) = v"
    and "v \<le> 0xFFFF \<Longrightarrow> push_bit 12 (ucast (ucast (drop_bit 12 v) AND 0x0F :: byte)) OR
      (push_bit 6 (ucast (ucast (drop_bit 6 v) AND 0x3F :: byte)) OR ucast (ucast v AND 0x3F :: byte)) = v"
    and "v \<le> 0x1FFFFF \<Longrightarrow> push_bit 18 (ucast (ucast (drop_bit 18 v) AND 0x07 :: byte)) OR
      ((push_bit 12 (ucast (ucast (drop_bit 12 v) AND 0x3F :: byte)) OR
        push_bit 6 (ucast (ucast (drop_bit 6 v) AND 0x3F :: byte))) OR ucast (ucast v AND 0x3F :: byte)) = v"
  unfolding byte_masks code_point_bounds
  by (rule bit_word_eqI; auto simp: bit_simps dest: bounded_bits)+

lemma UTF8Encode_shape:
  "UTF8Encode n v \<noteq> [] \<longleftrightarrow>
     (v \<le> 0x7F \<and> 1 \<le> n) \<or> (v \<le> 0x7FF \<and> 2 \<le> n) \<or> (v \<le> 0xFFFF \<and> 3 \<le> n) \<or> (v \<le> 0x1FFFFF \<and> 4 \<le> n)"
  by (auto simp: UTF8Encode_def)

lemma ascii_byte: "(v :: u64) \<le> 0x7F \<Longrightarrow> ucast v AND 0x80 = (0 :: byte)"
proof (rule bit_word_eqI)
  fix n assume v: "v \<le> 0x7F" and "n < LENGTH(8)"
  have pow: "(0x80 :: byte) = 2 ^ 7" by simp
  show "bit (ucast v AND 0x80 :: byte) n \<longleftrightarrow> bit (0 :: byte) n"
    using bounded_bits [OF v [unfolded code_point_bounds], of n]
    unfolding pow by (simp only: bit_and_iff bit_exp_iff bit_unsigned_iff) auto
qed

lemma not_cont_lead: "x = (0x80 :: byte) \<Longrightarrow> x \<noteq> 0"
  by auto

lemma UTF8_decode_encode:
  assumes "UTF8Encode n v \<noteq> []"
  shows "UTF8Decode (UTF8Encode n v @ rest) v0 = Some (length (UTF8Encode n v), v)"
proof -
  consider "v \<le> 0x7F" "1 \<le> n" | "\<not> (v \<le> 0x7F \<and> 1 \<le> n)" "v \<le> 0x7FF" "2 \<le> n"
    | "\<not> (v \<le> 0x7F \<and> 1 \<le> n)" "\<not> (v \<le> 0x7FF \<and> 2 \<le> n)" "v \<le> 0xFFFF" "3 \<le> n"
    | "\<not> (v \<le> 0x7F \<and> 1 \<le> n)" "\<not> (v \<le> 0x7FF \<and> 2 \<le> n)" "\<not> (v \<le> 0xFFFF \<and> 3 \<le> n)"
      "v \<le> 0x1FFFFF" "4 \<le> n"
    using assms unfolding UTF8Encode_shape by blast
  then show ?thesis
  proof cases
    case 1
    then show ?thesis
      by (simp add: UTF8Encode_def UTF8Decode_def ascii_byte reassemble(1))
  next
    case 2
    have enc: "UTF8Encode n v =
        [0xC0 OR (ucast (drop_bit 6 v) AND 0x1F), 0x80 OR (ucast v AND 0x3F)]"
      using 2 lead_payload(1) [OF 2(2)]
      by (simp add: UTF8Encode_def unsigned_and_eq)
    show ?thesis
      unfolding enc by (simp add: UTF8Decode_def utf8_bytes reassemble(2) [OF 2(2)] Let_def)
  next
    case 3
    have enc: "UTF8Encode n v =
        [0xE0 OR (ucast (drop_bit 12 v) AND 0x0F), 0x80 OR (ucast (drop_bit 6 v) AND 0x3F),
         0x80 OR (ucast v AND 0x3F)]"
      using 3 lead_payload(2) [OF 3(3)]
      by (simp add: UTF8Encode_def unsigned_and_eq)
    show ?thesis
      unfolding enc by (simp add: UTF8Decode_def utf8_bytes reassemble(3) [OF 3(3)] Let_def)
  next
    case 4
    have enc: "UTF8Encode n v =
        [0xF0 OR (ucast (drop_bit 18 v) AND 0x07), 0x80 OR (ucast (drop_bit 12 v) AND 0x3F),
         0x80 OR (ucast (drop_bit 6 v) AND 0x3F), 0x80 OR (ucast v AND 0x3F)]"
      using 4 lead_payload(3) [OF 4(4)]
      by (simp add: UTF8Encode_def unsigned_and_eq)
    show ?thesis
      unfolding enc by (simp add: UTF8Decode_def utf8_bytes reassemble(4) [OF 4(4)] Let_def)
  qed
qed

subsection \<open>Properties\<close>

text \<open>C22: whatever \<open>UTF8Encode\<close> writes, \<open>UTF8Decode\<close> reads back: it returns the same number of bytes
  and the same code point, whatever bytes follow in the buffer; encoding never exceeds the buffer and
  fails only for a value above 0x1FFFFF or a buffer too short for it.\<close>

theorem utf8_roundtrip:
  assumes "UTF8Encode n v \<noteq> []"
  shows "UTF8Decode (UTF8Encode n v @ rest) v0 = Some (length (UTF8Encode n v), v) \<and>
    length (UTF8Encode n v) \<le> n"
  using UTF8_decode_encode [OF assms] assms by (auto simp: UTF8Encode_def)

theorem utf8_roundtrip_witness: "UTF8Decode (UTF8Encode 4 0x20AC @ [7]) 0 = Some (3, 0x20AC)"
proof -
  have "length (UTF8Encode 4 0x20AC) = 3" by (simp add: UTF8Encode_def)
  then show ?thesis using utf8_roundtrip [of 4 "0x20AC" "[7]" 0] by fastforce
qed

text \<open>Hexadecimal encoding never aborts, writes two digits a byte (with or without a delimiter
  between bytes) plus the terminating NUL inside its buffer, and decoding returns the original bytes,
  for every byte string and every delimiter.\<close>

theorem hex_roundtrip:
  "\<exists>t. HexEncode s = Some t \<and> length t = 2 * length s \<and> HexDecode t = Some s \<and>
    (\<exists>u. HexEncodeWithDelimiter s d = Some u \<and> HexDecodeWithDelimiter_buf (length s) u d = s \<and>
       length u = (if uc d \<noteq> 0 then 3 * length s - 1 else 2 * length s))"
proof -
  have enc: "HexEncodeWithDelimiter s e = hex_encode_loop e s" for e
  proof (cases "s = []")
    case False
    then have "Suc 0 \<le> length s" by (cases s) auto
    with hex_encode_loop_Some [of e s] False show ?thesis
      by (auto simp: HexEncodeWithDelimiter_def HexEncodeWithDelimiter_buf_def Let_def)
  qed (simp add: HexEncodeWithDelimiter_def HexEncodeWithDelimiter_buf_def)
  obtain t where t: "hex_encode_loop (chr_of 0) s = Some t" "hex_decode_loop (chr_of 0) t = Some s"
    "length t = 2 * length s"
    using hex_encode_loop_Some [of "chr_of 0" s] by auto
  obtain u where u: "hex_encode_loop d s = Some u" "hex_decode_loop d u = Some s"
    "length u = (if uc d \<noteq> 0 then 3 * length s - 1 else 2 * length s)"
    using hex_encode_loop_Some [of d s] by blast
  have "HexDecode t = Some s"
    using t by (cases s) (auto simp: HexDecode_def HexDecodeWithDelimiter_buf_def Let_def)
  moreover have "HexDecodeWithDelimiter_buf (length s) u d = s"
    using u by (cases s) (auto simp: HexDecodeWithDelimiter_buf_def Let_def)
  ultimately show ?thesis
    unfolding HexEncode_def enc using t u by auto
qed

end
