(* ===== verification/Numbers.thy ===== *)
theory Numbers
  imports Ascii_Ctype String_Piece "HOL-Library.Signed_Division"
begin

text \<open>
  \<^verbatim>\<open>base/numbers.h\<close> and \<^verbatim>\<open>.cc\<close>: parsing integers and booleans. A value of a C++ integer type is an
  \<open>int\<close>; every intermediate result is checked against the range of its type, and a result outside it
  (undefined behaviour for signed types) or a failed assert makes the model return \<open>None\<close>. The
  theorems show that this never happens and what the parsers accept. Floating point
  numbers are in the theory \<^verbatim>\<open>Double_Range\<close>.
\<close>

unbundle bit_operations_syntax

subsection \<open>Integer types and the digit table\<close>

record int_type =
  it_min :: int
  it_max :: int

definition int32_t :: int_type where "int32_t = \<lparr>it_min = - (2 ^ 31), it_max = 2 ^ 31 - 1\<rparr>"

definition int64_t :: int_type where "int64_t = \<lparr>it_min = - (2 ^ 63), it_max = 2 ^ 63 - 1\<rparr>"

definition uint32_t :: int_type where "uint32_t = \<lparr>it_min = 0, it_max = 2 ^ 32 - 1\<rparr>"

definition uint64_t :: int_type where "uint64_t = \<lparr>it_min = 0, it_max = 2 ^ 64 - 1\<rparr>"

lemmas int_types = int32_t_def int64_t_def uint32_t_def uint64_t_def

definition in_range :: "int_type \<Rightarrow> int \<Rightarrow> bool" where
  "in_range T v = (it_min T \<le> v \<and> v \<le> it_max T)"

text \<open>Conversion to a narrower or differently signed type keeps the value modulo the width.\<close>

definition wrap_to :: "int_type \<Rightarrow> int \<Rightarrow> int" where
  "wrap_to T v = (v - it_min T) mod (it_max T - it_min T + 1) + it_min T"

definition kAsciiToInt :: "int list" where
  "kAsciiToInt =
     [
      36, 36, 36, 36, 36, 36, 36, 36, 36, 36, 36, 36, 36, 36, 36, 36,
      36, 36, 36, 36, 36, 36, 36, 36, 36, 36, 36, 36, 36, 36, 36, 36,
      36, 36, 36, 36, 36, 36, 36, 36, 36, 36, 36, 36, 36, 36, 36, 36,
      0, 1, 2, 3, 4, 5, 6, 7, 8, 9, 36, 36, 36, 36, 36, 36,
      36, 10, 11, 12, 13, 14, 15, 16, 17, 18, 19, 20, 21, 22, 23, 24,
      25, 26, 27, 28, 29, 30, 31, 32, 33, 34, 35, 36, 36, 36, 36, 36,
      36, 10, 11, 12, 13, 14, 15, 16, 17, 18, 19, 20, 21, 22, 23, 24,
      25, 26, 27, 28, 29, 30, 31, 32, 33, 34, 35, 36, 36, 36, 36, 36,
      36, 36, 36, 36, 36, 36, 36, 36, 36, 36, 36, 36, 36, 36, 36, 36,
      36, 36, 36, 36, 36, 36, 36, 36, 36, 36, 36, 36, 36, 36, 36, 36,
      36, 36, 36, 36, 36, 36, 36, 36, 36, 36, 36, 36, 36, 36, 36, 36,
      36, 36, 36, 36, 36, 36, 36, 36, 36, 36, 36, 36, 36, 36, 36, 36,
      36, 36, 36, 36, 36, 36, 36, 36, 36, 36, 36, 36, 36, 36, 36, 36,
      36, 36, 36, 36, 36, 36, 36, 36, 36, 36, 36, 36, 36, 36, 36, 36,
      36, 36, 36, 36, 36, 36, 36, 36, 36, 36, 36, 36, 36, 36, 36, 36,
      36, 36, 36, 36, 36, 36, 36, 36, 36, 36, 36, 36, 36, 36, 36, 36]"

subsection \<open>\<open>safe_strto*\<close>\<close>

text \<open>\<open>None\<close> is the return value false; otherwise the remaining text, the base and the sign.\<close>

definition safe_parse_sign_and_base :: "piece \<Rightarrow> int \<Rightarrow> (piece \<times> int \<times> bool) option" where
  "safe_parse_sign_and_base text base =
     (let text = dropWhile ascii_isspace text;
          text = rev (dropWhile ascii_isspace (rev text)) in
      if text = [] then None
      else let negative = (text ! 0 = CHR ''-'');
               text = (if negative \<or> text ! 0 = CHR ''+'' then tl text else text) in
      if text = [] then None
      else if base = 0 then
        (if length text \<ge> 2 \<and> text ! 0 = CHR ''0'' \<and> (text ! 1 = CHR ''x'' \<or> text ! 1 = CHR ''X'')
         then (if drop 2 text = [] then None else Some (drop 2 text, 16, negative))
         else if length text \<ge> 1 \<and> text ! 0 = CHR ''0'' then Some (drop 1 text, 8, negative)
         else Some (text, 10, negative))
      else if base = 16 then
        (if length text \<ge> 2 \<and> text ! 0 = CHR ''0'' \<and> (text ! 1 = CHR ''x'' \<or> text ! 1 = CHR ''X'')
         then (if drop 2 text = [] then None else Some (drop 2 text, base, negative))
         else Some (text, base, negative))
      else if 2 \<le> base \<and> base \<le> 36 then Some (text, base, negative)
      else None)"

text \<open>The parsing loops, on the digits still to read. The result is the return value and \<open>*value_p\<close>.\<close>

fun parse_positive_loop :: "int_type \<Rightarrow> int \<Rightarrow> int \<Rightarrow> int \<Rightarrow> piece \<Rightarrow> (bool \<times> int) option" where
  "parse_positive_loop T base vmax_over_base value [] = Some (True, value)"
| "parse_positive_loop T base vmax_over_base value (c # text) =
     (let digit = kAsciiToInt ! uc c in
      if digit \<ge> base then Some (False, value)
      else if value > vmax_over_base then Some (False, it_max T)
      else if \<not> in_range T (value * base) \<or> \<not> in_range T (it_max T - digit) then None
      else let value = value * base in
           if value > it_max T - digit then Some (False, it_max T)
           else if \<not> in_range T (value + digit) then None
           else parse_positive_loop T base vmax_over_base (value + digit) text)"

definition safe_parse_positive_int :: "int_type \<Rightarrow> piece \<Rightarrow> int \<Rightarrow> (bool \<times> int) option" where
  "safe_parse_positive_int T text base =
     (if it_max T > 0 then parse_positive_loop T base (it_max T sdiv base) 0 text else None)"

fun parse_negative_loop :: "int_type \<Rightarrow> int \<Rightarrow> int \<Rightarrow> int \<Rightarrow> piece \<Rightarrow> (bool \<times> int) option" where
  "parse_negative_loop T base vmin_over_base value [] = Some (True, value)"
| "parse_negative_loop T base vmin_over_base value (c # text) =
     (let digit = kAsciiToInt ! uc c in
      if digit \<ge> base then Some (False, value)
      else if value < vmin_over_base then Some (False, it_min T)
      else if \<not> in_range T (value * base) \<or> \<not> in_range T (it_min T + digit) then None
      else let value = value * base in
           if value < it_min T + digit then Some (False, it_min T)
           else if \<not> in_range T (value - digit) then None
           else parse_negative_loop T base vmin_over_base (value - digit) text)"

text \<open>C++ division and remainder truncate towards zero.\<close>

definition safe_parse_negative_int :: "int_type \<Rightarrow> piece \<Rightarrow> int \<Rightarrow> (bool \<times> int) option" where
  "safe_parse_negative_int T text base =
     (if it_min T < 0 \<and> it_min T \<le> 0 - base
      then let vmin_over_base = it_min T sdiv base;
               vmin_over_base = (if it_min T smod base > 0 then vmin_over_base + 1 else vmin_over_base)
           in parse_negative_loop T base vmin_over_base 0 text
      else None)"

definition safe_int_internal :: "int_type \<Rightarrow> piece \<Rightarrow> int \<Rightarrow> (bool \<times> int) option" where
  "safe_int_internal T text base =
     (case safe_parse_sign_and_base text base of None \<Rightarrow> Some (False, 0)
      | Some (text, base, negative) \<Rightarrow>
          if \<not> negative then safe_parse_positive_int T text base
          else safe_parse_negative_int T text base)"

definition safe_uint_internal :: "int_type \<Rightarrow> piece \<Rightarrow> int \<Rightarrow> (bool \<times> int) option" where
  "safe_uint_internal T text base =
     (case safe_parse_sign_and_base text base of None \<Rightarrow> Some (False, 0)
      | Some (text, base, negative) \<Rightarrow>
          if negative then Some (False, 0) else safe_parse_positive_int T text base)"

definition safe_strto32_base :: "piece \<Rightarrow> int \<Rightarrow> (bool \<times> int) option" where
  "safe_strto32_base text base = safe_int_internal int32_t text base"

definition safe_strto64_base :: "piece \<Rightarrow> int \<Rightarrow> (bool \<times> int) option" where
  "safe_strto64_base text base = safe_int_internal int64_t text base"

definition safe_strtou32_base :: "piece \<Rightarrow> int \<Rightarrow> (bool \<times> int) option" where
  "safe_strtou32_base text base = safe_uint_internal uint32_t text base"

definition safe_strtou64_base :: "piece \<Rightarrow> int \<Rightarrow> (bool \<times> int) option" where
  "safe_strtou64_base text base = safe_uint_internal uint64_t text base"

definition safe_strtosize_t_base :: "piece \<Rightarrow> int \<Rightarrow> (bool \<times> int) option" where
  "safe_strtosize_t_base text base = safe_uint_internal uint64_t text base"

definition safe_strto32 :: "piece \<Rightarrow> (bool \<times> int) option" where
  "safe_strto32 text = safe_strto32_base text 10"

definition safe_strto64 :: "piece \<Rightarrow> (bool \<times> int) option" where
  "safe_strto64 text = safe_strto64_base text 10"

definition safe_strtou32 :: "piece \<Rightarrow> (bool \<times> int) option" where
  "safe_strtou32 text = safe_strtou32_base text 10"

definition safe_strtou64 :: "piece \<Rightarrow> (bool \<times> int) option" where
  "safe_strtou64 text = safe_strtou64_base text 10"

definition safe_strtosize_t :: "piece \<Rightarrow> (bool \<times> int) option" where
  "safe_strtosize_t text = safe_strtosize_t_base text 10"

text \<open>\<open>StringAsValue<T>\<close> for an integer type \<open>T\<close>: parse at 32 or 64 bits, then cast to \<open>T\<close>.\<close>

definition StringAsValue :: "int_type \<Rightarrow> string \<Rightarrow> (bool \<times> int) option" where
  "StringAsValue T str =
     map_option (\<lambda>(ret, v). (ret, wrap_to T v))
       (if it_min T < 0
        then if it_max T \<le> it_max int32_t then safe_strto32 str else safe_strto64 str
        else if it_max T \<le> it_max uint32_t then safe_strtou32 str else safe_strtou64 str)"

subsection \<open>Reading a leading number with \<open>strtol\<close>\<close>

text \<open>
  The C library's scanner (bases 0 and 2 to 36): white space, a sign, a base prefix, the longest run of
  digits. The result is the magnitude, the sign and the number of characters consumed, 0 if there is
  no digit. A C string ends at its first NUL, which is no digit.
\<close>

definition digit_ok :: "int \<Rightarrow> char \<Rightarrow> bool" where
  "digit_ok base c = (kAsciiToInt ! uc c < base)"

definition digits_value :: "int \<Rightarrow> piece \<Rightarrow> int" where
  "digits_value base ds = foldl (\<lambda>v c. v * base + kAsciiToInt ! uc c) 0 ds"

definition hex_prefix :: "int \<Rightarrow> string \<Rightarrow> bool" where
  "hex_prefix base s = ((base = 0 \<or> base = 16) \<and> length s \<ge> 3 \<and> s ! 0 = CHR ''0'' \<and>
     (s ! 1 = CHR ''x'' \<or> s ! 1 = CHR ''X'') \<and> digit_ok 16 (s ! 2))"

definition scan_number :: "string \<Rightarrow> int \<Rightarrow> int \<times> bool \<times> nat" where
  "scan_number nptr base =
     (let s = dropWhile ascii_isspace nptr;
          negative = (s \<noteq> [] \<and> s ! 0 = CHR ''-'');
          s = (if s \<noteq> [] \<and> (s ! 0 = CHR ''-'' \<or> s ! 0 = CHR ''+'') then tl s else s);
          (b, s) = (if hex_prefix base s then (16, drop 2 s)
                    else if base = 0 then (if s \<noteq> [] \<and> s ! 0 = CHR ''0'' then 8 else 10, s)
                    else (base, s));
          ds = takeWhile (digit_ok b) s
      in if ds = [] then (0, False, 0)
         else (digits_value b ds, negative, length nptr - length s + length ds))"

definition ERANGE :: int where "ERANGE = 34"

text \<open>Value, consumed characters and \<open>errno\<close>; \<open>long\<close> and \<open>long long\<close> have 64 bits.\<close>

definition strtol :: "string \<Rightarrow> int \<Rightarrow> int \<Rightarrow> int \<times> nat \<times> int" where
  "strtol nptr base errno =
     (let (m, negative, n) = scan_number nptr base; v = (if negative then - m else m) in
      if v < it_min int64_t then (it_min int64_t, n, ERANGE)
      else if v > it_max int64_t then (it_max int64_t, n, ERANGE)
      else (v, n, errno))"

definition strtoul :: "string \<Rightarrow> int \<Rightarrow> int \<Rightarrow> int \<times> nat \<times> int" where
  "strtoul nptr base errno =
     (let (m, negative, n) = scan_number nptr base in
      if m > it_max uint64_t then (it_max uint64_t, n, ERANGE)
      else (wrap_to uint64_t (if negative then - m else m), n, errno))"

definition strto32_adapter :: "string \<Rightarrow> int \<Rightarrow> int \<Rightarrow> int \<times> nat \<times> int" where
  "strto32_adapter nptr base errno =
     (let saved_errno = errno;
          (result, n, errno) = strtol nptr base 0 in
      if errno = ERANGE \<and> result = it_min int64_t then (it_min int32_t, n, errno)
      else if errno = ERANGE \<and> result = it_max int64_t then (it_max int32_t, n, errno)
      else if errno = 0 \<and> result < it_min int32_t then (it_min int32_t, n, ERANGE)
      else if errno = 0 \<and> result > it_max int32_t then (it_max int32_t, n, ERANGE)
      else (wrap_to int32_t result, n, if errno = 0 then saved_errno else errno))"

definition strtou32_adapter :: "string \<Rightarrow> int \<Rightarrow> int \<Rightarrow> int \<times> nat \<times> int" where
  "strtou32_adapter nptr base errno =
     (let saved_errno = errno;
          (result, n, errno) = strtoul nptr base 0 in
      if errno = ERANGE \<and> result = it_max uint64_t then (it_max uint32_t, n, errno)
      else if errno = 0 \<and> result > it_max uint32_t then (it_max uint32_t, n, ERANGE)
      else (wrap_to uint32_t result, n, if errno = 0 then saved_errno else errno))"

text \<open>\<open>sizeof(int32_t) \<noteq> sizeof(long)\<close> here, so \<open>strto32\<close> is the adapter.\<close>

definition strto32 :: "string \<Rightarrow> int \<Rightarrow> int \<Rightarrow> int \<times> nat \<times> int" where
  "strto32 nptr base errno = strto32_adapter nptr base errno"

definition strtou32 :: "string \<Rightarrow> int \<Rightarrow> int \<Rightarrow> int \<times> nat \<times> int" where
  "strtou32 nptr base errno = strtou32_adapter nptr base errno"

definition atoi32 :: "string \<Rightarrow> int" where "atoi32 nptr = fst (strto32 nptr 10 0)"

definition atoi64 :: "string \<Rightarrow> int" where "atoi64 nptr = fst (strtol nptr 10 0)"

definition ParseLeadingInt32Value :: "string \<Rightarrow> int \<Rightarrow> int" where
  "ParseLeadingInt32Value str deflt =
     (let (value, n, _) = strtol str 0 0;
          value = (if value > it_max int32_t then it_max int32_t
                   else if value < it_min int32_t then it_min int32_t else value)
      in if n = 0 then deflt else value)"

definition ParseLeadingDec32Value :: "string \<Rightarrow> int \<Rightarrow> int" where
  "ParseLeadingDec32Value str deflt =
     (let (value, n, _) = strtol str 10 0;
          value = (if value > it_max int32_t then it_max int32_t
                   else if value < it_min int32_t then it_min int32_t else value)
      in if n = 0 then deflt else value)"

text \<open>The first branch of the unsigned versions is for a 32-bit \<open>long\<close>; the second runs here.\<close>

definition clamp_unsigned :: "int \<Rightarrow> int" where
  "clamp_unsigned value =
     (if value > it_max uint32_t \<or> value < - it_max uint32_t then it_max uint32_t else value)"

definition ParseLeadingUInt32Value :: "string \<Rightarrow> int \<Rightarrow> int" where
  "ParseLeadingUInt32Value str deflt =
     (let (value, n, _) = strtol str 0 0 in
      if n = 0 then deflt else wrap_to uint32_t (clamp_unsigned value))"

definition ParseLeadingUDec32Value :: "string \<Rightarrow> int \<Rightarrow> int" where
  "ParseLeadingUDec32Value str deflt =
     (let (value, n, _) = strtol str 10 0 in
      if n = 0 then deflt else wrap_to uint32_t (clamp_unsigned value))"

definition ParseLeadingUInt64Value :: "string \<Rightarrow> int \<Rightarrow> int" where
  "ParseLeadingUInt64Value str deflt = (let (value, n, _) = strtoul str 0 0 in if n = 0 then deflt else value)"

definition ParseLeadingInt64Value :: "string \<Rightarrow> int \<Rightarrow> int" where
  "ParseLeadingInt64Value str deflt = (let (value, n, _) = strtol str 0 0 in if n = 0 then deflt else value)"

definition ParseLeadingHex64Value :: "string \<Rightarrow> int \<Rightarrow> int" where
  "ParseLeadingHex64Value str deflt = (let (value, n, _) = strtoul str 16 0 in if n = 0 then deflt else value)"

definition ParseLeadingDec64Value :: "string \<Rightarrow> int \<Rightarrow> int" where
  "ParseLeadingDec64Value str deflt = (let (value, n, _) = strtol str 10 0 in if n = 0 then deflt else value)"

definition ParseLeadingUDec64Value :: "string \<Rightarrow> int \<Rightarrow> int" where
  "ParseLeadingUDec64Value str deflt = (let (value, n, _) = strtoul str 10 0 in if n = 0 then deflt else value)"

subsection \<open>Leading zeroes and booleans\<close>

definition ConsumeStrayLeadingZeroes :: "string \<Rightarrow> string" where
  "ConsumeStrayLeadingZeroes str =
     (let len = length str in
      if len > 1 \<and> str ! 0 = CHR ''0''
      then let remove = 1 + length (takeWhile (\<lambda>c. c = CHR ''0'') (drop 1 str));
               remove = (if remove = len then remove - 1 else remove)
           in drop remove str
      else str)"

text \<open>The loop that fills \<open>value[]\<close>; it stops after \<open>kMaxLen + 1\<close> characters, the size of the array.\<close>

fun bool_word_loop :: "string \<Rightarrow> string \<Rightarrow> string" where
  "bool_word_loop [] val = val"
| "bool_word_loop (c # str) val =
     (if length val \<le> 5 \<and> ascii_isalnum c then bool_word_loop str (val @ [ascii_tolower c]) else val)"

definition parse_bool_word :: "string \<Rightarrow> bool \<Rightarrow> bool" where
  "parse_bool_word val deflt =
     (let len = length val in
      if len = 0 \<or> len > 5 then deflt
      else if len = 1 then
        (if val ! 0 = CHR ''0'' \<or> val ! 0 = CHR ''n'' then False
         else if val ! 0 = CHR ''1'' \<or> val ! 0 = CHR ''y'' then True else deflt)
      else if len = 2 then (if val = ''no'' then False else deflt)
      else if len = 3 then (if val = ''yes'' then True else deflt)
      else if len = 4 then (if val = ''true'' then True else deflt)
      else (if val = ''false'' then False else deflt))"

definition ParseLeadingBoolValue :: "string \<Rightarrow> bool \<Rightarrow> bool" where
  "ParseLeadingBoolValue str deflt =
     parse_bool_word (bool_word_loop (dropWhile ascii_isspace str) []) deflt"

subsection \<open>Lemmas: the digit table\<close>

lemma kAsciiToInt_spec:
  "kAsciiToInt = map (\<lambda>n. if 48 \<le> n \<and> n \<le> 57 then int n - 48 else if 65 \<le> n \<and> n \<le> 90 then int n - 55
     else if 97 \<le> n \<and> n \<le> 122 then int n - 87 else 36) [0..<256]"
  by code_simp

lemma kAsciiToInt_uc:
  "kAsciiToInt ! uc c = (if 48 \<le> uc c \<and> uc c \<le> 57 then int (uc c) - 48
     else if 65 \<le> uc c \<and> uc c \<le> 90 then int (uc c) - 55
     else if 97 \<le> uc c \<and> uc c \<le> 122 then int (uc c) - 87 else 36)"
  by (simp add: kAsciiToInt_spec)

lemma digit_bounds: "0 \<le> kAsciiToInt ! uc c" "kAsciiToInt ! uc c \<le> 36"
  by (simp_all add: kAsciiToInt_uc)

lemma digits_fold_ge:
  "0 \<le> v \<Longrightarrow> 2 \<le> base \<Longrightarrow> v \<le> foldl (\<lambda>v c. v * base + kAsciiToInt ! uc c) v ds"
proof (induction ds arbitrary: v)
  case (Cons c ds)
  have "v * 1 \<le> v * base" using Cons.prems by (intro mult_left_mono) auto
  then have "v \<le> v * base + kAsciiToInt ! uc c" using digit_bounds(1) [of c] by linarith
  with Cons.IH [of "v * base + kAsciiToInt ! uc c"] Cons.prems show ?case by simp
qed simp

lemma digits_value_nonneg: "2 \<le> base \<Longrightarrow> 0 \<le> digits_value base ds"
  using digits_fold_ge [of 0 base ds] by (simp add: digits_value_def)

subsection \<open>Lemmas: the parsing loops\<close>

text \<open>What both loops compute from a start magnitude \<open>w\<close>: saturate at the limit, else stop at the
  first character that is no digit.\<close>

definition scan_limited :: "int \<Rightarrow> int \<Rightarrow> int \<Rightarrow> piece \<Rightarrow> (bool \<times> int) option" where
  "scan_limited limit base w text =
     (let p = takeWhile (digit_ok base) text; m = foldl (\<lambda>v c. v * base + kAsciiToInt ! uc c) w p in
      if m > limit then None else Some (p = text, m))"

lemma scan_limited_Nil [simp]: "w \<le> limit \<Longrightarrow> scan_limited limit base w [] = Some (True, w)"
  by (simp add: scan_limited_def)

lemma scan_limited_Cons:
  assumes "0 \<le> w" and "w \<le> limit" and "2 \<le> base"
  shows "scan_limited limit base w (c # cs) =
     (let digit = kAsciiToInt ! uc c in
      if digit \<ge> base then Some (False, w)
      else if w > limit div base \<or> w * base > limit - digit then None
      else scan_limited limit base (w * base + digit) cs)"
proof (cases "kAsciiToInt ! uc c \<ge> base")
  case True
  with assms show ?thesis by (simp add: scan_limited_def digit_ok_def)
next
  case False
  let ?d = "kAsciiToInt ! uc c"
  have big: "w * base + ?d > limit" if "w > limit div base \<or> w * base > limit - ?d"
  proof (cases "w > limit div base")
    case True
    have "limit < (limit div base + 1) * base"
      using div_mult_mod_eq [of limit base] pos_mod_bound [of base limit] assms(3)
      unfolding distrib_right by linarith
    also have "\<dots> \<le> w * base"
      using True assms(3) by (intro mult_right_mono) auto
    finally show ?thesis using digit_bounds(1) [of c] by linarith
  qed (use that in simp)
  have "w * base + ?d \<le> foldl (\<lambda>v c. v * base + kAsciiToInt ! uc c) (w * base + ?d) p" for p
    using assms digit_bounds(1) [of c] by (intro digits_fold_ge) auto
  note mono = this
  have "scan_limited limit base (w * base + ?d) cs = None"
    if "w > limit div base \<or> w * base > limit - ?d"
    using big [OF that] mono [of "takeWhile (digit_ok base) cs"] by (simp add: scan_limited_def Let_def)
  moreover have "scan_limited limit base w (c # cs) = scan_limited limit base (w * base + ?d) cs"
    using False by (simp add: scan_limited_def digit_ok_def Let_def)
  ultimately show ?thesis using False by (simp add: Let_def)
qed

lemma le_div_mult:
  assumes "w \<le> limit div base" and "2 \<le> (base::int)"
  shows "w * base \<le> limit"
proof -
  have "w * base \<le> limit div base * base" using assms by (intro mult_right_mono) auto
  also have "\<dots> \<le> limit" using assms(2) pos_mod_sign [of base limit] div_mult_mod_eq [of limit base] by linarith
  finally show ?thesis .
qed

lemma parse_positive_loop_spec:
  assumes "2 \<le> base" and "base \<le> 36" and "it_min T \<le> 0" and "36 \<le> it_max T"
    and "0 \<le> w" and "w \<le> it_max T"
  shows "parse_positive_loop T base (it_max T div base) w cs =
    Some (case scan_limited (it_max T) base w cs of None \<Rightarrow> (False, it_max T) | Some r \<Rightarrow> r)"
  using assms(5,6)
proof (induction cs arbitrary: w)
  case (Cons c cs)
  let ?d = "kAsciiToInt ! uc c"
  have "0 \<le> w * base" using Cons.prems assms(1) by simp
  then have "it_min T \<le> w * base" using assms(3) by linarith
  then show ?case
    using Cons assms(1-4) digit_bounds [of c] le_div_mult [of w "it_max T" base]
    by (auto simp: scan_limited_Cons Let_def in_range_def)
qed (simp add: assms)

lemma parse_negative_loop_spec:
  assumes "2 \<le> base" and "base \<le> 36" and "it_min T \<le> - 36" and "36 \<le> it_max T"
    and "0 \<le> w" and "w \<le> - it_min T"
  shows "parse_negative_loop T base (- (- it_min T div base)) (- w) cs =
    Some (case scan_limited (- it_min T) base w cs of None \<Rightarrow> (False, it_min T)
          | Some (ok, m) \<Rightarrow> (ok, - m))"
  using assms(5,6)
proof (induction cs arbitrary: w)
  case (Cons c cs)
  let ?d = "kAsciiToInt ! uc c"
  have "0 \<le> w * base" using Cons.prems assms(1) by simp
  then have pos: "- (w * base) \<le> it_max T" using assms(4) by linarith
  have step: "- (w * base) - ?d = - (w * base + ?d)" by simp
  show ?case
    using Cons.prems Cons.IH [of "w * base + ?d"] assms(1-4) digit_bounds [of c]
      le_div_mult [of w "- it_min T" base] pos
    by (auto simp: scan_limited_Cons Let_def in_range_def step simp del: minus_add_distrib)
qed (simp add: assms)

lemma sdiv_limits:
  assumes "2 \<le> (base::int)"
  shows "0 \<le> m \<Longrightarrow> m sdiv base = m div base"
    and "m < 0 \<Longrightarrow> m sdiv base = - (- m div base)"
    and "m < 0 \<Longrightarrow> \<not> m smod base > 0"
  using assms pos_mod_sign [of base "- m"]
  by (auto simp: signed_divide_int_def signed_modulo_int_def sgn_if simp del: pos_mod_sign)

lemma safe_parse_positive_int_spec:
  assumes "2 \<le> base" and "base \<le> 36" and "it_min T \<le> 0" and "36 \<le> it_max T"
  shows "safe_parse_positive_int T cs base =
    Some (case scan_limited (it_max T) base 0 cs of None \<Rightarrow> (False, it_max T) | Some r \<Rightarrow> r)"
  using parse_positive_loop_spec [OF assms, of 0 cs] assms
  by (simp add: safe_parse_positive_int_def sdiv_limits)

lemma safe_parse_negative_int_spec:
  assumes "2 \<le> base" and "base \<le> 36" and "it_min T \<le> - 36" and "36 \<le> it_max T"
  shows "safe_parse_negative_int T cs base =
    Some (case scan_limited (- it_min T) base 0 cs of None \<Rightarrow> (False, it_min T)
          | Some (ok, m) \<Rightarrow> (ok, - m))"
  using parse_negative_loop_spec [OF assms, of 0 cs] assms sdiv_limits(2,3) [OF assms(1), of "it_min T"]
  by (simp add: safe_parse_negative_int_def Let_def)

lemma sign_and_base_range:
  "safe_parse_sign_and_base cs base = Some (ds, b, neg) \<Longrightarrow> 2 \<le> b \<and> b \<le> 36"
  by (auto simp: safe_parse_sign_and_base_def Let_def split: if_splits)

text \<open>The reference: after white space, sign and base prefix, the longest run of digits, saturated at
  the limits; true is returned iff that run is the whole rest and is in range.\<close>

definition strto_spec :: "int_type \<Rightarrow> piece \<Rightarrow> int \<Rightarrow> bool \<times> int" where
  "strto_spec T text base =
     (case safe_parse_sign_and_base text base of None \<Rightarrow> (False, 0)
      | Some (ds, b, neg) \<Rightarrow>
          let p = takeWhile (digit_ok b) ds; m = digits_value b p; v = (if neg then - m else m) in
          if neg \<and> it_min T = 0 then (False, 0)
          else if v > it_max T then (False, it_max T)
          else if v < it_min T then (False, it_min T)
          else (p = ds, v))"

lemma scan_limited_digits_value:
  "scan_limited limit b 0 ds =
     (let p = takeWhile (digit_ok b) ds; m = digits_value b p in
      if m > limit then None else Some (p = ds, m))"
  by (simp only: scan_limited_def digits_value_def)

lemma safe_int_internal_spec:
  assumes "it_min T \<le> - 36" and "36 \<le> it_max T"
  shows "safe_int_internal T cs base = Some (strto_spec T cs base)"
proof (cases "safe_parse_sign_and_base cs base")
  case (Some r)
  then obtain ds b neg where r: "safe_parse_sign_and_base cs base = Some (ds, b, neg)"
    by (cases r) auto
  have "2 \<le> b" "b \<le> 36" using sign_and_base_range [OF r] by auto
  moreover have "0 \<le> digits_value b (takeWhile (digit_ok b) ds)"
    using \<open>2 \<le> b\<close> by (rule digits_value_nonneg)
  ultimately show ?thesis
    using assms r
    by (auto simp: safe_int_internal_def strto_spec_def safe_parse_positive_int_spec
        safe_parse_negative_int_spec scan_limited_digits_value Let_def)
qed (simp add: safe_int_internal_def strto_spec_def)

lemma safe_uint_internal_spec:
  assumes "it_min T = 0" and "36 \<le> it_max T"
  shows "safe_uint_internal T cs base = Some (strto_spec T cs base)"
proof (cases "safe_parse_sign_and_base cs base")
  case (Some r)
  then obtain ds b neg where r: "safe_parse_sign_and_base cs base = Some (ds, b, neg)"
    by (cases r) auto
  have "2 \<le> b" "b \<le> 36" using sign_and_base_range [OF r] by auto
  moreover have "0 \<le> digits_value b (takeWhile (digit_ok b) ds)"
    using \<open>2 \<le> b\<close> by (rule digits_value_nonneg)
  ultimately show ?thesis
    using assms r
    by (auto simp: safe_uint_internal_def strto_spec_def safe_parse_positive_int_spec
        scan_limited_digits_value Let_def)
qed (simp add: safe_uint_internal_def strto_spec_def)

lemmas safe_strto_specs = safe_int_internal_spec safe_uint_internal_spec

text \<open>Decimal rendering, the inverse of parsing.\<close>

fun dec_digits :: "nat \<Rightarrow> string" where
  "dec_digits n = (if n < 10 then [chr_of (48 + n)] else dec_digits (n div 10) @ [chr_of (48 + n mod 10)])"

declare dec_digits.simps [simp del]

definition show_int :: "int \<Rightarrow> string" where
  "show_int v = (if v < 0 then CHR ''-'' # dec_digits (nat (- v)) else dec_digits (nat v))"

lemma digit_of_code: "n < 10 \<Longrightarrow> kAsciiToInt ! uc (chr_of (48 + n)) = int n"
  by (subst kAsciiToInt_uc) simp

lemma dec_digits_value: "digits_value 10 (dec_digits n) = int n"
proof (induction n rule: dec_digits.induct)
  case (1 n)
  show ?case
  proof (cases "n < 10")
    case True
    then show ?thesis by (simp add: dec_digits.simps [of n] digits_value_def digit_of_code del: uc_chr_of)
  next
    case False
    then have "foldl (\<lambda>v c. v * 10 + kAsciiToInt ! uc c) 0 (dec_digits (n div 10)) = int (n div 10)"
      using 1 by (simp add: digits_value_def)
    moreover have "int (n div 10) * 10 + int (n mod 10) = int n"
      by (simp add: zdiv_int zmod_int)
    ultimately show ?thesis using False
      by (simp add: dec_digits.simps [of n] digits_value_def digit_of_code del: uc_chr_of)
  qed
qed

lemma dec_digits_chars: "c \<in> set (dec_digits n) \<Longrightarrow> 48 \<le> uc c \<and> uc c \<le> 57"
proof (induction n rule: dec_digits.induct)
  case (1 n)
  show ?case
  proof (cases "n < 10")
    case False
    with 1 show ?thesis by (auto simp: dec_digits.simps [of n])
  qed (use 1 in \<open>auto simp: dec_digits.simps [of n]\<close>)
qed

lemma dec_digits_nonempty [simp]: "dec_digits n \<noteq> []"
  by (simp add: dec_digits.simps [of n])

lemma dec_digits_ok: "takeWhile (digit_ok 10) (dec_digits n) = dec_digits n"
  by (auto simp: takeWhile_eq_all_conv digit_ok_def kAsciiToInt_uc dest!: dec_digits_chars)

lemma trim_spaces:
  assumes "\<forall>c\<in>set ws. ascii_isspace c" and "\<forall>c\<in>set ws'. ascii_isspace c"
    and "t \<noteq> []" and "\<not> ascii_isspace (hd t)" and "\<not> ascii_isspace (last t)"
  shows "rev (dropWhile ascii_isspace (rev (dropWhile ascii_isspace (ws @ t @ ws')))) = t"
proof -
  have "dropWhile ascii_isspace (ws @ t @ ws') = t @ ws'"
    using assms(1,3,4) by (cases t) (simp_all add: dropWhile_append2)
  moreover have "dropWhile ascii_isspace (rev ws' @ rev t) = rev t"
    using assms(2,3,5) dropWhile_append2 [of "rev ws'" ascii_isspace "rev t"]
    by (cases t rule: rev_cases) simp_all
  ultimately show ?thesis by simp
qed

lemma digit_not_space: "48 \<le> uc c \<Longrightarrow> \<not> ascii_isspace c"
  by (auto simp: isspace_uc)

lemma uc_literals [simp]: "uc (CHR ''-'') = 45" "uc (CHR ''+'') = 43" "uc (CHR ''0'') = 48"
  by (simp_all add: uc_def)

lemma sign_and_base_decimal:
  assumes "\<forall>c\<in>set ws. ascii_isspace c" and "\<forall>c\<in>set ws'. ascii_isspace c"
  shows "safe_parse_sign_and_base (ws @ show_int v @ ws') 10 = Some (dec_digits (nat \<bar>v\<bar>), 10, v < 0)"
proof -
  let ?ds = "dec_digits (nat \<bar>v\<bar>)"
  have show_v: "show_int v = (if v < 0 then CHR ''-'' # ?ds else ?ds)"
    by (simp add: show_int_def)
  have h: "48 \<le> uc (hd ?ds)" and l: "48 \<le> uc (last ?ds)"
    using dec_digits_chars [of "hd ?ds" "nat \<bar>v\<bar>"] dec_digits_chars [of "last ?ds" "nat \<bar>v\<bar>"] by auto
  have "\<not> ascii_isspace (hd (show_int v))" "\<not> ascii_isspace (last (show_int v))"
    using h l by (auto simp: show_v isspace_uc)
  then have trim: "rev (dropWhile ascii_isspace (rev (dropWhile ascii_isspace (ws @ show_int v @ ws'))))
      = show_int v"
    using assms by (intro trim_spaces) (auto simp: show_v)
  have "?ds ! 0 \<noteq> CHR ''-''" "?ds ! 0 \<noteq> CHR ''+''"
    using h by (auto simp: hd_conv_nth)
  then show ?thesis
    unfolding safe_parse_sign_and_base_def trim Let_def by (cases "v < 0") (simp_all add: show_v)
qed

text \<open>Saturation at 32 bits, the contract of the \<open>ParseLeading\<close> family and of the adapters.\<close>

definition clamp :: "int_type \<Rightarrow> int \<Rightarrow> int" where
  "clamp T v = max (it_min T) (min (it_max T) v)"

definition leading_value :: "string \<Rightarrow> int \<Rightarrow> int" where
  "leading_value s base = (case scan_number s base of (m, negative, _) \<Rightarrow> if negative then - m else m)"

definition leading_length :: "string \<Rightarrow> int \<Rightarrow> nat" where
  "leading_length s base = (case scan_number s base of (_, _, n) \<Rightarrow> n)"

lemma strtol_clamp:
  "strtol s base e = (clamp int64_t (leading_value s base), leading_length s base,
     if in_range int64_t (leading_value s base) then e else ERANGE)"
  by (auto simp: strtol_def leading_value_def leading_length_def clamp_def in_range_def Let_def
      int_types split: prod.splits)

lemma wrap_to_id: "in_range T v \<Longrightarrow> wrap_to T v = v"
  by (simp add: wrap_to_def in_range_def)

lemma clamp_in_range: "it_min T \<le> it_max T \<Longrightarrow> in_range T (clamp T v)"
  by (simp add: clamp_def in_range_def)

lemma clamp_id: "in_range T v \<Longrightarrow> clamp T v = v"
  by (simp add: clamp_def in_range_def)

lemma strto32_clamp:
  "strto32 s base e = (clamp int32_t (leading_value s base), leading_length s base,
     if in_range int32_t (leading_value s base) then e else ERANGE)"
proof -
  let ?v = "leading_value s base"
  consider "?v < it_min int64_t" | "?v > it_max int64_t"
    | "in_range int64_t ?v" "?v < it_min int32_t" | "in_range int64_t ?v" "?v > it_max int32_t"
    | "in_range int32_t ?v"
    by (fastforce simp: in_range_def)
  then show ?thesis
  proof cases
    case 5
    then have "in_range int64_t ?v" by (simp add: in_range_def int_types)
    with 5 show ?thesis
      by (simp add: strto32_def strto32_adapter_def strtol_clamp clamp_id wrap_to_id ERANGE_def)
         (simp add: in_range_def)
  qed (simp_all add: strto32_def strto32_adapter_def strtol_clamp ERANGE_def clamp_def in_range_def
      int_types)
qed

lemma bool_word_loop_eq:
  "length val \<le> 6 \<Longrightarrow>
     bool_word_loop str val = val @ map ascii_tolower (take (6 - length val) (takeWhile ascii_isalnum str))"
proof (induction str val rule: bool_word_loop.induct)
  case (2 c str val)
  show ?case
  proof (cases "length val \<le> 5 \<and> ascii_isalnum c")
    case True
    then have "6 - length val = Suc (5 - length val)" by auto
    with 2 True show ?thesis by simp
  next
    case False
    with 2 show ?thesis by auto
  qed
qed simp

lemma parse_bool_word_eq:
  "parse_bool_word w deflt =
     (if w \<in> {''0'', ''n'', ''no'', ''false''} then False
      else if w \<in> {''1'', ''y'', ''yes'', ''true''} then True else deflt)"
proof (cases "length w = 1")
  case True
  then obtain c where "w = [c]" by (cases w) auto
  then show ?thesis by (simp add: parse_bool_word_def)
next
  case False
  then show ?thesis by (auto simp: parse_bool_word_def Let_def)
qed

subsection \<open>Properties\<close>

text \<open>C17: every \<open>safe_strto*\<close> parser runs without signed overflow or failed assert on every text and
  every base, returns true exactly when the text is white space, optional sign, base prefix and digits
  denoting a representable value, and otherwise leaves the documented best effort (the limit on
  overflow, the value of the valid prefix on a bad character).\<close>

theorem safe_strto_exact:
  "safe_strto32_base str base = Some (strto_spec int32_t str base) \<and>
   safe_strto64_base str base = Some (strto_spec int64_t str base) \<and>
   safe_strtou32_base str base = Some (strto_spec uint32_t str base) \<and>
   safe_strtou64_base str base = Some (strto_spec uint64_t str base) \<and>
   safe_strtosize_t_base str base = Some (strto_spec uint64_t str base)"
  unfolding safe_strto32_base_def safe_strto64_base_def safe_strtou32_base_def
    safe_strtou64_base_def safe_strtosize_t_base_def
  by (simp add: safe_strto_specs int_types)

lemma strto_spec_printed:
  assumes "\<forall>c\<in>set ws. ascii_isspace c" and "\<forall>c\<in>set ws'. ascii_isspace c" and "it_min T \<le> 0" and "0 < it_max T"
  shows "strto_spec T (ws @ show_int v @ ws') 10 = (in_range T v, clamp T v)"
  using assms(3,4)
  by (auto simp: strto_spec_def sign_and_base_decimal [OF assms(1,2)] dec_digits_ok dec_digits_value
      in_range_def clamp_def Let_def)

lemma StringAsValue_show:
  assumes "in_range int64_t v"
  shows "StringAsValue int64_t (show_int v) = Some (True, v)"
proof -
  have "strto_spec int64_t ([] @ show_int v @ []) 10 = (in_range int64_t v, clamp int64_t v)"
    by (rule strto_spec_printed) (simp_all add: int_types)
  then have "safe_strto64 (show_int v) = Some (True, v)"
    using assms unfolding safe_strto64_def safe_strto64_base_def by (simp add: safe_strto_specs int_types clamp_def in_range_def)
  moreover have "wrap_to int64_t v = v" using assms by (simp add: wrap_to_id)
  ultimately show ?thesis by (simp add: StringAsValue_def int_types)
qed

text \<open>Parsing inverts decimal printing: the rendering of any representable integer, with any white
  space around it, parses to that integer at 32 and at 64 bits, signed and unsigned, and the rendering
  of an unrepresentable one is refused.\<close>

theorem safe_strto_roundtrip:
  assumes "\<forall>c\<in>set ws. ascii_isspace c" and "\<forall>c\<in>set ws'. ascii_isspace c"
  shows "safe_strto32 (ws @ show_int v @ ws') = Some (in_range int32_t v, clamp int32_t v) \<and>
    safe_strto64 (ws @ show_int v @ ws') = Some (in_range int64_t v, clamp int64_t v) \<and>
    safe_strtou32 (ws @ show_int v @ ws') = Some (in_range uint32_t v, clamp uint32_t v) \<and>
    safe_strtou64 (ws @ show_int v @ ws') = Some (in_range uint64_t v, clamp uint64_t v)"
proof -
  note strto_spec_printed [OF assms]
  then show ?thesis
    unfolding safe_strto32_def safe_strto64_def safe_strtou32_def safe_strtou64_def
      safe_strto32_base_def safe_strto64_base_def safe_strtou32_base_def safe_strtou64_base_def
    by (simp add: safe_strto_specs int_types)
qed

theorem safe_strto_roundtrip_witness: "safe_strto32 '' -305 '' = Some (True, - 305)"
proof -
  have "show_int (- 305) = ''-305''"
    by code_simp
  then show ?thesis
    using safe_strto_roundtrip [of "'' ''" "'' ''" "- 305"]
    by (simp add: isspace_uc uc_def in_range_def clamp_def int_types)
qed

text \<open>The \<open>ParseLeading\<close> readers and the 32-bit \<open>strtol\<close> adapter return the exact value of the
  longest leading number clamped to 32 bits, also where the 64-bit \<open>strtol\<close> itself saturates; the
  adapter sets \<open>errno\<close> to \<open>ERANGE\<close> exactly when it clamped and leaves it alone otherwise; without a
  number the default is returned.\<close>

theorem leading_numbers_clamped:
  "ParseLeadingDec32Value str d =
     (if leading_length str 10 = 0 then d else clamp int32_t (leading_value str 10)) \<and>
   ParseLeadingInt32Value str d =
     (if leading_length str 0 = 0 then d else clamp int32_t (leading_value str 0)) \<and>
   ParseLeadingDec64Value str d =
     (if leading_length str 10 = 0 then d else clamp int64_t (leading_value str 10)) \<and>
   strto32 str base e = (clamp int32_t (leading_value str base), leading_length str base,
     if in_range int32_t (leading_value str base) then e else ERANGE)"
  by (auto simp: ParseLeadingDec32Value_def ParseLeadingInt32Value_def ParseLeadingDec64Value_def
      strto32_clamp strtol_clamp Let_def clamp_def int_types)

text \<open>\<open>ParseLeadingBoolValue\<close> never overruns its six-byte buffer and answers by the first word
  alone, case-insensitively: false for 0, n, no, false; true for 1, y, yes, true; the default
  for every other word, however long, and for none.\<close>

theorem leading_bool_words:
  "ParseLeadingBoolValue str deflt =
     (let w = map ascii_tolower (takeWhile ascii_isalnum (dropWhile ascii_isspace str)) in
      if w \<in> {''0'', ''n'', ''no'', ''false''} then False
      else if w \<in> {''1'', ''y'', ''yes'', ''true''} then True else deflt) \<and>
   length (bool_word_loop (dropWhile ascii_isspace str) []) \<le> 6"
proof -
  let ?w = "takeWhile ascii_isalnum (dropWhile ascii_isspace str)"
  have val: "bool_word_loop (dropWhile ascii_isspace str) [] = take 6 (map ascii_tolower ?w)"
    using bool_word_loop_eq [of "[]"] by (simp add: take_map)
  have len: "take 6 (map ascii_tolower ?w) = map ascii_tolower ?w" if "length ?w \<le> 5"
    using that by simp
  show ?thesis
  proof (cases "length ?w \<le> 5")
    case True
    then show ?thesis
      unfolding ParseLeadingBoolValue_def val len [OF True] Let_def
      by (simp only: parse_bool_word_eq) simp
  next
    case False
    then have long: "length (take 6 (map ascii_tolower ?w)) = 6"
      and long': "length (map ascii_tolower ?w) \<ge> 6" by auto
    have no: "w \<notin> {''0'', ''n'', ''no'', ''false'', ''1'', ''y'', ''yes'', ''true''}"
      if "length w \<ge> 6" for w :: string
      using that by auto
    show ?thesis
      unfolding ParseLeadingBoolValue_def val Let_def parse_bool_word_eq
      using no [OF long'] no [of "take 6 (map ascii_tolower ?w)"] long by simp
  qed
qed

end
