(* ===== verification/Pickle.thy ===== *)
theory Pickle
  imports Bits String_Piece
begin

text \<open>
  \<^verbatim>\<open>base/pickle.h\<close> and \<^verbatim>\<open>.cc\<close>: the binary serialiser. A \<open>Pickle\<close> is a heap block, the header with the
  32-bit payload size followed by \<open>capacity_after_header\<close> bytes; the model keeps the bytes of the
  block, so that the payload size is read and written in place as the code does. \<open>junk\<close> is the
  contents \<open>realloc\<close> leaves in new memory. A definition returns \<open>None\<close> for a failed CHECK or DCHECK
  and for an access outside the block; the theorems show which calls cannot end there.
\<close>

unbundle bit_operations_syntax

subsection \<open>Memory\<close>

definition size_align :: "nat \<Rightarrow> nat \<Rightarrow> nat option" where
  "size_align n a = map_option unat (Align (word_of_nat n) (word_of_nat a))"

definition int_to_size :: "int \<Rightarrow> nat" where
  "int_to_size i = nat (i mod 2 ^ 64)"

definition mem_write :: "byte list \<Rightarrow> nat \<Rightarrow> byte list \<Rightarrow> byte list option" where
  "mem_write blk i bs =
     (if i + length bs \<le> length blk then Some (take i blk @ bs @ drop (i + length bs) blk) else None)"

definition mem_read :: "byte list \<Rightarrow> nat \<Rightarrow> nat \<Rightarrow> byte list option" where
  "mem_read blk i n = (if i + n \<le> length blk then Some (take n (drop i blk)) else None)"

definition realloc :: "(nat \<Rightarrow> byte) \<Rightarrow> byte list \<Rightarrow> nat \<Rightarrow> byte list" where
  "realloc junk blk n = take n blk @ map junk [length blk..<n]"

subsection \<open>\<open>Pickle\<close>\<close>

text \<open>\<open>header\<close> is the block, \<open>None\<close> the null pointer; \<open>sizeof(Header)\<close> is 4.\<close>

record pickle =
  header :: "byte list option"
  header_size :: nat
  capacity_after_header :: nat
  write_offset :: nat

definition kPayloadUnit :: nat where "kPayloadUnit = 64"

definition kCapacityReadOnly :: nat where "kCapacityReadOnly = npos"

definition uint32_max :: nat where "uint32_max = 2 ^ 32 - 1"

definition hdr_payload_size :: "byte list \<Rightarrow> nat" where
  "hdr_payload_size blk = unat (le_word (take 4 blk) :: u32)"

definition set_payload_size :: "byte list \<Rightarrow> nat \<Rightarrow> byte list option" where
  "set_payload_size blk n = mem_write blk 0 (le_bytes 4 (word_of_nat n :: u32))"

definition payload_size :: "pickle \<Rightarrow> nat" where
  "payload_size p = (case header p of None \<Rightarrow> 0 | Some blk \<Rightarrow> hdr_payload_size blk)"

definition pickle_size :: "pickle \<Rightarrow> nat option" where
  "pickle_size p = map_option (\<lambda>blk. header_size p + hdr_payload_size blk) (header p)"

definition GetTotalAllocatedSize :: "pickle \<Rightarrow> nat" where
  "GetTotalAllocatedSize p =
     (if capacity_after_header p = kCapacityReadOnly then 0
      else size_add (header_size p) (capacity_after_header p))"

definition Resize :: "(nat \<Rightarrow> byte) \<Rightarrow> pickle \<Rightarrow> nat \<Rightarrow> pickle option" where
  "Resize junk p new_capacity = do {
     CHECK (capacity_after_header p \<noteq> kCapacityReadOnly);
     cap \<leftarrow> size_align new_capacity kPayloadUnit;
     let p = p\<lparr>capacity_after_header := cap\<rparr>;
     let old = (case header p of None \<Rightarrow> [] | Some blk \<Rightarrow> blk);
     Some (p\<lparr>header := Some (realloc junk old (GetTotalAllocatedSize p))\<rparr>) }"

definition reset_payload :: "pickle \<Rightarrow> pickle option" where
  "reset_payload p = do {
     blk \<leftarrow> header p;
     blk \<leftarrow> set_payload_size blk 0;
     Some (p\<lparr>header := Some blk\<rparr>) }"

definition Pickle_default :: "(nat \<Rightarrow> byte) \<Rightarrow> pickle option" where
  "Pickle_default junk = do {
     p \<leftarrow> Resize junk \<lparr>header = None, header_size = 4, capacity_after_header = 0, write_offset = 0\<rparr>
            kPayloadUnit;
     reset_payload p }"

definition Pickle_header :: "(nat \<Rightarrow> byte) \<Rightarrow> int \<Rightarrow> pickle option" where
  "Pickle_header junk hsize = do {
     hs \<leftarrow> size_align (int_to_size hsize) 4;
     CHECK (int_to_size hsize \<ge> 4);
     CHECK (hsize \<le> int kPayloadUnit);
     p \<leftarrow> Resize junk \<lparr>header = None, header_size = hs, capacity_after_header = 0, write_offset = 0\<rparr>
            kPayloadUnit;
     reset_payload p }"

text \<open>The view of a received buffer. \<open>data_len - header_->payload_size\<close> is computed in 32 bits.\<close>

definition Pickle_data :: "byte list \<Rightarrow> int \<Rightarrow> pickle option" where
  "Pickle_data data data_len = do {
     hs \<leftarrow> (if data_len \<ge> 4
            then do {
              bs \<leftarrow> mem_read data 0 4;
              Some (nat ((data_len - int (hdr_payload_size bs)) mod 2 ^ 32)) }
            else Some 0);
     let hs = (if hs > nat (data_len mod 2 ^ 32) then 0 else hs);
     al \<leftarrow> size_align hs 4;
     let hs = (if hs \<noteq> al then 0 else hs);
     Some \<lparr>header = (if hs = 0 then None else Some data), header_size = hs,
           capacity_after_header = kCapacityReadOnly, write_offset = 0\<rparr> }"

text \<open>\<open>memcpy(header_, other.header_, header_size_ + other.header_->payload_size)\<close>\<close>

definition copy_block :: "pickle \<Rightarrow> byte list \<Rightarrow> pickle option" where
  "copy_block p other_blk = do {
     blk \<leftarrow> header p;
     bs \<leftarrow> mem_read other_blk 0 (header_size p + hdr_payload_size other_blk);
     blk \<leftarrow> mem_write blk 0 bs;
     Some (p\<lparr>header := Some blk\<rparr>) }"

definition Pickle_copy :: "(nat \<Rightarrow> byte) \<Rightarrow> pickle \<Rightarrow> pickle option" where
  "Pickle_copy junk other = do {
     oblk \<leftarrow> header other;
     p \<leftarrow> Resize junk \<lparr>header = None, header_size = header_size other,
            capacity_after_header = 0, write_offset = write_offset other\<rparr> (hdr_payload_size oblk);
     copy_block p oblk }"

definition Pickle_assign :: "(nat \<Rightarrow> byte) \<Rightarrow> pickle \<Rightarrow> pickle \<Rightarrow> pickle option" where
  "Pickle_assign junk p other = do {
     let p = (if capacity_after_header p = kCapacityReadOnly
              then p\<lparr>header := None, capacity_after_header := 0\<rparr> else p);
     let p = (if header_size p \<noteq> header_size other
              then p\<lparr>header := None, header_size := header_size other\<rparr> else p);
     oblk \<leftarrow> header other;
     p \<leftarrow> Resize junk p (hdr_payload_size oblk);
     p \<leftarrow> copy_block p oblk;
     Some (p\<lparr>write_offset := write_offset other\<rparr>) }"

text \<open>The growth step of \<open>ClaimUninitializedBytesInternal\<close>: at least double, on 4 KB multiples less one
  payload unit.\<close>

definition grow :: "(nat \<Rightarrow> byte) \<Rightarrow> pickle \<Rightarrow> nat \<Rightarrow> pickle option" where
  "grow junk p new_size =
     (if new_size > capacity_after_header p
      then do {
        let new_capacity = (capacity_after_header p * 2) mod size_max;
        new_capacity \<leftarrow> (if new_capacity > 4096
          then map_option (\<lambda>a. size_sub a kPayloadUnit) (size_align new_capacity 4096)
          else Some new_capacity);
        Resize junk p (max new_capacity new_size) }
      else Some p)"

text \<open>The offset of the claimed bytes in the block is returned with the pickle.\<close>

definition ClaimUninitializedBytesInternal ::
    "(nat \<Rightarrow> byte) \<Rightarrow> pickle \<Rightarrow> nat \<Rightarrow> (pickle \<times> nat) option" where
  "ClaimUninitializedBytesInternal junk p len = do {
     CHECK (kCapacityReadOnly \<noteq> capacity_after_header p);
     data_len \<leftarrow> size_align len 4;
     CHECK (data_len \<ge> len);
     CHECK (data_len \<le> uint32_max);
     CHECK (write_offset p \<le> uint32_max - data_len);
     let new_size = write_offset p + data_len;
     p \<leftarrow> grow junk p new_size;
     blk \<leftarrow> header p;
     let write = header_size p + write_offset p;
     blk \<leftarrow> mem_write blk (write + len) (replicate (data_len - len) 0);
     blk \<leftarrow> set_payload_size blk new_size;
     Some (p\<lparr>header := Some blk, write_offset := new_size\<rparr>, write) }"

definition ClaimBytes :: "(nat \<Rightarrow> byte) \<Rightarrow> pickle \<Rightarrow> nat \<Rightarrow> (pickle \<times> nat) option" where
  "ClaimBytes junk p num_bytes = do {
     (p, write) \<leftarrow> ClaimUninitializedBytesInternal junk p num_bytes;
     blk \<leftarrow> header p;
     blk \<leftarrow> mem_write blk write (replicate num_bytes 0);
     Some (p\<lparr>header := Some blk\<rparr>, write) }"

definition WriteBytesCommon :: "(nat \<Rightarrow> byte) \<Rightarrow> pickle \<Rightarrow> byte list \<Rightarrow> nat \<Rightarrow> pickle option" where
  "WriteBytesCommon junk p data len = do {
     CHECK (kCapacityReadOnly \<noteq> capacity_after_header p);
     (p, write) \<leftarrow> ClaimUninitializedBytesInternal junk p len;
     blk \<leftarrow> header p;
     bs \<leftarrow> mem_read data 0 len;
     blk \<leftarrow> mem_write blk write bs;
     Some (p\<lparr>header := Some blk\<rparr>) }"

definition Reserve :: "(nat \<Rightarrow> byte) \<Rightarrow> pickle \<Rightarrow> nat \<Rightarrow> pickle option" where
  "Reserve junk p len = do {
     data_len \<leftarrow> size_align len 4;
     CHECK (data_len \<ge> len);
     CHECK (data_len \<le> uint32_max);
     CHECK (write_offset p \<le> uint32_max - data_len);
     let new_size = write_offset p + data_len;
     (if new_size > capacity_after_header p
      then Resize junk p ((capacity_after_header p * 2 + new_size) mod size_max)
      else Some p) }"

text \<open>\<open>WritePOD\<close> copies the object representation, here the little-endian bytes of a word. The
  \<open>Write*\<close> functions return true.\<close>

definition WriteBytes :: "(nat \<Rightarrow> byte) \<Rightarrow> pickle \<Rightarrow> byte list \<Rightarrow> int \<Rightarrow> pickle option" where
  "WriteBytes junk p data len = WriteBytesCommon junk p data (int_to_size len)"

definition WriteInt16 :: "(nat \<Rightarrow> byte) \<Rightarrow> pickle \<Rightarrow> u16 \<Rightarrow> pickle option" where
  "WriteInt16 junk p v = WriteBytesCommon junk p (le_bytes 2 v) 2"

definition WriteInt32 :: "(nat \<Rightarrow> byte) \<Rightarrow> pickle \<Rightarrow> u32 \<Rightarrow> pickle option" where
  "WriteInt32 junk p v = WriteBytesCommon junk p (le_bytes 4 v) 4"

definition WriteInt64 :: "(nat \<Rightarrow> byte) \<Rightarrow> pickle \<Rightarrow> u64 \<Rightarrow> pickle option" where
  "WriteInt64 junk p v = WriteBytesCommon junk p (le_bytes 8 v) 8"

definition WriteBool :: "(nat \<Rightarrow> byte) \<Rightarrow> pickle \<Rightarrow> bool \<Rightarrow> pickle option" where
  "WriteBool junk p b = WriteInt32 junk p (if b then 1 else 0)"

definition WriteString :: "(nat \<Rightarrow> byte) \<Rightarrow> pickle \<Rightarrow> byte list \<Rightarrow> pickle option" where
  "WriteString junk p s = do {
     p \<leftarrow> WriteInt32 junk p (word_of_nat (length s));
     WriteBytes junk p s (sint (word_of_nat (length s) :: u32)) }"

text \<open>\<open>WriteData\<close> can return false, before or without any effect.\<close>

definition WriteData :: "(nat \<Rightarrow> byte) \<Rightarrow> pickle \<Rightarrow> byte list \<Rightarrow> int \<Rightarrow> (pickle \<times> bool) option" where
  "WriteData junk p data len =
     (if len \<ge> 0
      then do {
        p \<leftarrow> WriteInt32 junk p (word_of_int len);
        p \<leftarrow> WriteBytes junk p data len;
        Some (p, True) }
      else Some (p, False))"

subsection \<open>\<open>PickleSizer\<close>\<close>

definition AddBytes :: "nat \<Rightarrow> int \<Rightarrow> nat option" where
  "AddBytes acc len = map_option (size_add acc) (size_align (int_to_size len) 4)"

definition AddInt16 :: "nat \<Rightarrow> nat option" where "AddInt16 n = AddBytes n 2"

definition AddInt32 :: "nat \<Rightarrow> nat option" where "AddInt32 n = AddBytes n 4"

definition AddInt64 :: "nat \<Rightarrow> nat option" where "AddInt64 n = AddBytes n 8"

definition AddBool :: "nat \<Rightarrow> nat option" where "AddBool n = AddInt32 n"

definition AddString :: "nat \<Rightarrow> byte list \<Rightarrow> nat option" where
  "AddString n s = do { n \<leftarrow> AddInt32 n; AddBytes n (sint (word_of_nat (length s) :: u32)) }"

definition AddData :: "nat \<Rightarrow> int \<Rightarrow> nat option" where
  "AddData n len = do { CHECK (len \<ge> 0); n \<leftarrow> AddInt32 n; AddBytes n len }"

subsection \<open>\<open>PickleIterator\<close>\<close>

text \<open>\<open>payload\<close> is the memory from \<open>payload_\<close> to the end of its block. A read returns the value
  (\<open>None\<close> for false) with the iterator; the outer \<open>None\<close> is a read outside the block.\<close>

record pickle_iterator =
  payload :: "byte list"
  read_index :: nat
  end_index :: nat

definition PickleIterator :: "pickle \<Rightarrow> pickle_iterator" where
  "PickleIterator p =
     \<lparr>payload = (case header p of None \<Rightarrow> [] | Some blk \<Rightarrow> drop (header_size p) blk),
      read_index = 0, end_index = payload_size p\<rparr>"

definition Advance :: "pickle_iterator \<Rightarrow> nat \<Rightarrow> pickle_iterator option" where
  "Advance it n = do {
     aligned_size \<leftarrow> size_align n 4;
     Some (if size_sub (end_index it) (read_index it) < aligned_size
           then it\<lparr>read_index := end_index it\<rparr>
           else it\<lparr>read_index := size_add (read_index it) aligned_size\<rparr>) }"

definition GetReadPointerAndAdvance_type ::
    "pickle_iterator \<Rightarrow> nat \<Rightarrow> (nat option \<times> pickle_iterator) option" where
  "GetReadPointerAndAdvance_type it sizeof_type =
     (if sizeof_type > size_sub (end_index it) (read_index it)
      then Some (None, it\<lparr>read_index := end_index it\<rparr>)
      else do {
        let current_read_ptr = read_index it;
        it \<leftarrow> Advance it sizeof_type;
        Some (Some current_read_ptr, it) })"

definition GetReadPointerAndAdvance ::
    "pickle_iterator \<Rightarrow> int \<Rightarrow> (nat option \<times> pickle_iterator) option" where
  "GetReadPointerAndAdvance it num_bytes =
     (if num_bytes < 0 \<or> size_sub (end_index it) (read_index it) < int_to_size num_bytes
      then Some (None, it\<lparr>read_index := end_index it\<rparr>)
      else do {
        let current_read_ptr = read_index it;
        it \<leftarrow> Advance it (int_to_size num_bytes);
        Some (Some current_read_ptr, it) })"

definition load :: "nat option \<times> pickle_iterator \<Rightarrow> nat \<Rightarrow> (byte list option \<times> pickle_iterator) option" where
  "load r n = (case r of (None, it) \<Rightarrow> Some (None, it)
     | (Some i, it) \<Rightarrow> map_option (\<lambda>bs. (Some bs, it)) (mem_read (payload it) i n))"

definition ReadBuiltinType ::
    "pickle_iterator \<Rightarrow> nat \<Rightarrow> (byte list option \<times> pickle_iterator) option" where
  "ReadBuiltinType it sizeof_type = do {
     r \<leftarrow> GetReadPointerAndAdvance_type it sizeof_type;
     load r sizeof_type }"

definition ReadWord :: "pickle_iterator \<Rightarrow> nat \<Rightarrow> ('a::len word option \<times> pickle_iterator) option" where
  "ReadWord it n = map_option (\<lambda>(bs, it). (map_option le_word bs, it)) (ReadBuiltinType it n)"

definition ReadInt16 :: "pickle_iterator \<Rightarrow> (u16 option \<times> pickle_iterator) option" where
  "ReadInt16 it = ReadWord it 2"

definition ReadInt32 :: "pickle_iterator \<Rightarrow> (u32 option \<times> pickle_iterator) option" where
  "ReadInt32 it = ReadWord it 4"

definition ReadInt64 :: "pickle_iterator \<Rightarrow> (u64 option \<times> pickle_iterator) option" where
  "ReadInt64 it = ReadWord it 8"

text \<open>\<open>sizeof(bool)\<close> is 1; a non-zero byte reads as true.\<close>

definition ReadBool :: "pickle_iterator \<Rightarrow> (bool option \<times> pickle_iterator) option" where
  "ReadBool it =
     map_option (\<lambda>(bs, it). (map_option (\<lambda>bs. le_word bs \<noteq> (0 :: byte)) bs, it)) (ReadBuiltinType it 1)"

definition ReadBytes :: "pickle_iterator \<Rightarrow> int \<Rightarrow> (byte list option \<times> pickle_iterator) option" where
  "ReadBytes it len = do {
     r \<leftarrow> GetReadPointerAndAdvance it len;
     load r (int_to_size len) }"

definition ReadString :: "pickle_iterator \<Rightarrow> (byte list option \<times> pickle_iterator) option" where
  "ReadString it = do {
     (len, it) \<leftarrow> ReadInt32 it;
     case len of None \<Rightarrow> Some (None, it) | Some len \<Rightarrow> ReadBytes it (sint len) }"

definition ReadStringPiece :: "pickle_iterator \<Rightarrow> (byte list option \<times> pickle_iterator) option" where
  "ReadStringPiece it = do {
     (len, it) \<leftarrow> ReadInt32 it;
     case len of None \<Rightarrow> Some (None, it) | Some len \<Rightarrow> ReadBytes it (sint len) }"

definition ReadData :: "pickle_iterator \<Rightarrow> (byte list option \<times> pickle_iterator) option" where
  "ReadData it = do {
     (len, it) \<leftarrow> ReadInt32 it;
     case len of None \<Rightarrow> Some (None, it) | Some len \<Rightarrow> ReadBytes it (sint len) }"

definition ReadLength :: "pickle_iterator \<Rightarrow> (int option \<times> pickle_iterator) option" where
  "ReadLength it = map_option (\<lambda>(v, it).
     ((case v of None \<Rightarrow> None | Some w \<Rightarrow> if sint w \<ge> 0 then Some (sint w) else None), it)) (ReadInt32 it)"

definition SkipBytes :: "pickle_iterator \<Rightarrow> int \<Rightarrow> (bool \<times> pickle_iterator) option" where
  "SkipBytes it num_bytes =
     map_option (\<lambda>(r, it). (r \<noteq> None, it)) (GetReadPointerAndAdvance it num_bytes)"

subsection \<open>Finding the end of a pickle in a buffer\<close>

text \<open>The range from \<open>start\<close> to \<open>end\<close> is the list \<open>buf\<close>; the result is the return value and
  \<open>*pickle_size\<close>.\<close>

definition PeekNext :: "nat \<Rightarrow> byte list \<Rightarrow> (nat option) option" where
  "PeekNext hsize buf = do {
     al \<leftarrow> size_align hsize 4;
     CHECK (hsize = al);
     CHECK (hsize \<ge> 4);
     CHECK (hsize \<le> kPayloadUnit);
     Some (if length buf < 4 then None
           else if length buf < hsize then None
           else if hdr_payload_size buf > npos - hsize then Some npos
           else Some (hsize + hdr_payload_size buf)) }"

definition FindNext :: "nat \<Rightarrow> byte list \<Rightarrow> (nat option) option" where
  "FindNext hsize buf = do {
     r \<leftarrow> PeekNext hsize buf;
     Some (case r of None \<Rightarrow> None
           | Some n \<Rightarrow> if n > length buf then None else Some n) }"

subsection \<open>Lemmas: memory\<close>

lemma size_align_pow2:
  assumes "k < 64" and "n + 2 ^ k \<le> 2 ^ 64"
  shows "size_align n (2 ^ k) = Some (align_up (2 ^ k) n)"
proof -
  have "0 < (2::nat) ^ k" by simp
  then have n: "n < 2 ^ 64" and bound: "n + 2 ^ k - 1 < 2 ^ 64" using assms(2) by linarith+
  then have un: "unat (word_of_nat n :: u64) = n" by (simp add: unsigned_of_nat take_bit_nat_eq_self)
  with assms obtain r where "Align (word_of_nat n) (2 ^ k) = Some r" "unat r = align_up (2 ^ k) n"
    using Align_pow2 [of k "word_of_nat n"] bound by auto
  then show ?thesis by (simp add: size_align_def)
qed

lemma size_align_4: "n + 4 \<le> 2 ^ 64 \<Longrightarrow> size_align n 4 = Some (align_up 4 n)"
  using size_align_pow2 [of 2 n] by simp

lemma size_align_64: "n + 64 \<le> 2 ^ 64 \<Longrightarrow> size_align n 64 = Some (align_up 64 n)"
  using size_align_pow2 [of 6 n] by simp

lemma size_align_4096: "n + 4096 \<le> 2 ^ 64 \<Longrightarrow> size_align n 4096 = Some (align_up 4096 n)"
  using size_align_pow2 [of 12 n] by simp

text \<open>A byte memory, by what a read sees after a write, and the three writes that append a record:
  padding, the updated size field, the data.\<close>

locale byte_memory =
  fixes rd :: "'m \<Rightarrow> nat \<Rightarrow> nat \<Rightarrow> byte list option"
    and wr :: "'m \<Rightarrow> nat \<Rightarrow> byte list \<Rightarrow> 'm option"
  assumes rd_wr_same: "wr m i bs = Some m' \<Longrightarrow> rd m' i (length bs) = Some bs"
    and rd_wr_other: "wr m i bs = Some m' \<Longrightarrow> j + n \<le> i \<or> i + length bs \<le> j \<Longrightarrow> rd m' j n = rd m j n"
    and rd_append: "rd m i (a + b) =
      Option.bind (rd m i a) (\<lambda>x. Option.bind (rd m (i + a) b) (\<lambda>y. Some (x @ y)))"
begin

lemma append_record:
  assumes "wr m (w + length d) z = Some m1" and "wr m1 0 h = Some m2" and "wr m2 w d = Some m3"
    and "length h \<le> w0" and "rd m w0 n = Some old" and "w = w0 + n"
  shows "rd m3 w0 (n + (length d + length z)) = Some (old @ d @ z)" and "rd m3 0 (length h) = Some h"
proof -
  have "rd m3 w0 n = Some old"
    using assms(4-6) rd_wr_other [OF assms(3), of w0 n] rd_wr_other [OF assms(2), of w0 n]
      rd_wr_other [OF assms(1), of w0 n] by simp
  moreover have "rd m3 w (length d) = Some d"
    by (rule rd_wr_same [OF assms(3)])
  moreover have "rd m3 (w + length d) (length z) = Some z"
    using assms(4,6) rd_wr_same [OF assms(1)] rd_wr_other [OF assms(2), of "w + length d" "length z"]
      rd_wr_other [OF assms(3), of "w + length d" "length z"] by simp
  ultimately show "rd m3 w0 (n + (length d + length z)) = Some (old @ d @ z)"
    using assms(6) by (simp add: rd_append)
  show "rd m3 0 (length h) = Some h"
    using assms(4,6) rd_wr_same [OF assms(2)] rd_wr_other [OF assms(3), of 0 "length h"] by simp
qed

end

lemma mem_read_append:
  "mem_read m i (a + b) =
     Option.bind (mem_read m i a) (\<lambda>x. Option.bind (mem_read m (i + a) b) (\<lambda>y. Some (x @ y)))"
  by (auto simp: mem_read_def take_add add.commute add.left_commute)

lemma mem_read_write_other:
  assumes "mem_write m i bs = Some m'" and "j + n \<le> i \<or> i + length bs \<le> j"
  shows "mem_read m' j n = mem_read m j n"
proof -
  from assms(1) have le: "i + length bs \<le> length m" and
    m': "m' = take i m @ bs @ drop (i + length bs) m"
    by (auto simp: mem_write_def split: if_splits)
  from assms(2) have "take n (drop j m') = take n (drop j m)"
  proof
    assume j: "j + n \<le> i"
    then have "drop j m' = take (i - j) (drop j m) @ bs @ drop (i + length bs) m"
      and "length (take (i - j) (drop j m)) = i - j"
      using le by (simp_all add: m' drop_take)
    moreover have "min n (i - j) = n" "n - (i - j) = 0" using j by auto
    ultimately show ?thesis by (simp only: take_append take_take take0 append_Nil2)
  next
    assume j: "i + length bs \<le> j"
    then have "drop j m' = drop (j - (i + length bs) + (i + length bs)) m"
      using le by (simp add: m' del: le_add_diff_inverse2)
    then show ?thesis using j by simp
  qed
  then show ?thesis using le by (simp add: mem_read_def m')
qed

lemma mem_read_write_same: "mem_write m i bs = Some m' \<Longrightarrow> mem_read m' i (length bs) = Some bs"
  by (auto simp: mem_write_def mem_read_def split: if_splits)

interpretation heap_block: byte_memory mem_read mem_write
  by unfold_locales
    (fact mem_read_write_same, fact mem_read_write_other, fact mem_read_append)

lemma length_mem_write: "mem_write m i bs = Some m' \<Longrightarrow> length m' = length m"
  by (auto simp: mem_write_def split: if_splits)

lemma length_mem_read: "mem_read m i n = Some bs \<Longrightarrow> length bs = n"
  by (auto simp: mem_read_def split: if_splits)

lemma mem_write_ok: "i + length bs \<le> length m \<Longrightarrow> \<exists>m'. mem_write m i bs = Some m'"
  by (simp add: mem_write_def)

lemma length_realloc [simp]: "length (realloc junk blk n) = n"
  by (simp add: realloc_def)

lemma mem_read_realloc: "i + n \<le> length blk \<Longrightarrow> i + n \<le> k \<Longrightarrow> mem_read (realloc junk blk k) i n = mem_read blk i n"
  by (auto simp: mem_read_def realloc_def min_def drop_take)

lemma hdr_payload_size_read:
  "mem_read blk 0 4 = Some (le_bytes 4 (word_of_nat n :: u32)) \<Longrightarrow> n < 2 ^ 32 \<Longrightarrow> hdr_payload_size blk = n"
  by (auto simp: mem_read_def hdr_payload_size_def unsigned_of_nat take_bit_nat_eq_self split: if_splits)

subsection \<open>Lemmas: the invariant of a writable pickle\<close>

definition pickle_ok :: "pickle \<Rightarrow> bool" where
  "pickle_ok p \<longleftrightarrow>
     (case header p of None \<Rightarrow> False
      | Some blk \<Rightarrow> length blk = header_size p + capacity_after_header p \<and>
          mem_read blk 0 4 = Some (le_bytes 4 (word_of_nat (write_offset p) :: u32))) \<and>
     write_offset p \<le> capacity_after_header p \<and> write_offset p \<le> uint32_max \<and>
     capacity_after_header p < 2 ^ 34 \<and> 64 dvd capacity_after_header p \<and>
     4 dvd write_offset p \<and> 4 dvd header_size p \<and> 4 \<le> header_size p \<and> header_size p \<le> 64"

text \<open>The abstract value of a writable pickle: the bytes written so far.\<close>

definition payload_of :: "pickle \<Rightarrow> byte list" where
  "payload_of p =
     (case header p of None \<Rightarrow> [] | Some blk \<Rightarrow> take (write_offset p) (drop (header_size p) blk))"

definition pad4 :: "byte list \<Rightarrow> byte list" where
  "pad4 d = d @ replicate (align_up 4 (length d) - length d) 0"

lemma length_pad4 [simp]: "length (pad4 d) = align_up 4 (length d)"
  using align_up_ge [of 4 "length d"] by (simp add: pad4_def)

lemma kCapacityReadOnly_eq: "kCapacityReadOnly = 2 ^ 64 - 1"
  by (simp add: kCapacityReadOnly_def npos_def size_max_def)

lemma pickle_okE:
  assumes "pickle_ok p"
  obtains blk where "header p = Some blk" "length blk = header_size p + capacity_after_header p"
    "mem_read blk 0 4 = Some (le_bytes 4 (word_of_nat (write_offset p) :: u32))"
    "mem_read blk (header_size p) (write_offset p) = Some (payload_of p)"
  using assms by (auto simp: pickle_ok_def payload_of_def mem_read_def split: option.splits)

lemma pickle_ok_payload_size: "pickle_ok p \<Longrightarrow> payload_size p = write_offset p"
proof -
  assume ok: "pickle_ok p"
  then have "write_offset p < 2 ^ 32" by (simp add: pickle_ok_def uint32_max_def)
  with ok show ?thesis
    by (auto simp: payload_size_def elim!: pickle_okE dest: hdr_payload_size_read)
qed

lemma length_payload_of: "pickle_ok p \<Longrightarrow> length (payload_of p) = write_offset p"
  by (erule pickle_okE) (erule length_mem_read)

lemma Resize_eq:
  assumes "capacity_after_header p < 2 ^ 34" and "n < 2 ^ 35" and "header_size p \<le> 64"
  shows "Resize junk p n = Some (p\<lparr>capacity_after_header := align_up 64 n,
    header := Some (realloc junk (case header p of None \<Rightarrow> [] | Some blk \<Rightarrow> blk)
      (header_size p + align_up 64 n))\<rparr>)"
proof -
  have "align_up 64 n < n + 64" by (rule align_up_less) simp
  with assms have small: "align_up 64 n < 2 ^ 36" by simp
  with assms have "size_add (header_size p) (align_up 64 n) = header_size p + align_up 64 n"
    by (simp add: size_add_exact size_max_def)
  with assms small show ?thesis
    by (simp add: Resize_def size_align_64 kPayloadUnit_def kCapacityReadOnly_eq Let_def
        GetTotalAllocatedSize_def)
qed

text \<open>Growing keeps everything below \<open>write_offset\<close> and makes room for \<open>new_size\<close>.\<close>

lemma grow_eq:
  assumes ok: "pickle_ok p" and blk: "header p = Some blk" and n: "n \<le> uint32_max"
  obtains c where "grow junk p n = Some (p\<lparr>capacity_after_header := c,
      header := Some (if n > capacity_after_header p then realloc junk blk (header_size p + c) else blk)\<rparr>)"
    and "n \<le> c" and "c < 2 ^ 34" and "64 dvd c"
    and "if n > capacity_after_header p then capacity_after_header p \<le> c else c = capacity_after_header p"
proof (cases "n > capacity_after_header p")
  case False
  with ok blk that [of "capacity_after_header p"] show ?thesis
    by (simp add: grow_def pickle_ok_def)
next
  case True
  let ?c = "capacity_after_header p"
  have small: "?c * 2 < 2 ^ 33" using True n by (simp add: uint32_max_def)
  define nc where "nc = (if ?c * 2 > 4096 then align_up 4096 (?c * 2) - 64 else ?c * 2)"
  have a: "align_up 4096 (?c * 2) < ?c * 2 + 4096" "?c * 2 \<le> align_up 4096 (?c * 2)"
    by (auto intro: align_up_less align_up_ge)
  have "(?c * 2) mod size_max = ?c * 2" using small by (simp add: size_max_def)
  moreover have "size_sub (align_up 4096 (?c * 2)) 64 = align_up 4096 (?c * 2) - 64" if "?c * 2 > 4096"
    using a small that by (intro size_sub_exact) (auto simp: size_max_def)
  ultimately have "grow junk p n = Resize junk p (max nc n)"
    using True small by (simp add: grow_def nc_def Let_def size_align_4096 kPayloadUnit_def)
  moreover have bound: "max nc n < 2 ^ 33 + 4096"
    using a small n by (auto simp: nc_def uint32_max_def)
  moreover have "align_up 64 (max nc n) < max nc n + 64" "max nc n \<le> align_up 64 (max nc n)"
    by (rule align_up_less align_up_ge; simp)+
  ultimately show ?thesis
    using ok blk True n
    by (intro that [of "align_up 64 (max nc n)"]) (auto simp: Resize_eq pickle_ok_def)
qed

text \<open>Writing appends the padded data to the payload; it fails exactly when 32 bits do not hold the
  new size.\<close>

lemma WriteBytesCommon_ok:
  assumes ok: "pickle_ok p" and room: "write_offset p + align_up 4 (length d) \<le> uint32_max"
  shows "\<exists>p'. WriteBytesCommon junk p d (length d) = Some p' \<and> pickle_ok p' \<and>
    header_size p' = header_size p \<and> payload_of p' = payload_of p @ pad4 d"
proof -
  let ?w = "header_size p + write_offset p" and ?al = "align_up 4 (length d)"
  let ?n = "write_offset p + ?al" and ?z = "replicate (?al - length d) (0 :: byte)"
  obtain blk where blk: "header p = Some blk" "length blk = header_size p + capacity_after_header p"
    "mem_read blk (header_size p) (write_offset p) = Some (payload_of p)"
    using ok by (rule pickle_okE)
  have ge: "length d \<le> ?al" by (rule align_up_ge) simp
  obtain c where c: "grow junk p ?n = Some (p\<lparr>capacity_after_header := c,
      header := Some (if ?n > capacity_after_header p then realloc junk blk (header_size p + c) else blk)\<rparr>)"
    "?n \<le> c" "c < 2 ^ 34" "64 dvd c"
    "if ?n > capacity_after_header p then capacity_after_header p \<le> c else c = capacity_after_header p"
    using grow_eq [OF ok blk(1) room] by metis
  define b0 where "b0 = (if ?n > capacity_after_header p then realloc junk blk (header_size p + c) else blk)"
  have hs: "4 \<le> header_size p" using ok by (simp add: pickle_ok_def)
  have le: "header_size p + ?n \<le> length b0" "?w + length d + length ?z \<le> length b0"
    using c blk(2) ge by (auto simp: b0_def split: if_splits)
  have old: "mem_read b0 (header_size p) (write_offset p) = Some (payload_of p)"
    using blk ok c(5) by (auto simp: b0_def mem_read_realloc pickle_ok_def)
  obtain b1 where b1: "mem_write b0 (?w + length d) ?z = Some b1"
    using mem_write_ok [OF le(2)] by blast
  obtain b2 where b2: "mem_write b1 0 (le_bytes 4 (word_of_nat ?n :: u32)) = Some b2"
    using mem_write_ok [of 0 _ b1] length_mem_write [OF b1] le hs by fastforce
  obtain b3 where b3: "mem_write b2 ?w d = Some b3"
    using mem_write_ok [of ?w d b2] length_mem_write [OF b1] length_mem_write [OF b2] le by auto
  note rec = heap_block.append_record [OF b1 b2 b3 _ old refl]
  have lens: "length b3 = length b0"
    using length_mem_write [OF b1] length_mem_write [OF b2] length_mem_write [OF b3] by simp
  have "size_align (length d) 4 = Some ?al"
    using ge room by (intro size_align_4) (simp add: uint32_max_def)
  then have run: "WriteBytesCommon junk p d (length d) =
      Some (p\<lparr>capacity_after_header := c, header := Some b3, write_offset := ?n\<rparr>)"
    using ok room ge b1 b2 b3
    by (simp add: WriteBytesCommon_def ClaimUninitializedBytesInternal_def c(1) pickle_ok_def
        b0_def [symmetric] kCapacityReadOnly_eq set_payload_size_def mem_read_def Let_def)
  have "length b0 = header_size p + c"
    using c blk(2) by (auto simp: b0_def split: if_splits)
  moreover have "4 dvd ?n" using ok by (simp add: pickle_ok_def)
  ultimately have "pickle_ok (p\<lparr>capacity_after_header := c, header := Some b3, write_offset := ?n\<rparr>)"
    using ok room c lens rec(2) hs by (simp add: pickle_ok_def)
  moreover have "mem_read b3 (header_size p) ?n = Some (payload_of p @ pad4 d)"
    using rec(1) hs ge by (simp add: pad4_def)
  ultimately show ?thesis
    using run by (auto simp: payload_of_def mem_read_def split: if_splits)
qed

lemma WriteBytesCommon_full:
  assumes "pickle_ok p" and "write_offset p + align_up 4 (length d) > uint32_max"
    and "length d < 2 ^ 63"
  shows "WriteBytesCommon junk p d (length d) = None"
  using assms size_align_4 [of "length d"]
  by (auto simp: WriteBytesCommon_def ClaimUninitializedBytesInternal_def Let_def)

subsection \<open>Lemmas: constructors\<close>

lemma reset_payload_eq:
  assumes "header p = Some blk" and "length blk = header_size p + capacity_after_header p"
    and "capacity_after_header p < 2 ^ 34" and "64 dvd capacity_after_header p" and "write_offset p = 0"
    and "4 dvd header_size p" and "4 \<le> header_size p" and "header_size p \<le> 64"
  shows "\<exists>p'. reset_payload p = Some p' \<and> pickle_ok p' \<and> write_offset p' = 0 \<and>
    header_size p' = header_size p"
proof -
  obtain b where b: "mem_write blk 0 (le_bytes 4 (word_of_nat 0 :: u32)) = Some b"
    using mem_write_ok [of 0 "le_bytes 4 (word_of_nat 0 :: u32)" blk] assms by auto
  have "mem_read b 0 4 = Some (le_bytes 4 (word_of_nat 0 :: u32))"
    using mem_read_write_same [OF b] by simp
  with b assms length_mem_write [OF b] show ?thesis
    by (simp add: reset_payload_def set_payload_size_def pickle_ok_def uint32_max_def)
qed

lemma align_up_64: "align_up 64 64 = 64"
  by (simp add: align_up_def)

lemma Pickle_default_ok:
  "\<exists>p. Pickle_default junk = Some p \<and> pickle_ok p \<and> write_offset p = 0 \<and> header_size p = 4"
proof -
  have "Pickle_default junk = reset_payload \<lparr>header = Some (realloc junk [] (4 + 64)), header_size = 4,
      capacity_after_header = 64, write_offset = 0\<rparr>"
    by (simp add: Pickle_default_def Resize_eq kPayloadUnit_def align_up_64)
  then show ?thesis
    using reset_payload_eq [of "\<lparr>header = Some (realloc junk [] (4 + 64)), header_size = 4,
      capacity_after_header = 64, write_offset = 0\<rparr>"] by auto
qed

lemma Pickle_header_ok:
  assumes "4 \<le> h" and "h \<le> 64"
  shows "\<exists>p. Pickle_header junk h = Some p \<and> pickle_ok p \<and> write_offset p = 0 \<and>
    header_size p = align_up 4 (nat h)"
proof -
  let ?hs = "align_up 4 (nat h)"
  let ?p = "\<lparr>header = Some (realloc junk [] (?hs + 64)), header_size = ?hs,
      capacity_after_header = 64, write_offset = 0\<rparr>"
  have hs: "nat h \<le> ?hs" "?hs \<le> 64" using assms by (auto intro: align_up_ge align_up_least)
  have h: "int_to_size h = nat h" using assms by (simp add: int_to_size_def)
  then have "size_align (int_to_size h) 4 = Some ?hs" using assms by (simp add: size_align_4)
  with assms h hs have "Pickle_header junk h = reset_payload ?p"
    by (simp add: Pickle_header_def Resize_eq kPayloadUnit_def align_up_64 nat_le_iff le_nat_iff)
  then show ?thesis
    using reset_payload_eq [of ?p] hs assms by auto
qed

subsection \<open>Lemmas: reading\<close>

definition iter_ok :: "pickle_iterator \<Rightarrow> bool" where
  "iter_ok it \<longleftrightarrow> read_index it \<le> end_index it \<and> end_index it \<le> length (payload it) \<and>
     end_index it < 2 ^ 32"

text \<open>The abstract value of an iterator: the bytes not read yet.\<close>

definition unread :: "pickle_iterator \<Rightarrow> byte list" where
  "unread it = take (end_index it - read_index it) (drop (read_index it) (payload it))"

definition take_padded :: "nat \<Rightarrow> byte list \<Rightarrow> byte list option \<times> byte list" where
  "take_padded n bs = (if length bs < n then (None, []) else (Some (take n bs), drop (align_up 4 n) bs))"

lemma length_unread: "iter_ok it \<Longrightarrow> length (unread it) = end_index it - read_index it"
  by (auto simp: unread_def iter_ok_def)

lemma Advance_eq:
  assumes "iter_ok it" and "n \<le> length (unread it)"
  shows "\<exists>it'. Advance it n = Some it' \<and> iter_ok it' \<and> payload it' = payload it \<and>
    end_index it' = end_index it \<and> unread it' = drop (align_up 4 n) (unread it)"
proof -
  have n: "n < 2 ^ 32" using assms by (auto simp: length_unread iter_ok_def)
  then have "size_align n 4 = Some (align_up 4 n)" by (intro size_align_4) simp
  moreover have "align_up 4 n < 2 ^ 33" using align_up_less [of 4 n] n by simp
  moreover have "size_sub (end_index it) (read_index it) = end_index it - read_index it"
    using assms(1) by (intro size_sub_exact) (auto simp: iter_ok_def size_max_def)
  moreover have "size_add (read_index it) (align_up 4 n) = read_index it + align_up 4 n"
    if "align_up 4 n < 2 ^ 33"
    using assms(1) that by (intro size_add_exact) (auto simp: iter_ok_def size_max_def)
  ultimately show ?thesis
    using assms(1) by (auto simp: Advance_def iter_ok_def unread_def drop_take add.commute)
qed

lemma load_eq:
  "iter_ok it \<Longrightarrow> n \<le> length (unread it) \<Longrightarrow> payload it' = payload it \<Longrightarrow>
     load (Some (read_index it), it') n = Some (Some (take n (unread it)), it')"
  by (auto simp: load_def mem_read_def unread_def iter_ok_def)

lemma size_left: "iter_ok it \<Longrightarrow> size_sub (end_index it) (read_index it) = length (unread it)"
  by (subst size_sub_exact) (auto simp: length_unread iter_ok_def size_max_def)

lemma at_end:
  assumes "iter_ok it"
  shows "iter_ok (it\<lparr>read_index := end_index it\<rparr>)" and "unread (it\<lparr>read_index := end_index it\<rparr>) = []"
  using assms by (auto simp: iter_ok_def unread_def)

lemma ReadBuiltinType_eq:
  assumes "iter_ok it"
  shows "\<exists>it'. ReadBuiltinType it n = Some (fst (take_padded n (unread it)), it') \<and> iter_ok it' \<and>
    unread it' = snd (take_padded n (unread it))"
proof (cases "n \<le> length (unread it)")
  case True
  obtain it' where "Advance it n = Some it'" "iter_ok it'" "payload it' = payload it"
    "unread it' = drop (align_up 4 n) (unread it)"
    using Advance_eq [OF assms True] by blast
  with True show ?thesis
    by (simp add: ReadBuiltinType_def GetReadPointerAndAdvance_type_def size_left [OF assms]
        load_eq [OF assms] take_padded_def)
next
  case False
  then show ?thesis
    using at_end [OF assms]
    by (simp add: ReadBuiltinType_def GetReadPointerAndAdvance_type_def size_left [OF assms]
        load_def take_padded_def)
qed

lemma ReadBytes_eq:
  assumes "iter_ok it" and "len < 2 ^ 31"
  shows "\<exists>it'. ReadBytes it len = Some
      (if len < 0 then None else fst (take_padded (nat len) (unread it)), it') \<and> iter_ok it' \<and>
    unread it' = (if len < 0 then [] else snd (take_padded (nat len) (unread it)))"
proof (cases "len < 0 \<or> length (unread it) < nat len")
  case True
  then have "ReadBytes it len = Some (None, it\<lparr>read_index := end_index it\<rparr>)"
    using assms(2)
    by (auto simp: ReadBytes_def GetReadPointerAndAdvance_def size_left [OF assms(1)] load_def
        int_to_size_def)
  then show ?thesis
    using at_end [OF assms(1)] True by (auto simp: take_padded_def)
next
  case False
  then have len: "int_to_size len = nat len" "nat len \<le> length (unread it)" "0 \<le> len"
    using assms(2) by (auto simp: int_to_size_def)
  obtain it' where "Advance it (nat len) = Some it'" "iter_ok it'" "payload it' = payload it"
    "unread it' = drop (align_up 4 (nat len)) (unread it)"
    using Advance_eq [OF assms(1) len(2)] by blast
  with False len show ?thesis
    by (auto simp: ReadBytes_def GetReadPointerAndAdvance_def size_left [OF assms(1)]
        load_eq [OF assms(1)] take_padded_def)
qed

lemma take_padded_pad4 [simp]: "take_padded (length d) (pad4 d @ rest) = (Some d, rest)"
  using align_up_ge [of 4 "length d"] by (simp add: take_padded_def pad4_def)

lemma sint_u32_less: "sint (w :: u32) < 2 ^ 31"
  using sint_lt [of w] by simp

subsection \<open>The read and write interface\<close>

fun put_all :: "(pickle \<Rightarrow> 'a \<Rightarrow> pickle option) \<Rightarrow> pickle \<Rightarrow> 'a list \<Rightarrow> pickle option" where
  "put_all put p [] = Some p"
| "put_all put p (x # xs) = do { p \<leftarrow> put p x; put_all put p xs }"

fun get_all :: "('k \<Rightarrow> pickle_iterator \<Rightarrow> ('a option \<times> pickle_iterator) option) \<Rightarrow> 'k list \<Rightarrow>
    pickle_iterator \<Rightarrow> ('a list option \<times> pickle_iterator) option" where
  "get_all get [] it = Some (Some [], it)"
| "get_all get (k # ks) it = do {
     (x, it) \<leftarrow> get k it;
     case x of None \<Rightarrow> Some (None, it)
     | Some x \<Rightarrow> map_option (\<lambda>(xs, it). (map_option ((#) x) xs, it)) (get_all get ks it) }"

text \<open>
  What a pair of a \<open>Write\<close> and a \<open>Read\<close> function promises: the write appends the encoding of the
  value to the payload while there is room; the read of the value's kind consumes one encoding and
  returns the value. Sequences of values follow once and for all.
\<close>

locale pickle_codec =
  fixes put :: "pickle \<Rightarrow> 'a \<Rightarrow> pickle option"
    and get :: "'k \<Rightarrow> pickle_iterator \<Rightarrow> ('a option \<times> pickle_iterator) option"
    and enc :: "'a \<Rightarrow> byte list" and valid :: "'a \<Rightarrow> bool" and kind :: "'a \<Rightarrow> 'k"
  assumes put_appends: "pickle_ok p \<Longrightarrow> valid x \<Longrightarrow> write_offset p + length (enc x) \<le> uint32_max \<Longrightarrow>
      \<exists>p'. put p x = Some p' \<and> pickle_ok p' \<and> header_size p' = header_size p \<and>
           payload_of p' = payload_of p @ enc x"
    and get_consumes: "iter_ok it \<Longrightarrow> valid x \<Longrightarrow> unread it = enc x @ rest \<Longrightarrow>
      \<exists>it'. get (kind x) it = Some (Some x, it') \<and> iter_ok it' \<and> unread it' = rest"
begin

lemma put_all_appends:
  assumes "pickle_ok p" and "\<forall>x\<in>set xs. valid x"
    and "write_offset p + length (concat (map enc xs)) \<le> uint32_max"
  shows "\<exists>p'. put_all put p xs = Some p' \<and> pickle_ok p' \<and> header_size p' = header_size p \<and>
    payload_of p' = payload_of p @ concat (map enc xs)"
  using assms
proof (induction xs arbitrary: p)
  case (Cons x xs)
  then obtain p' where p': "put p x = Some p'" "pickle_ok p'" "header_size p' = header_size p"
    "payload_of p' = payload_of p @ enc x"
    using put_appends [of p x] by auto
  then have "write_offset p' = write_offset p + length (enc x)"
    using Cons.prems(1) by (metis length_append length_payload_of)
  with Cons.prems Cons.IH [OF p'(2)] p' show ?case by auto
qed simp

lemma get_all_consumes:
  assumes "iter_ok it" and "\<forall>x\<in>set xs. valid x" and "unread it = concat (map enc xs) @ rest"
  shows "\<exists>it'. get_all get (map kind xs) it = Some (Some xs, it') \<and> iter_ok it' \<and> unread it' = rest"
  using assms
proof (induction xs arbitrary: it)
  case (Cons x xs)
  then obtain it' where "get (kind x) it = Some (Some x, it')" "iter_ok it'"
    "unread it' = concat (map enc xs) @ rest"
    using get_consumes [of it x "concat (map enc xs) @ rest"] by auto
  with Cons.prems Cons.IH [of it'] show ?case by auto
qed simp

end

subsection \<open>All kinds of values\<close>

text \<open>The values the \<open>Write*\<close> calls accept and the kinds the \<open>Read*\<close> calls are named after; the
  unsigned calls are the signed ones on the same words, \<open>ReadBytes\<close> is told its length.\<close>

datatype pickle_value = VBool bool | VInt16 u16 | VInt32 u32 | VInt64 u64
  | VString "byte list" | VData "byte list" | VBytes "byte list"

datatype pickle_kind = KBool | KInt16 | KInt32 | KInt64 | KString | KData | KBytes u32

primrec kind_of :: "pickle_value \<Rightarrow> pickle_kind" where
  "kind_of (VBool _) = KBool" | "kind_of (VInt16 _) = KInt16" | "kind_of (VInt32 _) = KInt32"
| "kind_of (VInt64 _) = KInt64" | "kind_of (VString _) = KString" | "kind_of (VData _) = KData"
| "kind_of (VBytes bs) = KBytes (word_of_nat (length bs))"

primrec write_value :: "(nat \<Rightarrow> byte) \<Rightarrow> pickle \<Rightarrow> pickle_value \<Rightarrow> pickle option" where
  "write_value junk p (VBool b) = WriteBool junk p b"
| "write_value junk p (VInt16 w) = WriteInt16 junk p w"
| "write_value junk p (VInt32 w) = WriteInt32 junk p w"
| "write_value junk p (VInt64 w) = WriteInt64 junk p w"
| "write_value junk p (VString s) = WriteString junk p s"
| "write_value junk p (VData d) = map_option fst (WriteData junk p d (int (length d)))"
| "write_value junk p (VBytes d) = WriteBytes junk p d (int (length d))"

definition tag :: "('a \<Rightarrow> 'b) \<Rightarrow> ('a option \<times> pickle_iterator) option \<Rightarrow> ('b option \<times> pickle_iterator) option" where
  "tag f = map_option (\<lambda>(x, it). (map_option f x, it))"

primrec read_value :: "pickle_kind \<Rightarrow> pickle_iterator \<Rightarrow> (pickle_value option \<times> pickle_iterator) option" where
  "read_value KBool it = tag VBool (ReadBool it)"
| "read_value KInt16 it = tag VInt16 (ReadInt16 it)"
| "read_value KInt32 it = tag VInt32 (ReadInt32 it)"
| "read_value KInt64 it = tag VInt64 (ReadInt64 it)"
| "read_value KString it = tag VString (ReadString it)"
| "read_value KData it = tag VData (ReadData it)"
| "read_value (KBytes n) it = tag VBytes (ReadBytes it (sint n))"

primrec size_value :: "nat \<Rightarrow> pickle_value \<Rightarrow> nat option" where
  "size_value n (VBool b) = AddBool n"
| "size_value n (VInt16 w) = AddInt16 n"
| "size_value n (VInt32 w) = AddInt32 n"
| "size_value n (VInt64 w) = AddInt64 n"
| "size_value n (VString s) = AddString n s"
| "size_value n (VData d) = AddData n (int (length d))"
| "size_value n (VBytes d) = AddBytes n (int (length d))"

definition prefixed :: "byte list \<Rightarrow> byte list" where
  "prefixed d = le_bytes 4 (word_of_nat (length d) :: u32) @ pad4 d"

primrec value_bytes :: "pickle_value \<Rightarrow> byte list" where
  "value_bytes (VBool b) = le_bytes 4 (if b then 1 else 0 :: u32)"
| "value_bytes (VInt16 w) = le_bytes 2 w @ [0, 0]"
| "value_bytes (VInt32 w) = le_bytes 4 w"
| "value_bytes (VInt64 w) = le_bytes 8 w"
| "value_bytes (VString s) = prefixed s"
| "value_bytes (VData d) = prefixed d"
| "value_bytes (VBytes d) = pad4 d"

primrec valid_value :: "pickle_value \<Rightarrow> bool" where
  "valid_value (VBool b) = True" | "valid_value (VInt16 w) = True" | "valid_value (VInt32 w) = True"
| "valid_value (VInt64 w) = True" | "valid_value (VString s) = (length s < 2 ^ 31)"
| "valid_value (VData d) = (length d < 2 ^ 31)" | "valid_value (VBytes d) = (length d < 2 ^ 31)"

lemma align_up_4_small [simp]: "align_up 4 4 = 4" "align_up 4 8 = 8" "align_up 4 2 = 4" "align_up 4 1 = 4"
  "align_up 4 (Suc 0) = 4" "align_up 4 (Suc (Suc 0)) = 4"
  by (simp_all add: align_up_def)

lemma pad4_le_bytes: "pad4 (le_bytes 4 w) = le_bytes 4 w" "pad4 (le_bytes 8 x) = le_bytes 8 x"
  "pad4 (le_bytes 2 y) = le_bytes 2 y @ [0, 0]"
  by (simp_all add: pad4_def numeral_2_eq_2)

text \<open>The room left in \<open>p\<close> is enough for \<open>bs\<close> and \<open>f\<close> appends it.\<close>

definition appends :: "pickle \<Rightarrow> byte list \<Rightarrow> pickle option \<Rightarrow> bool" where
  "appends p bs r \<longleftrightarrow> (\<exists>p'. r = Some p' \<and> pickle_ok p' \<and> header_size p' = header_size p \<and>
     payload_of p' = payload_of p @ bs)"

lemma appends_common:
  assumes "pickle_ok p" and "write_offset p + length (pad4 d) \<le> uint32_max" and "n = length d"
  shows "appends p (pad4 d) (WriteBytesCommon junk p d n)"
  using WriteBytesCommon_ok [OF assms(1), of d junk] assms by (simp add: appends_def)

lemma appends_then:
  assumes "pickle_ok p" and "appends p bs r" and "\<And>p'. pickle_ok p' \<Longrightarrow> write_offset p' = write_offset p + length bs
    \<Longrightarrow> appends p' bs' (f p')"
  shows "appends p (bs @ bs') (Option.bind r f)"
proof -
  from assms(2) obtain p' where p': "r = Some p'" "pickle_ok p'" "header_size p' = header_size p"
    "payload_of p' = payload_of p @ bs" by (auto simp: appends_def)
  have "write_offset p' = write_offset p + length bs"
    using assms(1) p'(2,4) by (metis length_append length_payload_of)
  from assms(3) [OF p'(2) this] p' show ?thesis by (auto simp: appends_def)
qed

lemma int_to_size_id: "n < 2 ^ 63 \<Longrightarrow> int_to_size (int n) = n"
  by (simp add: int_to_size_def)

lemma sint_length: "n < 2 ^ 31 \<Longrightarrow> sint (word_of_nat n :: u32) = int n"
  by (simp add: signed_of_nat signed_take_bit_int_eq_self)

lemma write_string_appends:
  assumes "pickle_ok p" and "length s < 2 ^ 31" and "write_offset p + length (prefixed s) \<le> uint32_max"
    and "n = int (length s)"
  shows "appends p (prefixed s)
    (Option.bind (WriteInt32 junk p (word_of_nat (length s))) (\<lambda>p. WriteBytes junk p s n))"
  unfolding prefixed_def
proof (rule appends_then [OF assms(1)])
  show "appends p (le_bytes 4 (word_of_nat (length s) :: u32)) (WriteInt32 junk p (word_of_nat (length s)))"
    using assms appends_common [of p "le_bytes 4 (word_of_nat (length s) :: u32)" 4 junk]
    by (simp add: WriteInt32_def pad4_le_bytes prefixed_def)
next
  fix p' assume "pickle_ok p'"
    and "write_offset p' = write_offset p + length (le_bytes 4 (word_of_nat (length s) :: u32))"
  then show "appends p' (pad4 s) (WriteBytes junk p' s n)"
    using assms unfolding WriteBytes_def
    by (intro appends_common) (simp_all add: prefixed_def int_to_size_id)
qed

lemma write_value_appends:
  assumes "pickle_ok p" and "valid_value v" and "write_offset p + length (value_bytes v) \<le> uint32_max"
  shows "appends p (value_bytes v) (write_value junk p v)"
proof (cases v)
  case (VBool b)
  with assms appends_common [of p "le_bytes 4 (if b then 1 else 0 :: u32)" 4 junk] show ?thesis
    by (simp add: WriteBool_def WriteInt32_def pad4_le_bytes)
next
  case (VInt16 w)
  with assms appends_common [of p "le_bytes 2 w" 2 junk] show ?thesis
    by (simp add: WriteInt16_def pad4_le_bytes)
next
  case (VInt32 w)
  with assms appends_common [of p "le_bytes 4 w" 4 junk] show ?thesis
    by (simp add: WriteInt32_def pad4_le_bytes)
next
  case (VInt64 w)
  with assms appends_common [of p "le_bytes 8 w" 8 junk] show ?thesis
    by (simp add: WriteInt64_def pad4_le_bytes)
next
  case (VString s)
  with assms write_string_appends [of p s _ junk] show ?thesis
    by (simp add: WriteString_def sint_length)
next
  case (VData d)
  have "map_option fst (WriteData junk p d (int (length d))) =
      Option.bind (WriteInt32 junk p (word_of_nat (length d))) (\<lambda>p. WriteBytes junk p d (int (length d)))"
    by (simp add: WriteData_def option.map_comp map_option_bind comp_def split: bind_splits)
  with assms VData write_string_appends [of p d _ junk] show ?thesis by simp
next
  case (VBytes d)
  with assms appends_common [of p d _ junk] show ?thesis
    by (simp add: WriteBytes_def int_to_size_id)
qed

text \<open>\<open>r\<close> returns \<open>x\<close> and leaves \<open>rest\<close>.\<close>

definition reads :: "('a option \<times> pickle_iterator) option \<Rightarrow> 'a \<Rightarrow> byte list \<Rightarrow> bool" where
  "reads r x rest \<longleftrightarrow> (\<exists>it'. r = Some (Some x, it') \<and> iter_ok it' \<and> unread it' = rest)"

lemma reads_builtin:
  assumes "iter_ok it" and "unread it = pad4 d @ rest" and "n = length d"
  shows "reads (ReadBuiltinType it n) d rest"
  using ReadBuiltinType_eq [OF assms(1), of n] assms by (simp add: reads_def)

lemma reads_word:
  assumes "iter_ok it" and "unread it = pad4 (le_bytes n w) @ rest" and "LENGTH('a::len) \<le> 8 * n"
  shows "reads (ReadWord it n) (w :: 'a word) rest"
  using reads_builtin [OF assms(1,2), of n] assms(3)
  by (auto simp: reads_def ReadWord_def)

lemma reads_bytes:
  assumes "iter_ok it" and "unread it = pad4 d @ rest" and "n = int (length d)" and "length d < 2 ^ 31"
  shows "reads (ReadBytes it n) d rest"
  using ReadBytes_eq [OF assms(1), of n] assms by (simp add: reads_def)

lemma reads_tag: "reads r x rest \<Longrightarrow> reads (tag f r) (f x) rest"
  by (auto simp: reads_def tag_def)

lemma reads_then:
  "reads r x rest \<Longrightarrow> (\<And>it. iter_ok it \<Longrightarrow> unread it = rest \<Longrightarrow> reads (f (Some x, it)) y rest') \<Longrightarrow>
     reads (Option.bind r f) y rest'"
  by (auto simp: reads_def)

lemma reads_prefixed:
  assumes "iter_ok it" and "unread it = prefixed s @ rest" and "length s < 2 ^ 31"
  shows "reads (ReadString it) s rest" "reads (ReadStringPiece it) s rest" "reads (ReadData it) s rest"
proof -
  have "reads (ReadInt32 it) (word_of_nat (length s)) (pad4 s @ rest)"
    using assms(2) unfolding ReadInt32_def
    by (intro reads_word [OF assms(1)]) (simp_all add: prefixed_def pad4_le_bytes)
  then show "reads (ReadString it) s rest" "reads (ReadStringPiece it) s rest" "reads (ReadData it) s rest"
    unfolding ReadString_def ReadStringPiece_def ReadData_def
    by (rule reads_then; use assms(3) in \<open>simp add: reads_bytes sint_length\<close>)+
qed

lemma reads_bool:
  assumes "iter_ok it" and "unread it = le_bytes 4 (if b then 1 else 0 :: u32) @ rest"
  shows "reads (ReadBool it) b rest"
proof -
  have "le_bytes 4 (if b then 1 else 0 :: u32) = [if b then 1 else 0, 0, 0, 0]"
    by (simp add: numeral_eq_Suc drop_bit_Suc)
  with assms ReadBuiltinType_eq [OF assms(1), of 1] show ?thesis
    by (cases b) (auto simp: reads_def ReadBool_def take_padded_def)
qed

lemma read_value_reads:
  assumes "iter_ok it" and "valid_value v" and "unread it = value_bytes v @ rest"
  shows "reads (read_value (kind_of v) it) v rest"
proof (cases v)
  case (VBool b)
  with assms show ?thesis by (simp add: reads_tag reads_bool)
next
  case (VInt16 w)
  with assms show ?thesis
    by (simp add: ReadInt16_def) (intro reads_tag reads_word, simp_all add: pad4_le_bytes)
next
  case (VInt32 w)
  with assms show ?thesis
    by (simp add: ReadInt32_def) (intro reads_tag reads_word, simp_all add: pad4_le_bytes)
next
  case (VInt64 w)
  with assms show ?thesis
    by (simp add: ReadInt64_def) (intro reads_tag reads_word, simp_all add: pad4_le_bytes)
next
  case (VBytes d)
  with assms show ?thesis
    by (simp add: sint_length) (intro reads_tag reads_bytes, simp_all)
qed (use assms in \<open>simp_all add: reads_tag reads_prefixed\<close>)

interpretation wire: pickle_codec "write_value junk" read_value value_bytes valid_value kind_of for junk
  by unfold_locales
    (use write_value_appends in \<open>force simp: appends_def\<close>, use read_value_reads in \<open>force simp: reads_def\<close>)

subsection \<open>Lemmas: every operation keeps the invariant\<close>

lemma WriteBytesCommon_cases:
  assumes "pickle_ok p" and "WriteBytesCommon junk p d n = Some p'"
  shows "n \<le> length d \<and> n \<le> uint32_max \<and> pickle_ok p' \<and> header_size p' = header_size p \<and>
    payload_of p' = payload_of p @ pad4 (take n d)"
proof -
  have n: "n \<le> length d" "n \<le> uint32_max"
    using assms(2)
    by (auto simp: WriteBytesCommon_def ClaimUninitializedBytesInternal_def mem_read_def Let_def
        bind_eq_Some_conv split: if_splits)
  then have eq: "WriteBytesCommon junk p d n = WriteBytesCommon junk p (take n d) (length (take n d))"
    by (simp add: WriteBytesCommon_def mem_read_def)
  have "write_offset p + align_up 4 (length (take n d)) \<le> uint32_max"
    using WriteBytesCommon_full [OF assms(1), of "take n d" junk] assms(2) n unfolding eq
    by (cases "write_offset p + align_up 4 (length (take n d)) > uint32_max")
       (auto simp: uint32_max_def)
  from WriteBytesCommon_ok [OF assms(1) this, of junk] assms(2) n show ?thesis
    unfolding eq by auto
qed

lemma ClaimBytes_write:
  assumes "n \<le> uint32_max"
  shows "map_option fst (ClaimBytes junk p n) = WriteBytesCommon junk p (replicate n 0) n"
proof (cases "kCapacityReadOnly = capacity_after_header p")
  case True
  then show ?thesis
    by (simp add: ClaimBytes_def WriteBytesCommon_def ClaimUninitializedBytesInternal_def)
next
  case False
  then show ?thesis
    by (simp add: ClaimBytes_def WriteBytesCommon_def mem_read_def map_option_bind
        case_prod_beta' comp_def)
qed

lemma ClaimBytes_cases:
  assumes "pickle_ok p" and "ClaimBytes junk p n = Some (p', w)"
  shows "pickle_ok p' \<and> header_size p' = header_size p \<and>
    payload_of p' = payload_of p @ pad4 (replicate n 0)"
proof -
  have "n \<le> uint32_max"
    using assms(2)
    by (auto simp: ClaimBytes_def ClaimUninitializedBytesInternal_def Let_def bind_eq_Some_conv
        split: if_splits)
  then have "WriteBytesCommon junk p (replicate n 0) n = Some p'"
    using ClaimBytes_write [of n junk p] assms(2) by simp
  from WriteBytesCommon_cases [OF assms(1) this] show ?thesis by simp
qed

lemma mem_read_realloc_bind:
  "mem_read blk 0 n = Some x \<Longrightarrow> n \<le> k \<Longrightarrow> mem_read (realloc junk blk k) 0 n = Some x"
  using mem_read_realloc [of 0 n blk k junk] by (auto simp: mem_read_def split: if_splits)

lemma Reserve_cases:
  assumes ok: "pickle_ok p" and some: "Reserve junk p n = Some p'"
  shows "pickle_ok p' \<and> header_size p' = header_size p \<and> payload_of p' = payload_of p \<and>
    write_offset p' + align_up 4 n \<le> capacity_after_header p'"
proof -
  obtain blk where blk: "header p = Some blk" "length blk = header_size p + capacity_after_header p"
    "mem_read blk 0 4 = Some (le_bytes 4 (word_of_nat (write_offset p) :: u32))"
    "mem_read blk (header_size p) (write_offset p) = Some (payload_of p)"
    using ok by (rule pickle_okE)
  from some have n: "n \<le> uint32_max"
    by (auto simp: Reserve_def Let_def bind_eq_Some_conv split: if_splits)
  then have al: "size_align n 4 = Some (align_up 4 n)"
    by (intro size_align_4) (simp add: uint32_max_def)
  let ?n = "write_offset p + align_up 4 n" and ?c = "capacity_after_header p"
  from some al have room: "?n \<le> uint32_max"
    by (auto simp: Reserve_def Let_def split: if_splits)
  show ?thesis
  proof (cases "?n > ?c")
    case False
    with some al ok show ?thesis by (auto simp: Reserve_def Let_def split: if_splits)
  next
    case True
    let ?k = "align_up 64 (?c * 2 + ?n)"
    have small: "?c * 2 + ?n < 2 ^ 34 - 64" using True room by (simp add: uint32_max_def)
    have k: "?c * 2 + ?n \<le> ?k" "?k < ?c * 2 + ?n + 64"
      by (rule align_up_ge align_up_less; simp)+
    have "(?c * 2 + ?n) mod size_max = ?c * 2 + ?n" using small by (simp add: size_max_def)
    then have p': "p' = p\<lparr>capacity_after_header := ?k, header := Some (realloc junk blk (header_size p + ?k))\<rparr>"
      using some al True ok small blk(1)
      by (auto simp: Reserve_def Let_def Resize_eq pickle_ok_def split: if_splits)
    have "mem_read (realloc junk blk (header_size p + ?k)) 0 4 =
        Some (le_bytes 4 (word_of_nat (write_offset p) :: u32))"
      using blk(3) ok by (intro mem_read_realloc_bind) (auto simp: pickle_ok_def)
    moreover have "mem_read (realloc junk blk (header_size p + ?k)) (header_size p) (write_offset p)
        = Some (payload_of p)"
      using blk(2,4) ok k by (subst mem_read_realloc) (auto simp: pickle_ok_def)
    ultimately show ?thesis
      using ok k small True by (auto simp: p' pickle_ok_def payload_of_def mem_read_def split: if_splits)
  qed
qed

lemma mem_read_prefix:
  assumes "mem_read oblk 0 k = Some bs" and "mem_write blk 0 bs = Some b'" and "i + n \<le> k"
  shows "mem_read b' i n = mem_read oblk i n"
  using assms by (auto simp: mem_read_def mem_write_def min_def drop_take split: if_splits)

lemma copy_block_ok:
  assumes other: "pickle_ok other" and oblk: "header other = Some oblk"
    and p: "header p = Some blk" "length blk = header_size p + capacity_after_header p"
      "header_size p = header_size other" "write_offset other \<le> capacity_after_header p"
      "capacity_after_header p < 2 ^ 34" "64 dvd capacity_after_header p"
  shows "\<exists>b'. copy_block p oblk = Some (p\<lparr>header := Some b'\<rparr>) \<and>
    pickle_ok (p\<lparr>header := Some b', write_offset := write_offset other\<rparr>) \<and>
    take (write_offset other) (drop (header_size p) b') = payload_of other"
proof -
  have ps: "hdr_payload_size oblk = write_offset other"
    using pickle_ok_payload_size [OF other] oblk by (simp add: payload_size_def)
  let ?k = "header_size p + write_offset other"
  have o: "length oblk = header_size other + capacity_after_header other"
    "mem_read oblk 0 4 = Some (le_bytes 4 (word_of_nat (write_offset other) :: u32))"
    "mem_read oblk (header_size other) (write_offset other) = Some (payload_of other)"
    using pickle_okE [OF other] oblk by auto
  obtain bs where bs: "mem_read oblk 0 ?k = Some bs" "length bs = ?k"
    using o(1) other p(3) by (auto simp: mem_read_def pickle_ok_def)
  obtain b' where b': "mem_write blk 0 bs = Some b'"
    using mem_write_ok [of 0 bs blk] bs(2) p by auto
  have len: "length b' = length blk" by (rule length_mem_write [OF b'])
  have "mem_read b' 0 4 = mem_read oblk 0 4"
    using other p(3) by (intro mem_read_prefix [OF bs(1) b']) (simp add: pickle_ok_def)
  moreover have "mem_read b' (header_size p) (write_offset other) = Some (payload_of other)"
    using mem_read_prefix [OF bs(1) b', of "header_size p" "write_offset other"] o(3) p(3) by simp
  moreover have "copy_block p oblk = Some (p\<lparr>header := Some b'\<rparr>)"
    using bs b' p by (simp add: copy_block_def ps)
  ultimately have "pickle_ok (p\<lparr>header := Some b', write_offset := write_offset other\<rparr>)"
    and "take (write_offset other) (drop (header_size p) b') = payload_of other"
    using o len p other by (simp_all add: pickle_ok_def) (simp add: mem_read_def split: if_splits)
  with \<open>copy_block p oblk = Some (p\<lparr>header := Some b'\<rparr>)\<close> show ?thesis by blast
qed

lemma Resize_copy:
  assumes other: "pickle_ok other" and oblk: "header other = Some oblk"
    and p: "capacity_after_header p < 2 ^ 34" "header_size p = header_size other"
  shows "\<exists>c blk. Resize junk p (hdr_payload_size oblk) =
      Some (p\<lparr>capacity_after_header := c, header := Some blk\<rparr>) \<and>
    length blk = header_size p + c \<and> write_offset other \<le> c \<and> c < 2 ^ 34 \<and> 64 dvd c"
proof -
  have ps: "hdr_payload_size oblk = write_offset other"
    using pickle_ok_payload_size [OF other] oblk by (simp add: payload_size_def)
  have "write_offset other < 2 ^ 32" "header_size p \<le> 64"
    using other p(2) by (simp_all add: pickle_ok_def uint32_max_def)
  moreover have "write_offset other \<le> align_up 64 (write_offset other)"
    "align_up 64 (write_offset other) < write_offset other + 64"
    by (rule align_up_ge align_up_less; simp)+
  ultimately show ?thesis
    using p(1) by (intro exI conjI) (rule Resize_eq [of p "write_offset other" junk, folded ps], simp_all add: ps)
qed

lemma Pickle_copy_ok:
  assumes "pickle_ok other"
  shows "\<exists>p. Pickle_copy junk other = Some p \<and> pickle_ok p \<and> header_size p = header_size other \<and>
    payload_of p = payload_of other"
proof -
  obtain oblk where oblk: "header other = Some oblk" using assms by (rule pickle_okE)
  let ?p = "\<lparr>header = None, header_size = header_size other, capacity_after_header = 0,
    write_offset = write_offset other\<rparr>"
  obtain c blk where c: "Resize junk ?p (hdr_payload_size oblk) =
      Some (?p\<lparr>capacity_after_header := c, header := Some blk\<rparr>)"
    "length blk = header_size ?p + c" "write_offset other \<le> c" "c < 2 ^ 34" "64 dvd c"
    using Resize_copy [OF assms oblk, of ?p junk] by auto
  obtain b' where "copy_block (?p\<lparr>capacity_after_header := c, header := Some blk\<rparr>) oblk =
      Some (?p\<lparr>capacity_after_header := c, header := Some b'\<rparr>)"
    "pickle_ok (?p\<lparr>capacity_after_header := c, header := Some b'\<rparr>)"
    "take (write_offset other) (drop (header_size other) b') = payload_of other"
    using copy_block_ok [OF assms oblk, of "?p\<lparr>capacity_after_header := c, header := Some blk\<rparr>" blk] c
    by auto
  with c(1) show ?thesis by (simp add: Pickle_copy_def oblk payload_of_def)
qed

lemma Pickle_assign_ok:
  assumes "pickle_ok other" and "pickle_ok p \<or> capacity_after_header p = kCapacityReadOnly"
  shows "\<exists>p'. Pickle_assign junk p other = Some p' \<and> pickle_ok p' \<and> header_size p' = header_size other \<and>
    payload_of p' = payload_of other"
proof -
  obtain oblk where oblk: "header other = Some oblk" using assms(1) by (rule pickle_okE)
  define p1 where "p1 = (if capacity_after_header p = kCapacityReadOnly
    then p\<lparr>header := None, capacity_after_header := 0\<rparr> else p)"
  define p2 where "p2 = (if header_size p1 \<noteq> header_size other
    then p1\<lparr>header := None, header_size := header_size other\<rparr> else p1)"
  have p2: "header_size p2 = header_size other" "capacity_after_header p2 < 2 ^ 34"
    using assms(2) by (auto simp: p2_def p1_def pickle_ok_def kCapacityReadOnly_eq)
  obtain c blk where c: "Resize junk p2 (hdr_payload_size oblk) =
      Some (p2\<lparr>capacity_after_header := c, header := Some blk\<rparr>)"
    "length blk = header_size p2 + c" "write_offset other \<le> c" "c < 2 ^ 34" "64 dvd c"
    using Resize_copy [OF assms(1) oblk p2(2,1)] by blast
  obtain b' where b': "copy_block (p2\<lparr>capacity_after_header := c, header := Some blk\<rparr>) oblk =
      Some (p2\<lparr>capacity_after_header := c, header := Some b'\<rparr>)"
    "pickle_ok (p2\<lparr>capacity_after_header := c, header := Some b', write_offset := write_offset other\<rparr>)"
    "take (write_offset other) (drop (header_size other) b') = payload_of other"
    using copy_block_ok [OF assms(1) oblk, of "p2\<lparr>capacity_after_header := c, header := Some blk\<rparr>" blk] c p2
    by auto
  have "Pickle_assign junk p other =
      Some (p2\<lparr>capacity_after_header := c, header := Some b', write_offset := write_offset other\<rparr>)"
    using c(1) b'(1) by (simp add: Pickle_assign_def p1_def [symmetric] p2_def [symmetric] oblk Let_def)
  with b' p2 show ?thesis by (simp add: payload_of_def)
qed

text \<open>The writable pickles a program can build, header sizes being object sizes. A copy or an assignment takes another such pickle.\<close>

inductive pickle_reachable :: "pickle \<Rightarrow> bool" where
  default: "Pickle_default junk = Some p \<Longrightarrow> pickle_reachable p"
| with_header: "0 \<le> h \<Longrightarrow> Pickle_header junk h = Some p \<Longrightarrow> pickle_reachable p"
| copied: "pickle_reachable other \<Longrightarrow> Pickle_copy junk other = Some p \<Longrightarrow> pickle_reachable p"
| assigned: "pickle_reachable other \<Longrightarrow> pickle_reachable p \<or> Pickle_data data len = Some p \<Longrightarrow>
    Pickle_assign junk p other = Some p' \<Longrightarrow> pickle_reachable p'"
| written: "pickle_reachable p \<Longrightarrow> WriteBytes junk p data len = Some p' \<Longrightarrow> pickle_reachable p'"
| reserved: "pickle_reachable p \<Longrightarrow> Reserve junk p n = Some p' \<Longrightarrow> pickle_reachable p'"
| claimed: "pickle_reachable p \<Longrightarrow> ClaimBytes junk p n = Some (p', w) \<Longrightarrow> pickle_reachable p'"

lemma Pickle_header_Some: "Pickle_header junk h = Some p \<Longrightarrow> 0 \<le> h \<Longrightarrow> 4 \<le> h \<and> h \<le> 64"
  by (auto simp: Pickle_header_def bind_eq_Some_conv kPayloadUnit_def int_to_size_def split: if_splits)

lemma Pickle_data_readonly: "Pickle_data data len = Some p \<Longrightarrow> capacity_after_header p = kCapacityReadOnly"
  by (auto simp: Pickle_data_def bind_eq_Some_conv Let_def)

lemma pickle_reachable_ok: "pickle_reachable p \<Longrightarrow> pickle_ok p"
proof (induction rule: pickle_reachable.induct)
  case (default junk p)
  then show ?case using Pickle_default_ok [of junk] by auto
next
  case (with_header h junk p)
  then show ?case using Pickle_header_ok [of h junk] Pickle_header_Some [of junk h p] by auto
next
  case (copied other junk p)
  then show ?case using Pickle_copy_ok [of other junk] by auto
next
  case (assigned other p data len junk p')
  then show ?case
    using Pickle_assign_ok [of other p junk] Pickle_data_readonly [of data len p] by auto
next
  case (written p junk data len p')
  then show ?case using WriteBytesCommon_cases [of p junk data "int_to_size len" p']
    by (simp add: WriteBytes_def)
next
  case (reserved p junk n p')
  then show ?case using Reserve_cases by blast
next
  case (claimed p junk n p' w)
  then show ?case using ClaimBytes_cases by blast
qed

lemma PickleIterator_ok:
  assumes "pickle_ok p"
  shows "iter_ok (PickleIterator p)" and "unread (PickleIterator p) = payload_of p"
  using assms pickle_ok_payload_size [OF assms]
  by (auto simp: PickleIterator_def iter_ok_def unread_def payload_of_def pickle_ok_def uint32_max_def
      split: option.splits)

text \<open>The bytes a program sends: \<open>size()\<close> bytes from \<open>data()\<close>.\<close>

definition sent :: "pickle \<Rightarrow> byte list" where
  "sent p = (case header p of None \<Rightarrow> [] | Some blk \<Rightarrow> take (header_size p + hdr_payload_size blk) blk)"

lemma sent_ok:
  assumes "pickle_ok p"
  shows "length (sent p) = header_size p + write_offset p"
    and "hdr_payload_size (sent p @ rest) = write_offset p"
    and "take (write_offset p) (drop (header_size p) (sent p @ rest)) = payload_of p"
proof -
  obtain blk where blk: "header p = Some blk" "length blk = header_size p + capacity_after_header p"
    using assms by (rule pickle_okE)
  have ps: "hdr_payload_size blk = write_offset p"
    using pickle_ok_payload_size [OF assms] blk by (simp add: payload_size_def)
  have hs: "4 \<le> header_size p" "write_offset p \<le> capacity_after_header p"
    using assms by (simp_all add: pickle_ok_def)
  show len: "length (sent p) = header_size p + write_offset p"
    using blk ps hs by (simp add: sent_def)
  have "take 4 (sent p @ rest) = take 4 blk"
    using blk ps hs len by (simp add: sent_def min_def)
  then show "hdr_payload_size (sent p @ rest) = write_offset p"
    using ps by (simp only: hdr_payload_size_def)
  show "take (write_offset p) (drop (header_size p) (sent p @ rest)) = payload_of p"
    using blk ps hs by (simp add: sent_def payload_of_def drop_take)
qed

lemma dvd_align_up: "4 dvd n \<Longrightarrow> align_up 4 n = n"
  by (rule align_up_id) simp_all

lemma mem_read_0: "n \<le> length m \<Longrightarrow> mem_read m 0 n = Some (take n m)"
  by (simp add: mem_read_def)

lemma Pickle_data_sent:
  assumes "pickle_ok p" and "length (sent p) < 2 ^ 31"
  shows "Pickle_data (sent p) (int (length (sent p))) =
    Some \<lparr>header = Some (sent p), header_size = header_size p,
          capacity_after_header = kCapacityReadOnly, write_offset = 0\<rparr>"
proof -
  note len = sent_ok(1) [OF assms(1)]
  have hs: "4 \<le> header_size p" "header_size p \<le> 64" "4 dvd header_size p"
    using assms(1) by (simp_all add: pickle_ok_def)
  have "hdr_payload_size (take 4 (sent p)) = write_offset p"
    using sent_ok(2) [OF assms(1), of "[]"] by (simp add: hdr_payload_size_def)
  moreover have "nat ((int (header_size p + write_offset p) - int (write_offset p)) mod 2 ^ 32) = header_size p"
    using hs by simp
  moreover have "nat (int (header_size p + write_offset p) mod 2 ^ 32) = header_size p + write_offset p"
    using assms(2) len by (simp add: nat_mod_distrib)
  moreover have "size_align (header_size p) 4 = Some (header_size p)"
    using hs by (simp add: size_align_4 dvd_align_up)
  moreover have "nat (int (header_size p) + int (write_offset p)) = header_size p + write_offset p"
    by (simp add: nat_add_distrib)
  ultimately show ?thesis
    using hs len by (simp add: Pickle_data_def mem_read_0)
qed

text \<open>Reading an arbitrary buffer with an arbitrary sequence of calls; failed reads are ignored.\<close>

datatype read_op = Read pickle_kind | Length | Skip u32

definition after :: "('a \<times> pickle_iterator) option \<Rightarrow> pickle_iterator option" where
  "after = map_option snd"

primrec run_read :: "read_op \<Rightarrow> pickle_iterator \<Rightarrow> pickle_iterator option" where
  "run_read (Read k) it = after (read_value k it)"
| "run_read Length it = after (ReadLength it)"
| "run_read (Skip n) it = after (SkipBytes it (sint n))"

fun run_reads :: "read_op list \<Rightarrow> pickle_iterator \<Rightarrow> pickle_iterator option" where
  "run_reads [] it = Some it"
| "run_reads (r # rs) it = do { it \<leftarrow> run_read r it; run_reads rs it }"

definition safe :: "('a \<times> pickle_iterator) option \<Rightarrow> bool" where
  "safe r \<longleftrightarrow> (\<exists>x it. r = Some (x, it) \<and> iter_ok it)"

lemma safe_builtin: "iter_ok it \<Longrightarrow> safe (ReadBuiltinType it n)"
  using ReadBuiltinType_eq [of it n] by (auto simp: safe_def)

lemma safe_word: "iter_ok it \<Longrightarrow> safe (ReadWord it n)"
  using safe_builtin [of it n] by (auto simp: safe_def ReadWord_def)

lemma safe_bytes: "iter_ok it \<Longrightarrow> safe (ReadBytes it (sint (n :: u32)))"
  using ReadBytes_eq [of it "sint n"] sint_u32_less [of n] by (auto simp: safe_def)

lemma safe_prefixed: "iter_ok it \<Longrightarrow> safe (ReadString it)" "iter_ok it \<Longrightarrow> safe (ReadData it)"
proof -
  have "safe (Option.bind (ReadInt32 it) (\<lambda>(len, it).
      case len of None \<Rightarrow> Some (None, it) | Some len \<Rightarrow> ReadBytes it (sint len)))" if ok: "iter_ok it"
  proof -
    obtain r it' where "ReadInt32 it = Some (r, it')" "iter_ok it'"
      using safe_word [OF ok, of 4, where 'a = 32] by (auto simp: safe_def ReadInt32_def)
    then show ?thesis
      using safe_bytes [of it'] by (cases r) (auto simp: safe_def)
  qed
  then show "iter_ok it \<Longrightarrow> safe (ReadString it)" "iter_ok it \<Longrightarrow> safe (ReadData it)"
    by (simp_all add: ReadString_def ReadData_def)
qed

lemma safe_tag: "safe r \<Longrightarrow> safe (tag f r)"
  by (auto simp: safe_def tag_def)

lemma safe_bool: "iter_ok it \<Longrightarrow> safe (ReadBool it)"
  using safe_builtin [of it 1] by (auto simp: safe_def ReadBool_def)

lemma safe_read_value: "iter_ok it \<Longrightarrow> safe (read_value k it)"
  by (cases k) (simp_all add: safe_tag safe_bool safe_word safe_prefixed safe_bytes
      ReadInt16_def ReadInt32_def ReadInt64_def)

lemma safe_skip:
  assumes "iter_ok it"
  shows "safe (SkipBytes it (sint (n :: u32)))"
proof -
  obtain r it' where "GetReadPointerAndAdvance it (sint n) = Some (r, it') \<and> iter_ok it'"
    using ReadBytes_eq [OF assms, of "sint n"] sint_u32_less [of n]
    by (auto simp: ReadBytes_def load_def bind_eq_Some_conv split: option.splits)
  then show ?thesis by (auto simp: safe_def SkipBytes_def)
qed

lemma run_read_ok: "iter_ok it \<Longrightarrow> \<exists>it'. run_read r it = Some it' \<and> iter_ok it'"
  using safe_read_value [of it] safe_skip [of it] safe_word [of it 4, where 'a = 32]
  by (cases r) (fastforce simp: safe_def after_def ReadLength_def ReadInt32_def)+

lemma run_reads_ok: "iter_ok it \<Longrightarrow> \<exists>it'. run_reads rs it = Some it' \<and> iter_ok it'"
proof (induction rs arbitrary: it)
  case (Cons r rs)
  with run_read_ok [of it r] show ?case by auto
qed simp

text \<open>The view of any buffer is well formed or null.\<close>

lemma Pickle_data_ok:
  assumes "length data < 2 ^ 31"
  shows "\<exists>p. Pickle_data data (int (length data)) = Some p \<and> iter_ok (PickleIterator p) \<and>
    header_size p + payload_size p \<le> length data"
proof -
  define n where "n = hdr_payload_size (take 4 data)"
  define h1 where "h1 = (if length data \<ge> 4 then nat ((int (length data) - int n) mod 2 ^ 32) else 0)"
  define h2 where "h2 = (if h1 > length data then 0 else h1)"
  define h3 where "h3 = (if h2 \<noteq> align_up 4 h2 then 0 else h2)"
  have n: "n < 2 ^ 32" unfolding n_def hdr_payload_size_def by (rule unsigned_less [THEN less_le_trans]) simp
  have len: "nat (int (length data) mod 2 ^ 32) = length data" using assms by (simp add: nat_mod_distrib)
  have step1: "(if 4 \<le> int (length data) then do {
      bs \<leftarrow> mem_read data 0 4;
      Some (nat ((int (length data) - int (hdr_payload_size bs)) mod 2 ^ 32)) } else Some 0) = Some h1"
    by (simp add: mem_read_0 h1_def n_def)
  have "h2 \<le> length data" by (simp add: h2_def)
  with assms have "size_align h2 4 = Some (align_up 4 h2)" by (intro size_align_4) simp
  then have run: "Pickle_data data (int (length data)) =
      Some \<lparr>header = (if h3 = 0 then None else Some data), header_size = h3,
        capacity_after_header = kCapacityReadOnly, write_offset = 0\<rparr>"
    unfolding Pickle_data_def step1
    by (simp only: Option.bind.bind_lunit Let_def len h2_def [symmetric])
       (simp only: Option.bind.bind_lunit h3_def [symmetric])
  have "h3 + n = length data" if "h3 \<noteq> 0"
  proof -
    from that have h: "h3 = h1" "h1 \<le> length data" "4 \<le> length data" "h1 \<noteq> 0"
      by (auto simp: h3_def h2_def h1_def split: if_splits)
    show ?thesis
    proof (cases "n \<le> length data")
      case True
      with h assms show ?thesis by (simp add: h1_def)
    next
      case False
      have "(int (length data) - int n) mod 2 ^ 32 = (int (length data) - int n + 2 ^ 32) mod 2 ^ 32"
        by simp
      also have "\<dots> = int (length data) - int n + 2 ^ 32"
        using n assms False by (intro mod_pos_pos_trivial) auto
      finally have "nat ((int (length data) - int n) mod 2 ^ 32) > length data"
        using n by simp
      with h n False show ?thesis by (simp add: h1_def)
    qed
  qed
  then show ?thesis
    using run assms by (auto simp: PickleIterator_def iter_ok_def payload_size_def n_def
        hdr_payload_size_def)
qed

subsection \<open>Lemmas: the size predictor\<close>

lemma AddBytes_eq:
  "acc + align_up 4 k \<le> uint32_max \<Longrightarrow> AddBytes acc (int k) = Some (acc + align_up 4 k)"
proof -
  assume *: "acc + align_up 4 k \<le> uint32_max"
  moreover have "k \<le> align_up 4 k" by (rule align_up_ge) simp
  ultimately have "k + 4 \<le> 2 ^ 64" "k < 2 ^ 63" by (simp_all add: uint32_max_def)
  with * show ?thesis
    by (simp add: AddBytes_def int_to_size_id size_align_4 size_add_exact uint32_max_def size_max_def)
qed

lemma size_value_eq:
  "valid_value v \<Longrightarrow> acc + length (value_bytes v) \<le> uint32_max \<Longrightarrow>
     size_value acc v = Some (acc + length (value_bytes v))"
  using AddBytes_eq [of acc 2] AddBytes_eq [of acc 4] AddBytes_eq [of acc 8] AddBytes_eq [of "acc + 4"]
  by (cases v) (simp_all add: AddBool_def AddInt16_def AddInt32_def AddInt64_def AddString_def AddData_def
      prefixed_def sint_length AddBytes_eq)

lemma size_values_eq:
  "\<forall>v\<in>set vs. valid_value v \<Longrightarrow> acc + length (concat (map value_bytes vs)) \<le> uint32_max \<Longrightarrow>
     foldl (\<lambda>n v. Option.bind n (\<lambda>n. size_value n v)) (Some acc) vs =
       Some (acc + length (concat (map value_bytes vs)))"
proof (induction vs arbitrary: acc)
  case (Cons v vs)
  then show ?case using size_value_eq [of v acc] by simp
qed simp

subsection \<open>Properties\<close>

text \<open>C1: the serialiser's round trip: any sequence of values (booleans, integers, strings, data
  blocks, raw bytes) whose encodings fit in 32 bits is written without an abort, and an iterator over
  the pickle reads back exactly these values and ends at the end; the payload has the predicted size,
  and \<open>PickleSizer\<close> predicts it.\<close>

theorem pickle_roundtrip:
  assumes "\<forall>v\<in>set vs. valid_value v" and "length (concat (map value_bytes vs)) \<le> uint32_max"
  shows "\<exists>p0 p it. Pickle_default junk = Some p0 \<and> put_all (write_value junk) p0 vs = Some p \<and>
    payload_size p = length (concat (map value_bytes vs)) \<and>
    foldl (\<lambda>n v. Option.bind n (\<lambda>n. size_value n v)) (Some 0) vs = Some (payload_size p) \<and>
    get_all read_value (map kind_of vs) (PickleIterator p) = Some (Some vs, it) \<and> unread it = []"
proof -
  obtain p0 where p0: "Pickle_default junk = Some p0" "pickle_ok p0" "write_offset p0 = 0"
    using Pickle_default_ok [of junk] by auto
  then have empty: "payload_of p0 = []" using length_payload_of [of p0] by simp
  obtain p where p: "put_all (write_value junk) p0 vs = Some p" "pickle_ok p"
    "payload_of p = concat (map value_bytes vs)"
    using wire.put_all_appends [OF p0(2) assms(1), of junk] assms(2) p0(3) empty by auto
  obtain it where "get_all read_value (map kind_of vs) (PickleIterator p) = Some (Some vs, it)"
    "unread it = []"
    using wire.get_all_consumes [OF PickleIterator_ok(1) [OF p(2)] assms(1), of "[]"]
      PickleIterator_ok(2) [OF p(2)] p(3) by auto
  moreover have "payload_size p = length (concat (map value_bytes vs))"
    using pickle_ok_payload_size [OF p(2)] length_payload_of [OF p(2)] p(3) by simp
  ultimately show ?thesis
    using p0(1) p(1) size_values_eq [OF assms(1), of 0] assms(2) by simp
qed

theorem pickle_roundtrip_witness:
  "\<exists>p0 p it. Pickle_default (\<lambda>_. 0) = Some p0 \<and>
    put_all (write_value (\<lambda>_. 0)) p0 [VBool True, VString [72, 105], VInt64 5] = Some p \<and>
    get_all read_value [KBool, KString, KInt64] (PickleIterator p) =
      Some (Some [VBool True, VString [72, 105], VInt64 5], it)"
  using pickle_roundtrip [of "[VBool True, VString [72, 105], VInt64 5]" "\<lambda>_. 0"]
  by (auto simp: uint32_max_def prefixed_def)



text \<open>C2: reading an untrusted buffer never leaves it: for any received bytes and any sequence of read
  calls with any arguments, no read touches memory outside the buffer and no check aborts.\<close>

theorem untrusted_reads_safe:
  assumes "length data < 2 ^ 31"
  shows "\<exists>p it. Pickle_data data (int (length data)) = Some p \<and>
    header_size p + payload_size p \<le> length data \<and>
    run_reads rs (PickleIterator p) = Some it \<and> read_index it \<le> end_index it"
  using Pickle_data_ok [OF assms] run_reads_ok iter_ok_def by metis

theorem untrusted_reads_safe_witness:
  "\<exists>p it. Pickle_data [8, 0, 0, 0, 255, 255, 255, 127] 8 = Some p \<and>
    run_reads [Read KString, Skip 3] (PickleIterator p) = Some it"
  using untrusted_reads_safe [of "[8, 0, 0, 0, 255, 255, 255, 127]" "[Read KString, Skip 3]"] by auto

text \<open>What is sent can be received: the bytes of any built pickle, put at the front of a buffer,
  are recognised by \<open>FindNext\<close> with their exact length, and the view the receiver constructs on
  them has the same header size and iterates over the same payload.\<close>

theorem pickle_wire:
  assumes "pickle_reachable p" and "length (sent p) < 2 ^ 31"
  shows "FindNext (header_size p) (sent p @ rest) = Some (Some (length (sent p))) \<and>
    (\<exists>q. Pickle_data (sent p) (int (length (sent p))) = Some q \<and> header_size q = header_size p \<and>
       payload_size q = payload_size p \<and> unread (PickleIterator q) = unread (PickleIterator p))"
proof -
  have ok: "pickle_ok p" by (rule pickle_reachable_ok [OF assms(1)])
  note len = sent_ok(1) [OF ok]
  have hs: "4 \<le> header_size p" "header_size p \<le> 64" "4 dvd header_size p"
    using ok by (simp_all add: pickle_ok_def)
  have al: "size_align (header_size p) 4 = Some (header_size p)"
    using hs by (simp add: size_align_4 dvd_align_up)
  have "\<not> write_offset p > npos - header_size p"
    using ok hs by (auto simp: pickle_ok_def npos_def size_max_def uint32_max_def)
  then have find: "FindNext (header_size p) (sent p @ rest) = Some (Some (length (sent p)))"
    using hs len by (simp add: FindNext_def PeekNext_def al kPayloadUnit_def sent_ok(2) [OF ok])
  let ?q = "\<lparr>header = Some (sent p), header_size = header_size p,
    capacity_after_header = kCapacityReadOnly, write_offset = 0\<rparr>"
  have "payload_size ?q = payload_size p"
    using sent_ok(2) [OF ok, of "[]"] pickle_ok_payload_size [OF ok] by (simp add: payload_size_def)
  moreover have "unread (PickleIterator ?q) = payload_of p"
    using sent_ok(2,3) [OF ok, of "[]"]
    by (simp add: PickleIterator_def unread_def payload_size_def)
  ultimately show ?thesis
    using find Pickle_data_sent [OF ok assms(2)] PickleIterator_ok(2) [OF ok] by simp
qed

theorem pickle_wire_witness:
  "\<exists>p q. Pickle_default (\<lambda>_. 0) = Some p \<and> Pickle_data (sent p) 4 = Some q \<and> payload_size q = 0"
proof -
  obtain p where p: "Pickle_default (\<lambda>_. 0) = Some p" "pickle_ok p" "write_offset p = 0" "header_size p = 4"
    using Pickle_default_ok [of "\<lambda>_. 0"] by auto
  then have len: "length (sent p) = 4" using sent_ok(1) [of p] by simp
  show ?thesis
    using pickle_wire [OF pickle_reachable.default [OF p(1)]] p len pickle_ok_payload_size [OF p(2)]
    by auto
qed

text \<open>Copies are faithful for built pickles: the copy constructor and the assignment never abort
  and give a pickle with the same header size and payload, ready for further writes at its end.\<close>

theorem pickle_copies:
  assumes "pickle_reachable other" and "pickle_reachable p \<or> Pickle_data data len = Some p"
  shows "(\<exists>q. Pickle_copy junk other = Some q \<and> pickle_ok q \<and> payload_of q = payload_of other \<and>
      header_size q = header_size other) \<and>
    (\<exists>q. Pickle_assign junk p other = Some q \<and> pickle_ok q \<and> payload_of q = payload_of other \<and>
      header_size q = header_size other)"
proof -
  have "pickle_ok p \<or> capacity_after_header p = kCapacityReadOnly"
    using assms(2) pickle_reachable_ok Pickle_data_readonly by blast
  then show ?thesis
    using Pickle_copy_ok [OF pickle_reachable_ok [OF assms(1)], of junk]
      Pickle_assign_ok [OF pickle_reachable_ok [OF assms(1)], of p junk] by auto
qed

theorem pickle_copies_witness:
  "\<exists>p q. Pickle_default (\<lambda>_. 0) = Some p \<and> Pickle_copy (\<lambda>_. 1) p = Some q \<and> payload_of q = payload_of p"
proof -
  obtain p where p: "Pickle_default (\<lambda>_. 0) = Some p" using Pickle_default_ok [of "\<lambda>_. 0"] by auto
  then show ?thesis
    using pickle_copies [of p p "[]" 0 "\<lambda>_. 1"] pickle_reachable.default [OF p] by auto
qed

text \<open>But a copy of a received, read-only pickle is not: its write offset is 0 while its payload
  is not empty, so the next write overwrites the payload from the start and shrinks it.\<close>

theorem copy_of_view_loses_payload:
  "do { v \<leftarrow> Pickle_data [4, 0, 0, 0, 7, 7, 7, 7] 8;
        c \<leftarrow> Pickle_copy (\<lambda>_. 0) v;
        w \<leftarrow> WriteInt16 (\<lambda>_. 0) c 1;
        Some (payload_size v, payload_size c, write_offset c,
              payload_size w, unread (PickleIterator w)) }
     = Some (4, 4, 0, 4, [1, 0, 0, 0])"
proof -
  let ?view = "[4, 0, 0, 0, 7, 7, 7, 7] :: byte list"
  let ?c = "\<lparr>header = Some (4 # 0 # 0 # 0 # 7 # 7 # 7 # 7 # replicate 60 0), header_size = 4, capacity_after_header = 64,
    write_offset = 0\<rparr>"
  let ?w = "\<lparr>header = Some (4 # 0 # 0 # 0 # 1 # 0 # 0 # 0 # replicate 60 0), header_size = 4,
    capacity_after_header = 64, write_offset = 4\<rparr>"
  have size: "hdr_payload_size (4 # 0 # 0 # 0 # bs) = 4" for bs
    by (simp add: hdr_payload_size_def)
  have v: "Pickle_data ?view 8 = Some \<lparr>header = Some ?view, header_size = 4,
      capacity_after_header = kCapacityReadOnly, write_offset = 0\<rparr>"
    by (simp add: Pickle_data_def mem_read_def size size_align_4)
  have "realloc (\<lambda>_. 0) [] 68 = replicate 68 0"
    by (simp add: realloc_def map_replicate_trivial map_replicate_const)
  then have c: "Pickle_copy (\<lambda>_. 0) \<lparr>header = Some ?view, header_size = 4,
      capacity_after_header = kCapacityReadOnly, write_offset = 0\<rparr> = Some ?c"
    by (simp add: Pickle_copy_def size Resize_eq align_up_def copy_block_def mem_read_def mem_write_def)
  have b2: "le_bytes 2 (1 :: u16) = [1, 0]" "replicate 2 (0 :: byte) = [0, 0]"
    by (simp_all add: numeral_2_eq_2)
  have "(4::nat) = Suc (Suc (Suc (Suc 0)))" by simp
  then have b4: "le_bytes 4 (4 :: u32) = [4, 0, 0, 0]" by (simp only: le_bytes.simps) simp
  have w: "WriteInt16 (\<lambda>_. 0) ?c 1 = Some ?w"
    by (simp add: WriteInt16_def WriteBytesCommon_def ClaimUninitializedBytesInternal_def size_align_4
        kCapacityReadOnly_eq uint32_max_def grow_def mem_write_def mem_read_def set_payload_size_def
        b2 b4 size_align_4)
  show ?thesis
    by (simp add: v c w payload_size_def PickleIterator_def unread_def size)
qed

end
