(* ===== verification/Thread_Manager.thy ===== *)
theory Thread_Manager
  imports Prelude "HOL-Library.Multiset"
begin

text \<open>
  \<^verbatim>\<open>threading/thread_manager.h\<close> and \<^verbatim>\<open>.cc\<close>: the thread pool. Every critical section of the source is
  one atomic step on the manager's state; workers, control calls (\<open>AddWorker\<close>, \<open>RemoveWorker\<close>,
  \<open>Stop\<close>, \<open>Join\<close>) and producers blocked in \<open>Add\<close> are threads with a program counter, and a run is any
  interleaving of their steps. A wait on a condition variable may return at any time (the source
  re-tests its condition in a loop), so notifications carry no state. The current time and the
  outcome of a timed lock are parameters of the step that reads them.
\<close>

subsection \<open>Tasks, workers and the manager's state\<close>

datatype tm_state = UNINITIALIZED | STARTING | STARTED | JOINING | STOPPING | STOPPED

datatype task_state = WAITING | EXECUTING | CANCELLED | COMPLETE

record task =
  runnable :: nat
  task_state :: task_state
  expire_time :: int

datatype tm_error = InvalidArgumentException | IllegalStateException | TimedOutException
  | TooManyPendingTasksException

text \<open>Where a worker is: at the entry of \<open>Run\<close>, at the top of its loop, waiting in \<open>monitor_\<close>, outside
  the lock with a task, before the final block, gone.\<close>

datatype worker_pc = Entry | LoopTop | Idle | Running task | Leaving | Dead

text \<open>Where a control call is: not in a call, waiting on \<open>worker_monitor_\<close> in \<open>AddWorker\<close> or
  \<open>RemoveWorker\<close>, in \<open>StopImpl\<close> before and in \<open>RemoveWorker\<close> and before the last block.\<close>

datatype client_pc = Ready | AddWorkerWait | RemoveWorkerWait | StopRemove | StopWait | StopFinal

text \<open>The fields after \<open>blocked\<close> are history: tasks accepted by \<open>Add\<close>, tasks taken off the queue (to
  run, expired, or by \<open>RemoveNextPending\<close>), calls of \<open>Run\<close> and of the expire callback, workers that
  reached the final block without having been counted, pushes by a blocked \<open>Add\<close> after the manager
  left STARTED, and whether a worker left its loop while JOINING.\<close>

record manager =
  worker_count :: nat
  worker_max_count :: nat
  idle_count :: nat
  pending_task_count_max :: nat
  expired_count :: nat
  state :: tm_state
  thread_factory :: bool
  expire_callback :: bool
  tasks :: "task list"
  workers :: "worker_pc list"
  clients :: "client_pc list"
  blocked :: "(nat \<times> int \<times> int) list"
  accepted :: "nat list"
  dequeued :: "nat list"
  executed :: "nat list"
  callbacks :: "nat list"
  misfits :: nat
  late_adds :: nat
  left_joining :: bool

definition new_manager :: "nat \<Rightarrow> manager" where
  "new_manager n = \<lparr>worker_count = 0, worker_max_count = 0, idle_count = 0, pending_task_count_max = 0,
     expired_count = 0, state = UNINITIALIZED, thread_factory = False, expire_callback = False,
     tasks = [], workers = [], clients = replicate n Ready, blocked = [], accepted = [], dequeued = [],
     executed = [], callbacks = [], misfits = 0, late_adds = 0, left_joining = False\<rparr>"

text \<open>\<open>expiration\<close> is in milliseconds from now, 0 for a task that never expires.\<close>

definition new_task :: "int \<Rightarrow> nat \<Rightarrow> int \<Rightarrow> task" where
  "new_task now r expiration =
     \<lparr>runnable = r, task_state = WAITING, expire_time = (if expiration \<noteq> 0 then now + expiration else 0)\<rparr>"

subsection \<open>The queue\<close>

text \<open>\<open>RemoveExpiredTasks\<close>: the loop ends at the first task that does not expire or is not due.\<close>

function RemoveExpiredTasks :: "int \<Rightarrow> manager \<Rightarrow> manager" where
  "RemoveExpiredTasks now s =
     (case tasks s of [] \<Rightarrow> s
      | t # ts \<Rightarrow>
          if expire_time t = 0 then s
          else if expire_time t > now then s
          else RemoveExpiredTasks now (s\<lparr>tasks := ts,
                 expired_count := size_add (expired_count s) 1,
                 callbacks := (if expire_callback s then callbacks s @ [runnable t] else callbacks s),
                 dequeued := dequeued s @ [runnable t]\<rparr>))"
  by pat_completeness auto
termination
  by (relation "measure (\<lambda>(now, s). length (tasks s))") auto

declare RemoveExpiredTasks.simps [simp del]

definition push_task :: "int \<Rightarrow> nat \<Rightarrow> int \<Rightarrow> manager \<Rightarrow> manager" where
  "push_task now r expiration s =
     s\<lparr>tasks := tasks s @ [new_task now r expiration], accepted := accepted s @ [r]\<rparr>"

definition queue_full :: "manager \<Rightarrow> bool" where
  "queue_full s = (pending_task_count_max s > 0 \<and> length (tasks s) \<ge> pending_task_count_max s)"

datatype add_result = Added | Blocked | Failed tm_error

text \<open>\<open>got_lock\<close> is the outcome of the timed lock, \<open>is_worker\<close> whether the caller is a worker of this
  manager (\<open>CanSleep\<close>).\<close>

definition Add ::
    "nat \<Rightarrow> int \<Rightarrow> int \<Rightarrow> int \<Rightarrow> bool \<Rightarrow> bool \<Rightarrow> manager \<Rightarrow> add_result \<times> manager" where
  "Add r timeout expiration now got_lock is_worker s =
     (if \<not> got_lock then (Failed TimedOutException, s)
      else if state s \<noteq> STARTED then (Failed IllegalStateException, s)
      else let s = RemoveExpiredTasks now s in
           if queue_full s
           then if \<not> is_worker \<and> timeout \<ge> 0
                then (Blocked, s\<lparr>blocked := blocked s @ [(r, timeout, expiration)]\<rparr>)
                else (Failed TooManyPendingTasksException, s)
           else (Added, push_task now r expiration s))"

text \<open>A blocked \<open>Add\<close> returns from \<open>max_monitor_.Wait\<close>: it waits again while the queue is full, else it
  pushes its task. With a positive timeout the wait may throw instead.\<close>

definition Add_wakes :: "nat \<Rightarrow> int \<Rightarrow> manager \<Rightarrow> manager option" where
  "Add_wakes i now s =
     (if i < length (blocked s) then
        (case blocked s ! i of (r, timeout, expiration) \<Rightarrow>
           if queue_full s then Some s
           else Some (push_task now r expiration
             (s\<lparr>blocked := take i (blocked s) @ drop (Suc i) (blocked s),
                late_adds := (if state s = STARTED then late_adds s else Suc (late_adds s))\<rparr>)))
      else None)"

definition Add_times_out :: "nat \<Rightarrow> manager \<Rightarrow> manager option" where
  "Add_times_out i s =
     (if i < length (blocked s) \<and> fst (snd (blocked s ! i)) > 0
      then Some (s\<lparr>blocked := take i (blocked s) @ drop (Suc i) (blocked s)\<rparr>) else None)"

definition Remove :: "manager \<Rightarrow> tm_error + unit" where
  "Remove s = (if state s \<noteq> STARTED then Inl IllegalStateException else Inr ())"

definition RemoveNextPending :: "manager \<Rightarrow> (tm_error + nat option) \<times> manager" where
  "RemoveNextPending s =
     (if state s \<noteq> STARTED then (Inl IllegalStateException, s)
      else case tasks s of [] \<Rightarrow> (Inr None, s)
           | t # ts \<Rightarrow> (Inr (Some (runnable t)),
                        s\<lparr>tasks := ts, dequeued := dequeued s @ [runnable t]\<rparr>))"

definition TotalTaskCount :: "manager \<Rightarrow> nat" where
  "TotalTaskCount s = size_sub (size_add (length (tasks s)) (worker_count s)) (idle_count s)"

definition ExpiredTaskCount :: "manager \<Rightarrow> nat \<times> manager" where
  "ExpiredTaskCount s = (expired_count s, s\<lparr>expired_count := 0\<rparr>)"

subsection \<open>Workers\<close>

definition IsActive :: "manager \<Rightarrow> bool" where
  "IsActive s = (worker_count s \<le> worker_max_count s \<or> (state s = JOINING \<and> tasks s \<noteq> []))"

definition set_worker :: "nat \<Rightarrow> worker_pc \<Rightarrow> manager \<Rightarrow> manager" where
  "set_worker w pc s = s\<lparr>workers := (workers s)[w := pc]\<rparr>"

text \<open>The block at the entry of \<open>Run\<close>. A worker that finds enough others skips the loop, and goes
  through the final block like one that was counted.\<close>

definition worker_enter :: "nat \<Rightarrow> manager \<Rightarrow> manager" where
  "worker_enter w s =
     (if worker_count s < worker_max_count s
      then set_worker w LoopTop (s\<lparr>worker_count := size_add (worker_count s) 1\<rparr>)
      else set_worker w Leaving (s\<lparr>misfits := Suc (misfits s)\<rparr>))"

text \<open>The locked part of the loop, from the test of \<open>IsActive\<close> to a wait or to the unlock.\<close>

definition worker_section :: "nat \<Rightarrow> int \<Rightarrow> manager \<Rightarrow> manager" where
  "worker_section w now s =
     (if \<not> IsActive s
      then set_worker w Leaving (s\<lparr>left_joining := (left_joining s \<or> state s = JOINING)\<rparr>)
      else if tasks s = []
      then set_worker w Idle (s\<lparr>idle_count := size_add (idle_count s) 1\<rparr>)
      else let s = RemoveExpiredTasks now s in
           case tasks s of [] \<Rightarrow> set_worker w LoopTop s
           | t # ts \<Rightarrow>
               set_worker w (Running (if task_state t = WAITING then t\<lparr>task_state := EXECUTING\<rparr> else t))
                 (s\<lparr>tasks := ts, dequeued := dequeued s @ [runnable t]\<rparr>))"

text \<open>Returning from \<open>monitor_.Wait\<close>.\<close>

definition worker_wake :: "nat \<Rightarrow> int \<Rightarrow> manager \<Rightarrow> manager" where
  "worker_wake w now s = worker_section w now (s\<lparr>idle_count := size_sub (idle_count s) 1\<rparr>)"

text \<open>\<open>Task::Run\<close>; an exception of the runnable is logged and swallowed.\<close>

definition worker_run :: "nat \<Rightarrow> task \<Rightarrow> manager \<Rightarrow> manager" where
  "worker_run w t s =
     (let s = set_worker w LoopTop s in
      if task_state t = EXECUTING then s\<lparr>executed := executed s @ [runnable t]\<rparr> else s)"

definition worker_leave :: "nat \<Rightarrow> manager \<Rightarrow> manager" where
  "worker_leave w s = set_worker w Dead (s\<lparr>worker_count := size_sub (worker_count s) 1\<rparr>)"

subsection \<open>Control calls\<close>

definition set_client :: "nat \<Rightarrow> client_pc \<Rightarrow> manager \<Rightarrow> manager" where
  "set_client c pc s = s\<lparr>clients := (clients s)[c := pc]\<rparr>"

text \<open>\<open>None\<close>: the call would wait for a STARTING manager to start, which no code sets.\<close>

definition Start :: "manager \<Rightarrow> ((tm_error + unit) \<times> manager) option" where
  "Start s =
     (if state s = STOPPED then Some (Inr (), s)
      else if state s = UNINITIALIZED
      then if \<not> thread_factory s then Some (Inl InvalidArgumentException, s)
           else Some (Inr (), s\<lparr>state := STARTED\<rparr>)
      else if state s = STARTING then None
      else Some (Inr (), s))"

text \<open>\<open>AddWorker\<close> up to its wait: the new threads are in \<open>workers\<close>, each started but not scheduled yet.
  Without a factory it dereferences null.\<close>

definition AddWorker :: "nat \<Rightarrow> nat \<Rightarrow> manager \<Rightarrow> manager option" where
  "AddWorker c n s =
     (if n > 0 \<and> \<not> thread_factory s then None
      else Some (set_client c AddWorkerWait
        (s\<lparr>worker_max_count := size_add (worker_max_count s) n,
           workers := workers s @ replicate n Entry\<rparr>)))"

text \<open>\<open>SimpleThreadManager::Start\<close> up to the wait of \<open>AddWorker\<close>.\<close>

definition SimpleStart :: "nat \<Rightarrow> nat \<Rightarrow> nat \<Rightarrow> manager \<Rightarrow> ((tm_error + unit) \<times> manager) option" where
  "SimpleStart c n pending_max s =
     (case Start (s\<lparr>pending_task_count_max := pending_max\<rparr>) of
        Some (Inr u, s) \<Rightarrow> map_option (Pair (Inr u)) (AddWorker c n s)
      | r \<Rightarrow> r)"

definition RemoveWorker :: "client_pc \<Rightarrow> nat \<Rightarrow> nat \<Rightarrow> manager \<Rightarrow> (tm_error + unit) \<times> manager" where
  "RemoveWorker waiting c n s =
     (if n > worker_max_count s then (Inl InvalidArgumentException, set_client c Ready s)
      else (Inr (), set_client c waiting (s\<lparr>worker_max_count := worker_max_count s - n\<rparr>)))"

text \<open>The wait of both calls ends when the counts agree.\<close>

definition workers_settled :: "manager \<Rightarrow> bool" where
  "workers_settled s = (worker_count s = worker_max_count s)"

definition StopImpl :: "nat \<Rightarrow> bool \<Rightarrow> manager \<Rightarrow> manager" where
  "StopImpl c join s =
     (if state s = STOPPED then s
      else if state s \<noteq> STOPPING \<and> state s \<noteq> JOINING
      then set_client c StopRemove (s\<lparr>state := (if join then JOINING else STOPPING)\<rparr>)
      else set_client c StopFinal s)"

definition stop_final :: "nat \<Rightarrow> manager \<Rightarrow> manager" where
  "stop_final c s = set_client c Ready (s\<lparr>state := STOPPED\<rparr>)"

subsection \<open>Runs\<close>

datatype tm_action =
    DoSetFactory bool | DoSetCallback bool | DoSetMax nat | DoExpiredCount | DoStart
  | DoAdd nat int int int bool bool | DoAddWakes nat int | DoAddTimesOut nat | DoRemoveNext
  | DoAddWorker nat nat | DoRemoveWorker nat nat | DoStop nat bool | DoClient nat
  | DoEnter nat | DoSection nat int | DoWake nat int | DoRun nat | DoLeave nat

text \<open>The next step of a control call that has begun.\<close>

definition client_step :: "nat \<Rightarrow> manager \<Rightarrow> manager option" where
  "client_step c s =
     (case clients s ! c of
        Ready \<Rightarrow> None
      | AddWorkerWait \<Rightarrow> if workers_settled s then Some (set_client c Ready s) else None
      | RemoveWorkerWait \<Rightarrow> if workers_settled s then Some (set_client c Ready s) else None
      | StopRemove \<Rightarrow> Some (snd (RemoveWorker StopWait c (worker_count s) s))
      | StopWait \<Rightarrow> if workers_settled s then Some (set_client c StopFinal s) else None
      | StopFinal \<Rightarrow> Some (stop_final c s))"

definition idle_client :: "nat \<Rightarrow> manager \<Rightarrow> bool" where
  "idle_client c s = (c < length (clients s) \<and> clients s ! c = Ready)"

definition worker_at :: "nat \<Rightarrow> worker_pc \<Rightarrow> manager \<Rightarrow> bool" where
  "worker_at w pc s = (w < length (workers s) \<and> workers s ! w = pc)"

text \<open>\<open>None\<close>: the step is not enabled in this state.\<close>

fun step :: "tm_action \<Rightarrow> manager \<Rightarrow> manager option" where
  "step (DoSetFactory b) s = Some (s\<lparr>thread_factory := b\<rparr>)"
| "step (DoSetCallback b) s = Some (s\<lparr>expire_callback := b\<rparr>)"
| "step (DoSetMax n) s = Some (s\<lparr>pending_task_count_max := n\<rparr>)"
| "step DoExpiredCount s = Some (snd (ExpiredTaskCount s))"
| "step DoStart s = map_option snd (Start s)"
| "step (DoAdd r timeout expiration now got_lock is_worker) s =
     Some (snd (Add r timeout expiration now got_lock is_worker s))"
| "step (DoAddWakes i now) s = Add_wakes i now s"
| "step (DoAddTimesOut i) s = Add_times_out i s"
| "step DoRemoveNext s = Some (snd (RemoveNextPending s))"
| "step (DoAddWorker c n) s = (if idle_client c s then AddWorker c n s else None)"
| "step (DoRemoveWorker c n) s =
     (if idle_client c s then Some (snd (RemoveWorker RemoveWorkerWait c n s)) else None)"
| "step (DoStop c join) s = (if idle_client c s then Some (StopImpl c join s) else None)"
| "step (DoClient c) s = (if c < length (clients s) then client_step c s else None)"
| "step (DoEnter w) s = (if worker_at w Entry s then Some (worker_enter w s) else None)"
| "step (DoSection w now) s = (if worker_at w LoopTop s then Some (worker_section w now s) else None)"
| "step (DoWake w now) s = (if worker_at w Idle s then Some (worker_wake w now s) else None)"
| "step (DoRun w) s =
     (if w < length (workers s)
      then (case workers s ! w of Running t \<Rightarrow> Some (worker_run w t s) | _ \<Rightarrow> None) else None)"
| "step (DoLeave w) s = (if worker_at w Leaving s then Some (worker_leave w s) else None)"

fun run :: "tm_action list \<Rightarrow> manager \<Rightarrow> manager option" where
  "run [] s = Some s"
| "run (a # as) s = do { s \<leftarrow> step a s; run as s }"

inductive reachable :: "nat \<Rightarrow> manager \<Rightarrow> bool" for n where
  initial: "reachable n (new_manager n)"
| step: "reachable n s \<Longrightarrow> step a s = Some s' \<Longrightarrow> reachable n s'"

lemma run_reachable: "reachable n s \<Longrightarrow> run as s = Some s' \<Longrightarrow> reachable n s'"
  by (induction "as" arbitrary: s) (auto simp: bind_eq_Some_conv intro: reachable.step)

text \<open>Starting a simple manager is a run of three steps.\<close>

lemma SimpleStart_run:
  assumes "SimpleStart c n m s = Some (Inr u, s')" and "idle_client c s"
  shows "run [DoSetMax m, DoStart, DoAddWorker c n] s = Some s'"
  using assms
  by (auto simp: SimpleStart_def Start_def idle_client_def split: if_splits sum.splits)

subsection \<open>Lemmas: the queue\<close>

text \<open>A queue and the history of what passed through it.\<close>

locale fifo =
  fixes push :: "'x \<Rightarrow> 'q \<Rightarrow> 'q" and pop :: "'q \<Rightarrow> 'q" and front :: "'q \<Rightarrow> 'x" and items :: "'q \<Rightarrow> 'x list"
  assumes items_push: "items (push x q) = items q @ [x]"
    and items_pop: "items q \<noteq> [] \<Longrightarrow> items q = front q # items (pop q)"
begin

definition history :: "'x list \<Rightarrow> 'x list \<Rightarrow> 'q \<Rightarrow> bool" where
  "history ins outs q \<longleftrightarrow> ins = outs @ items q"

lemma history_push: "history ins outs q \<Longrightarrow> history (ins @ [x]) outs (push x q)"
  by (simp add: history_def items_push)

lemma history_pop: "history ins outs q \<Longrightarrow> items q \<noteq> [] \<Longrightarrow> history ins (outs @ [front q]) (pop q)"
  using items_pop [of q] by (simp add: history_def)

end

interpretation std_queue: fifo "\<lambda>x q. q @ [x]" tl hd "\<lambda>q. q"
  by unfold_locales auto

text \<open>What \<open>RemoveExpiredTasks\<close> takes away.\<close>

definition due :: "int \<Rightarrow> task \<Rightarrow> bool" where
  "due now t \<longleftrightarrow> expire_time t \<noteq> 0 \<and> expire_time t \<le> now"

lemma RemoveExpiredTasks_eq:
  "RemoveExpiredTasks now s =
     (let gone = takeWhile (due now) (tasks s) in
      s\<lparr>tasks := dropWhile (due now) (tasks s),
        expired_count := (if gone = [] then expired_count s
                          else (expired_count s + length gone) mod size_max),
        callbacks := callbacks s @ (if expire_callback s then map runnable gone else []),
        dequeued := dequeued s @ map runnable gone\<rparr>)"
proof (induction now s rule: RemoveExpiredTasks.induct)
  case (1 now s)
  show ?case
  proof (cases "tasks s")
    case Nil
    then show ?thesis by (simp add: RemoveExpiredTasks.simps [of now s])
  next
    case (Cons t ts)
    with 1 show ?thesis
      by (auto simp: RemoveExpiredTasks.simps [of now s] due_def Let_def size_add_def mod_simps)
  qed
qed

text \<open>Its effect on the fields the invariants speak of.\<close>

lemma RemoveExpiredTasks_fields [simp]:
  "workers (RemoveExpiredTasks now s) = workers s"
  "clients (RemoveExpiredTasks now s) = clients s"
  "worker_count (RemoveExpiredTasks now s) = worker_count s"
  "worker_max_count (RemoveExpiredTasks now s) = worker_max_count s"
  "idle_count (RemoveExpiredTasks now s) = idle_count s"
  "misfits (RemoveExpiredTasks now s) = misfits s"
  "state (RemoveExpiredTasks now s) = state s"
  "accepted (RemoveExpiredTasks now s) = accepted s"
  "executed (RemoveExpiredTasks now s) = executed s"
  "late_adds (RemoveExpiredTasks now s) = late_adds s"
  "left_joining (RemoveExpiredTasks now s) = left_joining s"
  "pending_task_count_max (RemoveExpiredTasks now s) = pending_task_count_max s"
  "tasks (RemoveExpiredTasks now s) = dropWhile (due now) (tasks s)"
  "dequeued (RemoveExpiredTasks now s) = dequeued s @ map runnable (takeWhile (due now) (tasks s))"
  by (simp_all add: RemoveExpiredTasks_eq Let_def)

subsection \<open>Lemmas: the counters\<close>

definition idle_workers :: "manager \<Rightarrow> nat" where
  "idle_workers s = (\<Sum>pc\<leftarrow>workers s. of_bool (pc = Idle))"

definition inside :: "worker_pc \<Rightarrow> bool" where
  "inside pc = (case pc of Entry \<Rightarrow> False | Dead \<Rightarrow> False | _ \<Rightarrow> True)"

definition inside_workers :: "manager \<Rightarrow> nat" where
  "inside_workers s = (\<Sum>pc\<leftarrow>workers s. of_bool (inside pc))"

text \<open>\<open>idle_count_\<close> is the number of waiting workers; \<open>worker_count_\<close> is the number of workers between
  their entry and their final block, less the workers that were never counted; both modulo the
  width of \<open>size_t\<close>.\<close>

definition counters_ok :: "manager \<Rightarrow> bool" where
  "counters_ok s \<longleftrightarrow> idle_count s = idle_workers s mod size_max \<and> worker_count s < size_max \<and>
     (worker_count s + misfits s) mod size_max = inside_workers s mod size_max"

lemma inside_simps [simp]: "inside LoopTop" "inside Idle" "inside (Running t)" "inside Leaving"
  "\<not> inside Entry" "\<not> inside Dead"
  by (simp_all add: inside_def)

lemma idle_workers_update:
  assumes "w < length (workers s)" and "workers s' = (workers s)[w := pc]"
  shows "idle_workers s' + of_bool (workers s ! w = Idle) = idle_workers s + of_bool (pc = Idle)"
  using sum_list_update_swap [OF assms(1), of "\<lambda>pc. of_bool (pc = Idle)" pc] assms(2)
  by (simp add: idle_workers_def)

lemma inside_workers_update:
  assumes "w < length (workers s)" and "workers s' = (workers s)[w := pc]"
  shows "inside_workers s' + of_bool (inside (workers s ! w)) = inside_workers s + of_bool (inside pc)"
  using sum_list_update_swap [OF assms(1), of "\<lambda>pc. of_bool (inside pc)" pc] assms(2)
  by (simp add: inside_workers_def)

text \<open>A pass through the locked part of the loop puts the worker at \<open>pc\<close> and counts it if it waits.\<close>

lemma worker_section_shape:
  "\<exists>pc. workers (worker_section w now s) = (workers s)[w := pc] \<and> inside pc \<and>
     worker_count (worker_section w now s) = worker_count s \<and>
     misfits (worker_section w now s) = misfits s \<and>
     idle_count (worker_section w now s) = (if pc = Idle then size_add (idle_count s) 1 else idle_count s)"
proof -
  define r where "r = RemoveExpiredTasks now s"
  have r: "workers r = workers s" "worker_count r = worker_count s" "misfits r = misfits s"
    "idle_count r = idle_count s"
    by (simp_all add: r_def)
  consider "\<not> IsActive s" | "IsActive s" "tasks s = []" | "IsActive s" "tasks s \<noteq> []" by blast
  then show ?thesis
  proof cases
    case 1
    then show ?thesis
      by (intro exI [of _ Leaving]) (simp add: worker_section_def set_worker_def)
  next
    case 2
    then show ?thesis
      by (intro exI [of _ Idle]) (simp add: worker_section_def set_worker_def)
  next
    case 3
    show ?thesis
    proof (cases "tasks r")
      case Nil
      with 3 r show ?thesis
        by (intro exI [of _ LoopTop])
           (simp add: worker_section_def set_worker_def r_def [symmetric] del: RemoveExpiredTasks_fields)
    next
      case (Cons t ts)
      with 3 r show ?thesis
        by (intro exI [of _ "Running (if task_state t = WAITING then t\<lparr>task_state := EXECUTING\<rparr> else t)"])
           (simp add: worker_section_def set_worker_def r_def [symmetric] del: RemoveExpiredTasks_fields)
    qed
  qed
qed

lemma counters_section:
  assumes "w < length (workers s)" and "workers s ! w = LoopTop" and "counters_ok s"
  shows "counters_ok (worker_section w now s)"
proof -
  obtain pc where pc: "workers (worker_section w now s) = (workers s)[w := pc]" "inside pc"
    "worker_count (worker_section w now s) = worker_count s"
    "misfits (worker_section w now s) = misfits s"
    "idle_count (worker_section w now s) = (if pc = Idle then size_add (idle_count s) 1 else idle_count s)"
    using worker_section_shape [of w now s] by blast
  with assms idle_workers_update [OF assms(1) pc(1)] inside_workers_update [OF assms(1) pc(1)]
  show ?thesis by (auto simp: counters_ok_def size_add_mod)
qed

lemma counters_wake:
  assumes "w < length (workers s)" and "workers s ! w = Idle" and "counters_ok s"
  shows "counters_ok (worker_wake w now s)"
proof -
  define s1 where "s1 = s\<lparr>idle_count := size_sub (idle_count s) 1\<rparr>"
  define r where "r = worker_section w now s1"
  have s1: "workers s1 = workers s" "worker_count s1 = worker_count s" "misfits s1 = misfits s"
    "idle_count s1 = size_sub (idle_count s) 1"
    by (simp_all add: s1_def)
  obtain pc where pc: "workers r = (workers s)[w := pc]" "inside pc" "worker_count r = worker_count s"
    "misfits r = misfits s" "idle_count r = (if pc = Idle then size_add (idle_count s1) 1 else idle_count s1)"
    using worker_section_shape [of w now s1] s1 unfolding r_def by auto
  note up = idle_workers_update [OF assms(1) pc(1)] inside_workers_update [OF assms(1) pc(1)]
  have pos: "0 < idle_workers s"
    using sum_list_ge_nth [OF assms(1), of "\<lambda>pc. of_bool (pc = Idle)"] assms(2)
    by (simp add: idle_workers_def)
  have "idle_count s1 = (idle_workers s - 1) mod size_max"
    using assms(3) size_sub_mod [OF pos] by (simp add: counters_ok_def s1)
  moreover have "idle_workers s - 1 + of_bool (pc = Idle) = idle_workers r"
    using up(1) pos assms(2) by (cases "pc = Idle") simp_all
  ultimately have "counters_ok r"
    using assms up(2) pc by (cases "pc = Idle") (simp_all add: counters_ok_def size_add_mod)
  then show ?thesis by (simp add: r_def s1_def worker_wake_def)
qed

lemma counters_enter:
  assumes "w < length (workers s)" and "workers s ! w = Entry" and ok: "counters_ok s"
  shows "counters_ok (worker_enter w s)"
proof -
  define pc where "pc = (if worker_count s < worker_max_count s then LoopTop else Leaving)"
  have pc: "workers (worker_enter w s) = (workers s)[w := pc]" "inside pc" "pc \<noteq> Idle"
    by (simp_all add: worker_enter_def set_worker_def pc_def)
  note up = idle_workers_update [OF assms(1) pc(1)] inside_workers_update [OF assms(1) pc(1)]
  have "(worker_count s + misfits s + 1) mod size_max = (inside_workers s + 1) mod size_max"
    using ok by (metis counters_ok_def mod_add_left_eq)
  with assms up pc show ?thesis
    by (auto simp: counters_ok_def worker_enter_def set_worker_def size_add_def mod_simps)
qed

lemma counters_run:
  assumes "w < length (workers s)" and "workers s ! w = Running t" and "counters_ok s"
  shows "counters_ok (worker_run w t s)"
proof -
  have pc: "workers (worker_run w t s) = (workers s)[w := LoopTop]"
    by (simp add: worker_run_def set_worker_def Let_def)
  from assms idle_workers_update [OF assms(1) pc] inside_workers_update [OF assms(1) pc]
  show ?thesis by (simp add: counters_ok_def worker_run_def set_worker_def Let_def)
qed

lemma counters_leave:
  assumes "w < length (workers s)" and "workers s ! w = Leaving" and ok: "counters_ok s"
  shows "counters_ok (worker_leave w s)"
proof -
  have pc: "workers (worker_leave w s) = (workers s)[w := Dead]"
    by (simp add: worker_leave_def set_worker_def)
  note up = idle_workers_update [OF assms(1) pc] inside_workers_update [OF assms(1) pc]
  have M: "1 mod size_max = 1" "0 < size_max" by (simp_all add: size_max_def)
  have "(size_sub (worker_count s) 1 + misfits s) mod size_max
      = (worker_count s + misfits s + (size_max - 1)) mod size_max"
    by (simp add: size_sub_def M mod_simps ac_simps)
  also have "\<dots> = (inside_workers s + (size_max - 1)) mod size_max"
    using ok by (metis counters_ok_def mod_add_left_eq)
  also have "inside_workers s + (size_max - 1) = (inside_workers s - 1) + size_max"
  proof -
    have "1 \<le> inside_workers s" using up(2) assms(2) by simp
    with M(2) show ?thesis by linarith
  qed
  also have "inside_workers s - 1 = inside_workers (worker_leave w s)"
    using up(2) assms(2) by simp
  also have "(inside_workers (worker_leave w s) + size_max) mod size_max
      = inside_workers (worker_leave w s) mod size_max"
    by (rule mod_add_self2)
  finally show ?thesis
    using up(1) assms(2) ok by (simp add: counters_ok_def) (simp add: worker_leave_def set_worker_def)
qed

text \<open>All other steps leave the counters and the program counters of counted workers alone.\<close>

lemma counters_frame:
  assumes "counters_ok s" and "idle_workers s' = idle_workers s" and "inside_workers s' = inside_workers s"
    and "idle_count s' = idle_count s" and "worker_count s' = worker_count s" and "misfits s' = misfits s"
  shows "counters_ok s'"
  using assms by (simp add: counters_ok_def)

lemma workers_frame: "workers s' = workers s \<Longrightarrow> idle_workers s' = idle_workers s"
  "workers s' = workers s \<Longrightarrow> inside_workers s' = inside_workers s"
  by (simp_all add: idle_workers_def inside_workers_def)

lemmas control_defs = ExpiredTaskCount_def Start_def Add_def Add_wakes_def Add_times_out_def
  RemoveNextPending_def RemoveWorker_def StopImpl_def stop_final_def client_step_def set_client_def
  push_task_def idle_client_def Let_def

definition worker_action :: "tm_action \<Rightarrow> bool" where
  "worker_action a = (case a of DoEnter _ \<Rightarrow> True | DoSection _ _ \<Rightarrow> True | DoWake _ _ \<Rightarrow> True
     | DoRun _ \<Rightarrow> True | DoLeave _ \<Rightarrow> True | DoAddWorker _ _ \<Rightarrow> True | _ \<Rightarrow> False)"

lemma control_frame:
  assumes "step a s = Some s'" and "\<not> worker_action a"
  shows "workers s' = workers s \<and> worker_count s' = worker_count s \<and> idle_count s' = idle_count s \<and>
    misfits s' = misfits s \<and> executed s' = executed s \<and> left_joining s' = left_joining s"
  using assms
  by (cases a) (auto simp: control_defs worker_action_def split: if_splits list.splits prod.splits
      client_pc.splits)

lemma counters_step:
  assumes "step a s = Some s'" and "counters_ok s"
  shows "counters_ok s'"
proof (cases "worker_action a")
  case False
  from control_frame [OF assms(1) False] show ?thesis
    by (intro counters_frame [OF assms(2)] workers_frame) auto
next
  case True
  show ?thesis
  proof (cases a)
    case (DoAddWorker c n)
    have "idle_workers s' = idle_workers s \<and> inside_workers s' = inside_workers s"
      using assms(1) DoAddWorker
      by (auto simp: AddWorker_def set_client_def idle_workers_def inside_workers_def
          sum_list_replicate split: if_splits)
    then show ?thesis
      using assms DoAddWorker
      by (intro counters_frame [OF assms(2)]) (auto simp: AddWorker_def set_client_def split: if_splits)
  next
    case (DoRun w)
    with assms obtain t where "w < length (workers s)" "workers s ! w = Running t" "s' = worker_run w t s"
      by (auto split: if_splits worker_pc.splits)
    with assms(2) show ?thesis by (simp add: counters_run)
  qed (use True assms in \<open>simp_all add: worker_action_def worker_at_def split: if_splits\<close>,
       auto simp: counters_enter counters_section counters_wake counters_leave)
qed

lemma counters_new: "counters_ok (new_manager n)"
  by (simp add: counters_ok_def new_manager_def idle_workers_def inside_workers_def)

subsection \<open>Lemmas: what happens to a task\<close>

definition held :: "worker_pc \<Rightarrow> nat multiset" where
  "held pc = (case pc of Running t \<Rightarrow> {#runnable t#} | _ \<Rightarrow> {#})"

definition running :: "manager \<Rightarrow> nat multiset" where
  "running s = sum_list (map held (workers s))"

definition queue_ok :: "manager \<Rightarrow> bool" where
  "queue_ok s \<longleftrightarrow> std_queue.history (accepted s) (dequeued s) (map runnable (tasks s)) \<and>
     (\<forall>t\<in>set (tasks s). task_state t = WAITING) \<and>
     (\<forall>t. Running t \<in> set (workers s) \<longrightarrow> task_state t = EXECUTING) \<and>
     mset (executed s) + running s \<subseteq># mset (dequeued s)"

lemma held_simps [simp]: "held (Running t) = {#runnable t#}" "held Entry = {#}" "held LoopTop = {#}"
  "held Idle = {#}" "held Leaving = {#}" "held Dead = {#}"
  by (simp_all add: held_def)

lemma running_update:
  assumes "w < length (workers s)" and "workers s' = (workers s)[w := pc]"
  shows "running s' + held (workers s ! w) = running s + held pc"
  using sum_list_update_swap [OF assms(1), of held pc] assms(2) by (simp add: running_def)

lemma queue_frame:
  assumes "queue_ok s" and "accepted s' = accepted s" and "dequeued s' = dequeued s"
    and "tasks s' = tasks s" and "workers s' = workers s" and "executed s' = executed s"
  shows "queue_ok s'"
  using assms by (simp add: queue_ok_def running_def)

lemma queue_expire:
  assumes "queue_ok s"
  shows "queue_ok (RemoveExpiredTasks now s)"
proof -
  have "accepted s = dequeued s @ map runnable (takeWhile (due now) (tasks s)) @
      map runnable (dropWhile (due now) (tasks s))"
    using assms unfolding queue_ok_def std_queue.history_def
    by (metis map_append takeWhile_dropWhile_id)
  moreover have "mset (executed s) + running s \<subseteq># mset (dequeued s) +
      mset (map runnable (takeWhile (due now) (tasks s)))"
    using assms unfolding queue_ok_def by (metis subset_mset.add_increasing2 empty_le)
  ultimately show ?thesis
    using assms by (auto simp: queue_ok_def std_queue.history_def running_def dest: set_dropWhileD)
qed

lemma queue_push:
  assumes "queue_ok s" and "accepted s' = accepted s" and "dequeued s' = dequeued s"
    and "tasks s' = tasks s" and "workers s' = workers s" and "executed s' = executed s"
  shows "queue_ok (push_task now r expiration s')"
  using queue_frame [OF assms]
    std_queue.history_push [of "accepted s'" "dequeued s'" "map runnable (tasks s')" r]
  by (auto simp: queue_ok_def push_task_def new_task_def running_def)

lemma queue_pop:
  assumes "queue_ok s" and "tasks s = t # ts" and "accepted s' = accepted s"
    and "dequeued s' = dequeued s @ [runnable t]" and "tasks s' = ts" and "executed s' = executed s"
    and "workers s' = workers s \<or> (w < length (workers s) \<and> held (workers s ! w) = {#} \<and>
      workers s' = (workers s)[w := Running t'] \<and> runnable t' = runnable t \<and> task_state t' = EXECUTING)"
  shows "queue_ok s'"
proof -
  have "std_queue.history (accepted s') (dequeued s') (map runnable (tasks s'))"
    using assms std_queue.history_pop [of "accepted s" "dequeued s" "map runnable (tasks s)"]
    by (simp add: queue_ok_def)
  moreover have "mset (executed s') + running s' \<subseteq># mset (dequeued s')"
    using assms(7)
  proof
    assume "workers s' = workers s"
    then show ?thesis
      using assms by (auto simp: queue_ok_def running_def intro: subset_mset.order_trans)
  next
    assume w: "w < length (workers s) \<and> held (workers s ! w) = {#} \<and>
      workers s' = (workers s)[w := Running t'] \<and> runnable t' = runnable t \<and> task_state t' = EXECUTING"
    then have "running s' = running s + {#runnable t#}"
      using running_update [of w s s' "Running t'"] by simp
    then show ?thesis using assms by (simp add: queue_ok_def)
  qed
  moreover have "\<forall>u. Running u \<in> set (workers s') \<longrightarrow> task_state u = EXECUTING"
    using assms(1,7) set_update_subset_insert [of "workers s" w "Running t'"]
    by (auto simp: queue_ok_def)
  ultimately show ?thesis using assms by (simp add: queue_ok_def)
qed

lemma queue_idle_update:
  assumes "queue_ok s" and "w < length (workers s)" and "held (workers s ! w) = {#}" and "held pc = {#}"
    and "workers s' = (workers s)[w := pc]" and "accepted s' = accepted s" and "dequeued s' = dequeued s"
    and "tasks s' = tasks s" and "executed s' = executed s"
  shows "queue_ok s'"
proof -
  have "running s' = running s" using running_update [OF assms(2,5)] assms(3,4) by simp
  moreover have "pc \<noteq> Running t" for t using assms(4) by auto
  ultimately show ?thesis
    using assms set_update_subset_insert [of "workers s" w pc] by (auto simp: queue_ok_def)
qed

lemma queue_section:
  assumes "queue_ok s" and "w < length (workers s)" and "held (workers s ! w) = {#}"
  shows "queue_ok (worker_section w now s)"
proof -
  define r where "r = RemoveExpiredTasks now s"
  have r: "queue_ok r" "workers r = workers s"
    using queue_expire [OF assms(1)] by (simp_all add: r_def)
  consider "\<not> IsActive s" | "IsActive s" "tasks s = []" | "IsActive s" "tasks s \<noteq> []" by blast
  then show ?thesis
  proof cases
    case 1
    then show ?thesis
      by (intro queue_idle_update [OF assms, of Leaving]) (simp_all add: worker_section_def set_worker_def)
  next
    case 2
    then show ?thesis
      by (intro queue_idle_update [OF assms, of Idle]) (simp_all add: worker_section_def set_worker_def)
  next
    case 3
    show ?thesis
    proof (cases "tasks r")
      case Nil
      with 3 have "worker_section w now s = set_worker w LoopTop r"
        by (simp add: worker_section_def r_def [symmetric] del: RemoveExpiredTasks_fields)
      then show ?thesis
        using assms(2,3) r by (intro queue_idle_update [OF r(1), of w LoopTop]) (simp_all add: set_worker_def)
    next
      case (Cons t ts)
      then have "task_state t = WAITING" using r(1) by (simp add: queue_ok_def)
      with 3 Cons have "worker_section w now s = set_worker w (Running (t\<lparr>task_state := EXECUTING\<rparr>))
          (r\<lparr>tasks := ts, dequeued := dequeued r @ [runnable t]\<rparr>)"
        by (simp add: worker_section_def r_def [symmetric] del: RemoveExpiredTasks_fields)
      then show ?thesis
        using assms(2,3) r
        by (intro queue_pop [OF r(1) Cons, of _ w "t\<lparr>task_state := EXECUTING\<rparr>"]) (simp_all add: set_worker_def)
    qed
  qed
qed

lemma held_new: "sum_list (replicate k {#}) = {#}"
  by (induction k) simp_all

lemma queue_add_workers:
  assumes "queue_ok s" and "workers s' = workers s @ replicate k Entry" and "accepted s' = accepted s"
    and "dequeued s' = dequeued s" and "tasks s' = tasks s" and "executed s' = executed s"
  shows "queue_ok s'"
proof -
  have "running s' = running s"
    using assms(2) by (simp add: running_def held_new)
  then show ?thesis using assms by (auto simp: queue_ok_def)
qed

lemma queue_run:
  assumes "queue_ok s" and "w < length (workers s)" and "workers s ! w = Running t"
  shows "queue_ok (worker_run w t s)"
proof -
  define s' where "s' = worker_run w t s"
  have "task_state t = EXECUTING" using assms by (metis nth_mem queue_ok_def)
  then have s': "workers s' = (workers s)[w := LoopTop]" "executed s' = executed s @ [runnable t]"
    "accepted s' = accepted s" "dequeued s' = dequeued s" "tasks s' = tasks s"
    by (simp_all add: s'_def worker_run_def set_worker_def Let_def)
  have "running s' + {#runnable t#} = running s"
    using running_update [OF assms(2) s'(1)] assms(3) by simp
  then have "queue_ok s'"
    using assms(1) s' set_update_subset_insert [of "workers s" w LoopTop]
    unfolding queue_ok_def by (auto simp: ac_simps dest!: sym [of _ "running s"])
  then show ?thesis by (simp add: s'_def)
qed

lemma queue_add:
  assumes "queue_ok s"
  shows "queue_ok (snd (Add r timeout expiration now got_lock is_worker s))"
proof -
  define q where "q = RemoveExpiredTasks now s"
  have q: "queue_ok q" using queue_expire [OF assms] by (simp add: q_def)
  then have "queue_ok (q\<lparr>blocked := b\<rparr>)" for b by (rule queue_frame) simp_all
  moreover have "queue_ok (push_task now r expiration q)" using q by (rule queue_push) simp_all
  ultimately show ?thesis
    using assms q by (simp add: Add_def q_def [symmetric] Let_def)
qed

lemma queue_control:
  assumes "queue_ok s" and "step a s = Some s'"
    and "a \<noteq> DoRemoveNext" and "\<forall>r t e now g w. a \<noteq> DoAdd r t e now g w" and "\<forall>i now. a \<noteq> DoAddWakes i now"
    and "\<not> worker_action a"
  shows "queue_ok s'"
proof -
  have "accepted s' = accepted s \<and> dequeued s' = dequeued s \<and> tasks s' = tasks s"
    using assms(2-6)
    by (cases a) (auto simp: control_defs worker_action_def split: if_splits client_pc.splits)
  with control_frame [OF assms(2,6)] show ?thesis by (intro queue_frame [OF assms(1)]) simp_all
qed

lemma queue_add_wakes:
  assumes "queue_ok s" and "Add_wakes i now s = Some s'"
  shows "queue_ok s'"
  using assms
  by (auto simp: Add_wakes_def intro!: queue_push [OF assms(1)] split: if_splits prod.splits)

lemma queue_remove_next:
  assumes "queue_ok s"
  shows "queue_ok (snd (RemoveNextPending s))"
  using assms
  by (auto simp: RemoveNextPending_def split: list.splits intro!: queue_pop [OF assms])

lemma queue_worker:
  assumes "queue_ok s" and "step a s = Some s'" and "worker_action a"
  shows "queue_ok s'"
proof (cases a)
  case (DoAddWorker c n)
  with assms show ?thesis
    by (intro queue_add_workers [OF assms(1), where k = n])
       (auto simp: AddWorker_def set_client_def split: if_splits)
next
  case (DoEnter w)
  with assms have w: "w < length (workers s)" "workers s ! w = Entry" "s' = worker_enter w s"
    by (auto simp: worker_at_def split: if_splits)
  then show ?thesis
    by (intro queue_idle_update [OF assms(1), of w "if worker_count s < worker_max_count s then LoopTop else Leaving"])
       (simp_all add: worker_enter_def set_worker_def)
next
  case (DoSection w now)
  with assms show ?thesis by (auto simp: worker_at_def queue_section split: if_splits)
next
  case (DoWake w now)
  have "queue_ok (s\<lparr>idle_count := size_sub (idle_count s) 1\<rparr>)" by (rule queue_frame [OF assms(1)]) simp_all
  with DoWake assms show ?thesis
    by (auto simp: worker_at_def worker_wake_def intro!: queue_section split: if_splits)
next
  case (DoRun w)
  with assms show ?thesis by (auto intro!: queue_run split: if_splits worker_pc.splits)
next
  case (DoLeave w)
  with assms have w: "w < length (workers s)" "workers s ! w = Leaving" "s' = worker_leave w s"
    by (auto simp: worker_at_def split: if_splits)
  then show ?thesis
    by (intro queue_idle_update [OF assms(1), of w Dead]) (simp_all add: worker_leave_def set_worker_def)
qed (use assms(3) in \<open>simp_all add: worker_action_def\<close>)

lemma queue_step:
  assumes "step a s = Some s'" and "queue_ok s"
  shows "queue_ok s'"
proof (cases "worker_action a")
  case True
  with assms show ?thesis by (blast intro: queue_worker)
next
  case False
  show ?thesis
  proof (cases a)
    case (DoAdd r t e now g w)
    with assms queue_add show ?thesis by auto
  next
    case (DoAddWakes i now)
    with assms queue_add_wakes show ?thesis by auto
  next
    case DoRemoveNext
    with assms queue_remove_next show ?thesis by auto
  qed (use queue_control [OF assms(2,1) _ _ _ False] in simp_all)
qed

lemma queue_new: "queue_ok (new_manager n)"
  by (simp add: queue_ok_def new_manager_def running_def std_queue.history_def)

subsection \<open>Lemmas: what a join promises\<close>

text \<open>A worker leaves a JOINING manager only when the queue is empty, and only an \<open>Add\<close> that was already
  waiting can put a task there afterwards.\<close>

definition join_ok :: "manager \<Rightarrow> bool" where
  "join_ok s \<longleftrightarrow> (left_joining s \<longrightarrow> state s \<in> {JOINING, STOPPED} \<and> (late_adds s = 0 \<longrightarrow> tasks s = []))"

lemma join_section:
  assumes "join_ok s"
  shows "join_ok (worker_section w now s)"
proof -
  define r where "r = RemoveExpiredTasks now s"
  have r: "left_joining r = left_joining s" "state r = state s" "late_adds r = late_adds s"
    "tasks s = [] \<longrightarrow> tasks r = []"
    by (simp_all add: r_def)
  show ?thesis
    using assms r
    by (auto simp: join_ok_def worker_section_def set_worker_def IsActive_def r_def [symmetric] Let_def
        simp del: RemoveExpiredTasks_fields split: list.splits)
qed

lemma join_wake: "join_ok s \<Longrightarrow> join_ok (worker_wake w now s)"
  unfolding worker_wake_def by (rule join_section) (simp add: join_ok_def)

lemma join_add:
  assumes "join_ok s"
  shows "join_ok (snd (Add r timeout expiration now got_lock is_worker s))"
  using assms by (auto simp: Add_def Let_def join_ok_def push_task_def)

lemma join_step:
  assumes "step a s = Some s'" and "join_ok s"
  shows "join_ok s'"
proof (cases a)
  case (DoAdd r t e now g w)
  with assms join_add show ?thesis by auto
next
  case (DoSection w now)
  with assms show ?thesis by (auto simp: join_section split: if_splits)
next
  case (DoWake w now)
  with assms show ?thesis by (auto simp: join_wake split: if_splits)
next
  case (DoClient c)
  with assms show ?thesis
    by (auto simp: client_step_def stop_final_def set_client_def RemoveWorker_def join_ok_def
        split: if_splits client_pc.splits)
next
  case (DoStop c j)
  with assms show ?thesis
    by (auto simp: StopImpl_def set_client_def join_ok_def split: if_splits)
qed (use assms in \<open>auto simp: join_ok_def ExpiredTaskCount_def Start_def Add_wakes_def Add_times_out_def
    push_task_def RemoveNextPending_def AddWorker_def RemoveWorker_def set_client_def worker_enter_def
    worker_run_def worker_leave_def set_worker_def Let_def
    split: if_splits list.splits prod.splits worker_pc.splits\<close>)

lemma join_new: "join_ok (new_manager n)"
  by (simp add: join_ok_def new_manager_def)

text \<open>The three invariants hold in every reachable state.\<close>

lemma reachable_ok:
  assumes "reachable n s"
  shows "counters_ok s \<and> queue_ok s \<and> join_ok s"
  using assms
  by induction (auto intro: counters_new queue_new join_new counters_step queue_step join_step)

subsection \<open>Properties\<close>

text \<open>C3: the pool is a queue: under every interleaving of its callers and workers, the accepted tasks
  are, in order of acceptance, the ones taken off the queue followed by the ones still on it, and a
  runnable is called (or about to be called by a worker) at most as often as it was taken off.\<close>

theorem pool_queue_fifo:
  assumes "reachable n s"
  shows "accepted s = dequeued s @ map runnable (tasks s) \<and>
    mset (executed s) + running s \<subseteq># mset (dequeued s)"
  using reachable_ok [OF assms] by (simp add: queue_ok_def std_queue.history_def)

lemma reachable_run: "run as (new_manager n) = Some s \<Longrightarrow> reachable n s"
  by (rule run_reachable [OF reachable.initial])

lemmas run_defs = new_manager_def Start_def AddWorker_def RemoveWorker_def StopImpl_def stop_final_def
  client_step_def set_client_def idle_client_def workers_settled_def worker_at_def worker_enter_def
  worker_section_def worker_wake_def worker_run_def worker_leave_def set_worker_def IsActive_def
  Add_def Add_wakes_def RemoveNextPending_def push_task_def new_task_def queue_full_def
  RemoveExpiredTasks.simps size_add_def size_sub_def size_max_def Let_def

text \<open>Two tasks, the second expiring; one worker.\<close>

definition small_pool :: "tm_action list" where
  "small_pool = [DoSetFactory True, DoStart, DoAdd 7 0 0 100 True False, DoAdd 8 0 5 100 True False,
     DoAddWorker 0 1, DoEnter 0, DoClient 0, DoSection 0 101, DoRun 0, DoSection 0 200]"

lemma small_pool_run:
  "\<exists>s. run small_pool (new_manager 1) = Some s \<and> accepted s = [7, 8] \<and> dequeued s = [7, 8] \<and>
     executed s = [7] \<and> tasks s = [] \<and> running s = {#} \<and> worker_count s = 1 \<and> idle_count s = 0"
  by (simp add: small_pool_def run_defs running_def)

theorem pool_queue_fifo_witness:
  "\<exists>s. reachable 1 s \<and> executed s = [7] \<and> accepted s = dequeued s @ map runnable (tasks s) \<and>
     mset (executed s) + running s \<subseteq># mset (dequeued s)"
proof -
  obtain s where s: "run small_pool (new_manager 1) = Some s" "executed s = [7]"
    using small_pool_run by blast
  then show ?thesis using pool_queue_fifo [OF reachable_run [OF s(1)]] reachable_run [OF s(1)] by blast
qed



text \<open>C26: \<open>Join\<close> drains the pool: once a worker has left its loop while the manager was JOINING, and no
  \<open>Add\<close> that was already blocked has pushed since the manager left STARTED, the queue is empty and every
  accepted task has been taken off it.\<close>

theorem pool_join_drains:
  assumes "reachable n s" and "left_joining s" and "late_adds s = 0"
  shows "tasks s = [] \<and> accepted s = dequeued s"
  using reachable_ok [OF assms(1)] assms(2,3) by (auto simp: join_ok_def queue_ok_def std_queue.history_def)

definition small_join :: "tm_action list" where
  "small_join = [DoSetFactory True, DoStart, DoAddWorker 0 1, DoEnter 0, DoClient 0,
     DoAdd 7 0 0 100 True False, DoStop 0 True, DoClient 0, DoSection 0 101, DoRun 0, DoSection 0 101,
     DoLeave 0, DoClient 0, DoClient 0]"

lemma small_join_run:
  "\<exists>s. run small_join (new_manager 1) = Some s \<and> accepted s = [7] \<and> executed s = [7] \<and>
     left_joining s \<and> late_adds s = 0 \<and> state s = STOPPED"
  by (simp add: small_join_def run_defs)

theorem pool_join_drains_witness:
  "\<exists>s. reachable 1 s \<and> state s = STOPPED \<and> accepted s = [7] \<and> tasks s = [] \<and> accepted s = dequeued s"
proof -
  obtain s where s: "run small_join (new_manager 1) = Some s" "accepted s = [7]" "left_joining s"
      "late_adds s = 0" "state s = STOPPED"
    using small_join_run by blast
  then show ?thesis using pool_join_drains [OF reachable_run [OF s(1)]] reachable_run [OF s(1)] by blast
qed

fun rank :: "tm_state \<Rightarrow> nat" where
  "rank UNINITIALIZED = 0" | "rank STARTING = 1" | "rank STARTED = 2" | "rank JOINING = 3"
| "rank STOPPING = 3" | "rank STOPPED = 4"

lemma state_section [simp]: "state (worker_section w now s) = state s"
  by (auto simp: worker_section_def set_worker_def Let_def split: list.splits)

lemma rank_le_4: "rank x \<le> 4"
  by (cases x) simp_all

lemma state_step:
  assumes "step a s = Some s'"
  shows "state s' = state s \<or> rank (state s) < rank (state s')"
proof (cases a)
  case (DoClient c)
  with assms show ?thesis
    by (cases "state s") (auto simp: client_step_def stop_final_def set_client_def RemoveWorker_def
        split: if_splits client_pc.splits)
next
  case (DoStop c j)
  with assms show ?thesis
    by (cases "state s") (auto simp: StopImpl_def set_client_def split: if_splits)
qed (use assms in \<open>auto simp: ExpiredTaskCount_def Start_def Add_def Add_wakes_def Add_times_out_def
    push_task_def RemoveNextPending_def AddWorker_def RemoveWorker_def set_client_def worker_enter_def
    worker_wake_def worker_run_def worker_leave_def set_worker_def Let_def
    split: if_splits list.splits prod.splits worker_pc.splits\<close>)

text \<open>C30: the life of a manager goes one way: whatever its callers do, its state only moves forward
  (UNINITIALIZED, STARTING, STARTED, then one of JOINING and STOPPING, then STOPPED).\<close>

theorem pool_lifecycle:
  assumes "run as s = Some s'"
  shows "state s' = state s \<or> rank (state s) < rank (state s')"
  using assms
proof (induction "as" arbitrary: s)
  case (Cons a "as")
  then obtain s1 where "step a s = Some s1" "run as s1 = Some s'" by (auto simp: bind_eq_Some_conv)
  with Cons.IH state_step [of a s s1] show ?case by fastforce
qed simp

theorem pool_lifecycle_witness:
  "\<exists>s. run small_join (new_manager 1) = Some s \<and> state s = STOPPED \<and>
     (state s = UNINITIALIZED \<or> 0 < rank (state s))"
proof -
  obtain s where s: "run small_join (new_manager 1) = Some s" "state s = STOPPED"
    using small_join_run by blast
  then show ?thesis using pool_lifecycle [OF s(1)] by (simp add: new_manager_def)
qed

lemma length_dropWhile_bound: "length xs \<le> m \<Longrightarrow> length (dropWhile P xs) \<le> m"
  using length_dropWhile_le [of P xs] by linarith

lemma capacity_section:
  assumes "length (tasks s) \<le> m"
  shows "length (tasks (worker_section w now s)) \<le> m \<and>
    pending_task_count_max (worker_section w now s) = pending_task_count_max s"
proof -
  define r where "r = RemoveExpiredTasks now s"
  have r: "length (tasks r) \<le> m" "pending_task_count_max r = pending_task_count_max s"
    using assms by (simp_all add: r_def length_dropWhile_bound)
  then show ?thesis
    using assms
    by (auto simp: worker_section_def set_worker_def Let_def r_def [symmetric]
        simp del: RemoveExpiredTasks_fields split: list.splits)
qed

lemma capacity_add:
  assumes "length (tasks s) \<le> m" and "0 < m" and "pending_task_count_max s = m"
  shows "length (tasks (snd (Add r t e now g w s))) \<le> m \<and>
    pending_task_count_max (snd (Add r t e now g w s)) = m"
proof -
  define q where "q = RemoveExpiredTasks now s"
  have "length (tasks q) \<le> m" "pending_task_count_max q = m"
    using assms by (simp_all add: q_def length_dropWhile_bound)
  then show ?thesis
    using assms by (auto simp: Add_def Let_def q_def [symmetric] queue_full_def push_task_def)
qed

lemma capacity_step:
  assumes "step a s = Some s'" and "\<forall>k. a \<noteq> DoSetMax k"
    and "0 < m" and "pending_task_count_max s = m" and "length (tasks s) \<le> m"
  shows "length (tasks s') \<le> m \<and> pending_task_count_max s' = m"
proof (cases a)
  case (DoAdd r t e now g w)
  with assms capacity_add show ?thesis by auto
next
  case (DoSection w now)
  with assms show ?thesis by (auto simp: capacity_section split: if_splits)
next
  case (DoWake w now)
  with assms show ?thesis by (auto simp: capacity_section worker_wake_def split: if_splits)
next
  case (DoClient c)
  with assms show ?thesis
    by (auto simp: client_step_def stop_final_def set_client_def RemoveWorker_def split: if_splits client_pc.splits)
next
  case (DoStop c j)
  with assms show ?thesis by (auto simp: StopImpl_def set_client_def split: if_splits)
qed (use assms in \<open>auto simp: ExpiredTaskCount_def Start_def Add_wakes_def Add_times_out_def queue_full_def
    push_task_def RemoveNextPending_def AddWorker_def RemoveWorker_def set_client_def worker_enter_def
    worker_run_def worker_leave_def set_worker_def Let_def
    split: if_splits list.splits prod.splits worker_pc.splits\<close>)

text \<open>C29: the bound on pending tasks holds: while the maximum is not changed, no interleaving of \<open>Add\<close>s,
  also blocked ones that wake up, takes the queue above it.\<close>

theorem pool_capacity:
  assumes "run as s = Some s'" and "\<forall>k. DoSetMax k \<notin> set as"
    and "0 < pending_task_count_max s" and "length (tasks s) \<le> pending_task_count_max s"
  shows "length (tasks s') \<le> pending_task_count_max s"
  using assms
proof (induction "as" arbitrary: s)
  case (Cons a "as")
  then obtain s1 where s1: "step a s = Some s1" "run as s1 = Some s'" by (auto simp: bind_eq_Some_conv)
  with Cons.prems capacity_step [OF s1(1) _ Cons.prems(3) refl Cons.prems(4)]
  have "length (tasks s1) \<le> pending_task_count_max s" "pending_task_count_max s1 = pending_task_count_max s"
    by auto
  with Cons.IH [OF s1(2)] Cons.prems(2,3) show ?case by simp
qed simp

text \<open>A blocked \<open>Add\<close> pushes after \<open>RemoveNextPending\<close> made room.\<close>

definition small_bounded :: "tm_action list" where
  "small_bounded = [DoAdd 7 0 0 100 True False, DoAdd 8 0 0 100 True False, DoAddWakes 0 100,
     DoRemoveNext, DoAddWakes 0 100, DoAdd 9 (-1) 0 100 True False]"

definition bounded_start :: manager where
  "bounded_start = (new_manager 1)\<lparr>state := STARTED, pending_task_count_max := 1\<rparr>"

theorem pool_capacity_witness:
  "\<exists>s. run small_bounded bounded_start = Some s \<and> accepted s = [7, 8] \<and> length (tasks s) \<le> 1"
proof -
  obtain s where s: "run small_bounded bounded_start = Some s" "accepted s = [7, 8]"
    by (simp add: small_bounded_def bounded_start_def run_defs)
  have "\<forall>k. DoSetMax k \<notin> set small_bounded" by (simp add: small_bounded_def)
  then show ?thesis
    using pool_capacity [OF s(1)] s by (simp add: bounded_start_def new_manager_def)
qed

subsection \<open>What the interleavings also allow\<close>

definition over_removal :: "tm_action list" where
  "over_removal = [DoSetFactory True, DoStart, DoAddWorker 0 2, DoEnter 0, DoEnter 1, DoClient 0,
     DoRemoveWorker 0 1, DoSection 0 0, DoSection 1 0, DoLeave 0, DoLeave 1]"

text \<open>Only one control call, the one that waits, and no live worker.\<close>

definition stranded :: "manager \<Rightarrow> bool" where
  "stranded s \<longleftrightarrow> clients s = [RemoveWorkerWait] \<and> workers s = [Dead, Dead] \<and> worker_count s = 0 \<and>
     worker_max_count s = 1"

lemma replicate_2: "replicate 2 x = [x, x]"
  by (simp add: numeral_2_eq_2)

lemma nth_Dead: "w < Suc (Suc 0) \<Longrightarrow> [Dead, Dead] ! w = Dead"
  by (cases w) (auto simp: less_Suc_eq)

lemma stranded_step: "step a s = Some s' \<Longrightarrow> stranded s \<Longrightarrow> stranded s'"
  by (cases a) (auto simp: stranded_def ExpiredTaskCount_def Start_def Add_def Add_wakes_def
      Add_times_out_def push_task_def RemoveNextPending_def idle_client_def client_step_def
      workers_settled_def worker_at_def nth_Dead Let_def
      split: if_splits list.splits prod.splits worker_pc.splits)

lemma stranded_run: "run as s = Some s' \<Longrightarrow> stranded s \<Longrightarrow> stranded s'"
proof (induction "as" arbitrary: s)
  case (Cons a "as")
  then obtain s1 where "step a s = Some s1" "run as s1 = Some s'" by (auto simp: bind_eq_Some_conv)
  with Cons show ?case using stranded_step by blast
qed simp

text \<open>\<open>RemoveWorker (1)\<close> on two workers can take both away and then wait for ever. Both workers see a
  count above the maximum before either decrements it (the decrement is in the final block, not where
  \<open>IsActive\<close> is tested); then no worker is left, the count is 0 and the maximum 1, and no step of the
  pool lets the call return.\<close>

theorem pool_over_removal:
  "case run over_removal (new_manager 1) of None \<Rightarrow> False
   | Some s \<Rightarrow> worker_max_count s = 1 \<and>
       (\<forall>as. case run as s of None \<Rightarrow> True
          | Some s' \<Rightarrow> clients s' = [RemoveWorkerWait] \<and> inside_workers s' = 0)"
proof -
  obtain s where s: "run over_removal (new_manager 1) = Some s" "stranded s"
    by (simp add: over_removal_def run_defs stranded_def replicate_2)
  then have "case run as s of None \<Rightarrow> True
      | Some s' \<Rightarrow> clients s' = [RemoveWorkerWait] \<and> inside_workers s' = 0" for "as"
    using stranded_run [of "as" s]
    by (auto simp: stranded_def inside_workers_def split: option.splits)
  with s show ?thesis by (simp add: stranded_def)
qed

text \<open>A worker that was never counted still decrements the count: it wraps around.\<close>

definition underflow :: "tm_action list" where
  "underflow = [DoSetFactory True, DoStart, DoAddWorker 0 1, DoRemoveWorker 1 1, DoEnter 0, DoLeave 0]"

lemma pool_underflow:
  "map_option worker_count (run underflow (new_manager 2)) = Some npos"
  by (simp add: underflow_def run_defs replicate_2 npos_def)

text \<open>A task can be accepted by a stopped manager, where it stays: an \<open>Add\<close> that waited for room does not
  test the state again.\<close>

definition late_add :: "tm_action list" where
  "late_add = [DoSetFactory True, DoSetMax 1, DoStart, DoAddWorker 0 1, DoEnter 0, DoClient 0,
     DoAdd 7 0 0 100 True False, DoAdd 8 0 0 100 True False, DoStop 0 True, DoClient 0, DoSection 0 101,
     DoRun 0, DoSection 0 101, DoLeave 0, DoClient 0, DoClient 0, DoAddWakes 0 101]"

lemma pool_late_add:
  "\<exists>s. run late_add (new_manager 1) = Some s \<and> state s = STOPPED \<and> accepted s = [7, 8] \<and>
     executed s = [7] \<and> map runnable (tasks s) = [8] \<and> inside_workers s = 0"
  by (simp add: late_add_def run_defs inside_workers_def)

end
