(* ===== verification/Conn_Info.thy ===== *)
theory Conn_Info
  imports Numbers String_Util
begin

text \<open>
  \<^verbatim>\<open>db/common/connection_info.h\<close> and \<^verbatim>\<open>.cc\<close>: the connection string of the database layer,
  \<open>driver:key=value;key='quoted ''value''';...\<close>. The parser's position is the rest of the string that is
  not read yet. A failed \<open>CHECK\<close> or \<open>DCHECK\<close> is \<open>None\<close>.
\<close>

subsection \<open>The parser\<close>

definition kTrimWhiteSpace :: piece where
  "kTrimWhiteSpace = map chr_of [32, 9, 13, 10, 12]"

definition is_blank :: "char \<Rightarrow> bool" where
  "is_blank c = (find_char kTrimWhiteSpace c 0 \<noteq> npos)"

abbreviation quote :: char where "quote \<equiv> CHR 39"

text \<open>\<open>std::string::find\<close> of a character, relative to the rest that it searches.\<close>

definition string_find :: "string \<Rightarrow> char \<Rightarrow> nat" where
  "string_find s c = scan_up (\<lambda>d. d = c) s 0"

text \<open>The loop over a quoted value, from after the opening quote; a doubled quote stands for one.\<close>

fun quoted_loop :: "string \<Rightarrow> string \<Rightarrow> (string \<times> string) option" where
  "quoted_loop val [] = None"
| "quoted_loop val (c # rest) =
     (if c = quote
      then (case rest of
              d # rest' \<Rightarrow> if d = quote then quoted_loop (val @ [quote]) rest' else Some (val, rest)
            | [] \<Rightarrow> Some (val, rest))
      else quoted_loop (val @ [c]) rest)"

definition parse_value :: "string \<Rightarrow> (string \<times> string) option" where
  "parse_value rest =
     (let rest = dropWhile is_blank rest in
      if rest = [] then Some ([], rest)
      else if hd rest = quote then quoted_loop [] (tl rest)
      else let n = string_find rest (CHR '';'') in
           if n = npos then Some (fst (TrimString rest kTrimWhiteSpace), [])
           else Some (fst (TrimString (take n rest) kTrimWhiteSpace), drop n rest))"

text \<open>After a value: skip white space and then one character, whatever it is.\<close>

fun skip_separator :: "string \<Rightarrow> string" where
  "skip_separator [] = []"
| "skip_separator (c # rest) = (if is_blank c then skip_separator rest else rest)"

lemma quoted_loop_shorter: "quoted_loop val s = Some (w, rest) \<Longrightarrow> length rest \<le> length s"
  by (induction val s rule: quoted_loop.induct) (fastforce split: if_splits list.splits)+

lemma parse_value_shorter:
  assumes "parse_value s = Some (w, rest)"
  shows "length rest \<le> length s"
proof -
  define t where "t = dropWhile is_blank s"
  have t: "length t \<le> length s" by (simp add: t_def length_dropWhile_le)
  have "length rest \<le> length t"
    using assms quoted_loop_shorter [of "[]" "tl t" w rest]
    by (cases t) (auto simp: parse_value_def Let_def t_def [symmetric] split: if_splits)
  with t show ?thesis by simp
qed

lemma skip_separator_shorter: "length (skip_separator s) \<le> length s"
  by (induction s) auto

function parse_properties :: "(string \<rightharpoonup> string) \<Rightarrow> string \<Rightarrow> (string \<rightharpoonup> string) option" where
  "parse_properties props rest =
     (if rest = [] then Some props
      else let n = string_find rest (CHR ''='') in
           if n = npos then None
           else case parse_value (drop (Suc n) rest) of
                  None \<Rightarrow> None
                | Some (val, rest') \<Rightarrow>
                    let key = fst (TrimString (take n rest) kTrimWhiteSpace) in
                    if props key \<noteq> None then None
                    else parse_properties (props(key \<mapsto> val)) (skip_separator rest'))"
  by pat_completeness auto
termination
proof (relation "measure (\<lambda>(props, rest). length rest)", goal_cases)
  case (2 props rest n pr val rest' key)
  have "length (skip_separator rest') \<le> length (drop (Suc n) rest)"
    using 2 parse_value_shorter skip_separator_shorter order_trans by blast
  with 2(1) show ?case by (cases rest) auto
qed simp

declare parse_properties.simps [simp del]

record connection_info =
  properties :: "string \<rightharpoonup> string"
  connection_string :: string
  driver :: string

definition ConnectionInfo :: "string \<Rightarrow> connection_info option" where
  "ConnectionInfo str =
     (let pos = string_find str (CHR '':'') in
      if pos = npos then None
      else map_option (\<lambda>props. \<lparr>properties = props, connection_string = str, driver = take pos str\<rparr>)
             (parse_properties Map.empty (drop (Suc pos) str)))"

subsection \<open>Reading properties\<close>

definition Get :: "connection_info \<Rightarrow> string \<Rightarrow> string \<Rightarrow> string" where
  "Get info key default_value =
     (case properties info key of None \<Rightarrow> default_value | Some v \<Rightarrow> v)"

text \<open>\<open>ss >> value\<close> in the classic locale: the clamped value of the leading decimal number, 0 if there is
  none. On a text with nothing but white space nothing is stored, and \<open>value\<close> is read uninitialised:
  \<open>None\<close>.\<close>

definition istream_int :: "string \<Rightarrow> int option" where
  "istream_int s =
     (if dropWhile ascii_isspace s = [] then None
      else let (m, negative, n) = scan_number s 10; v = (if negative then - m else m) in
           Some (if v < it_min int32_t then it_min int32_t
                 else if v > it_max int32_t then it_max int32_t else v))"

definition Get_int :: "connection_info \<Rightarrow> string \<Rightarrow> int \<Rightarrow> int option" where
  "Get_int info key default_value =
     (case properties info key of None \<Rightarrow> Some default_value | Some v \<Rightarrow> istream_int v)"

definition Has :: "connection_info \<Rightarrow> string \<Rightarrow> bool" where
  "Has info key = (properties info key \<noteq> None)"

subsection \<open>Lemmas\<close>

lemma is_blank_iff: "is_blank c \<longleftrightarrow> c \<in> set kTrimWhiteSpace"
proof -
  have "length kTrimWhiteSpace = 5" by (simp add: kTrimWhiteSpace_def)
  then show ?thesis
    using scan_up_cases [of "\<lambda>d. d = c" kTrimWhiteSpace 0]
    by (auto simp: is_blank_def find_char_def in_set_conv_nth npos_def size_max_def)
qed

lemma eq_chr_of: "n < 256 \<Longrightarrow> c = chr_of n \<longleftrightarrow> uc c = n"
  by (metis chr_of_uc uc_chr_of)

lemma is_blank_uc: "is_blank c \<longleftrightarrow> uc c = 32 \<or> uc c = 9 \<or> uc c = 13 \<or> uc c = 10 \<or> uc c = 12"
  by (simp add: is_blank_iff kTrimWhiteSpace_def eq_chr_of)

lemma blank_literals [simp]: "\<not> is_blank (CHR ''='')" "\<not> is_blank (CHR '';'')" "\<not> is_blank quote"
  by (simp_all add: is_blank_uc uc_def)

text \<open>\<open>string_find\<close> splits at the first occurrence.\<close>

lemma string_find_split:
  assumes "c \<notin> set a" and "length a < npos"
  shows "string_find (a @ c # b) c = length a"
proof -
  define n where "n = string_find (a @ c # b) c"
  have a: "(a @ c # b) ! length a = c" and not_a: "\<And>j. j < length a \<Longrightarrow> (a @ c # b) ! j \<noteq> c"
    using assms(1) by (auto simp: nth_append in_set_conv_nth)
  from scan_up_cases [of "\<lambda>d. d = c" "a @ c # b" 0] show ?thesis
    unfolding string_find_def [symmetric] n_def [symmetric]
  proof (elim disjE conjE)
    assume "\<forall>j. 0 \<le> j \<longrightarrow> j < length (a @ c # b) \<longrightarrow> (a @ c # b) ! j \<noteq> c"
    moreover have "length a < length (a @ c # b)" by simp
    ultimately have "(a @ c # b) ! length a \<noteq> c" by blast
    with a show "n = length a" by simp
  next
    assume "(a @ c # b) ! n = c" "\<forall>j. 0 \<le> j \<longrightarrow> j < n \<longrightarrow> (a @ c # b) ! j \<noteq> c"
    with a not_a show "n = length a" by (metis le0 linorder_neqE_nat)
  qed
qed

lemma string_find_none: "c \<notin> set s \<Longrightarrow> string_find s c = npos"
  using scan_up_cases [of "\<lambda>d. d = c" s 0] by (auto simp: string_find_def in_set_conv_nth)

definition trimmed :: "string \<Rightarrow> bool" where
  "trimmed s \<longleftrightarrow> s = [] \<or> \<not> is_blank (hd s) \<and> \<not> is_blank (last s)"

lemma trim_all:
  assumes "\<forall>c\<in>set a. is_blank c" and "\<forall>c\<in>set b. is_blank c" and "trimmed t"
    and "length (a @ t @ b) < size_max"
  shows "fst (TrimString (a @ t @ b) kTrimWhiteSpace) = t"
proof -
  let ?P = "\<lambda>c. c \<in> set kTrimWhiteSpace"
  have "rev (dropWhile ?P (rev (dropWhile ?P (a @ t @ b)))) = t"
  proof (cases "t = []")
    case True
    have "\<forall>x\<in>set (a @ t @ b). ?P x" using True assms(1,2) by (auto simp: is_blank_iff)
    then have gone: "dropWhile ?P (a @ t @ b) = []" by (simp only: dropWhile_eq_Nil_conv)
    show ?thesis unfolding gone using True by simp
  next
    case False
    with assms(3) have ends: "\<not> ?P (hd t)" "\<not> ?P (last t)" by (auto simp: trimmed_def is_blank_iff)
    then have "dropWhile ?P (a @ t @ b) = t @ b"
      using assms(1) False by (cases t) (simp_all add: dropWhile_append2 is_blank_iff)
    moreover have "dropWhile ?P (rev b @ rev t) = rev t"
      using assms(2) False ends dropWhile_append2 [of "rev b" ?P "rev t"]
      by (cases t rule: rev_cases) (simp_all add: is_blank_iff)
    ultimately show ?thesis by simp
  qed
  then show ?thesis
    using TrimStringT_spec(1) [OF assms(4), of kTrimWhiteSpace TRIM_ALL]
    by (simp add: TrimString_def split_beta trim_spec_def TRIM_ALL_def TRIM_LEADING_def TRIM_TRAILING_def)
qed

text \<open>How a connection string is written: white space may stand around keys and values, and a value may
  be quoted with its quotes doubled.\<close>

record printed_property =
  pp_key :: string
  pp_value :: string
  pp_quoted :: bool
  pp_blanks :: "string \<times> string \<times> string \<times> string"

definition double_quotes :: "string \<Rightarrow> string" where
  "double_quotes s = concat (map (\<lambda>c. if c = quote then [quote, quote] else [c]) s)"

definition print_value :: "bool \<Rightarrow> string \<Rightarrow> string" where
  "print_value q v = (if q then quote # double_quotes v @ [quote] else v)"

definition print_property :: "printed_property \<Rightarrow> string" where
  "print_property p = (case pp_blanks p of (a, b, c, d) \<Rightarrow>
     a @ pp_key p @ b @ CHR ''='' # c @ print_value (pp_quoted p) (pp_value p) @ d @ [CHR '';''])"

definition print_info :: "string \<Rightarrow> printed_property list \<Rightarrow> string" where
  "print_info drv ps = drv @ CHR '':'' # concat (map print_property ps)"

definition property_ok :: "printed_property \<Rightarrow> bool" where
  "property_ok p \<longleftrightarrow> trimmed (pp_key p) \<and> CHR ''='' \<notin> set (pp_key p) \<and>
     (case pp_blanks p of (a, b, c, d) \<Rightarrow> \<forall>x\<in>set (a @ b @ c @ d). is_blank x) \<and>
     (pp_quoted p \<or> trimmed (pp_value p) \<and> CHR '';'' \<notin> set (pp_value p) \<and>
        (pp_value p = [] \<or> hd (pp_value p) \<noteq> quote))"

lemma quoted_loop_printed:
  "rest = [] \<or> hd rest \<noteq> quote \<Longrightarrow>
     quoted_loop val (double_quotes v @ quote # rest) = Some (val @ v, rest)"
proof (induction v arbitrary: val)
  case Nil
  then show ?case by (cases rest) (auto simp: double_quotes_def)
next
  case (Cons c v)
  then show ?case by (cases "c = quote") (auto simp: double_quotes_def)
qed

lemma skip_separator_blanks: "\<forall>c\<in>set d. is_blank c \<Longrightarrow> skip_separator (d @ CHR '';'' # rest) = rest"
  by (induction d) auto

lemma dropWhile_blanks: "\<forall>x\<in>set c. is_blank x \<Longrightarrow> dropWhile is_blank (c @ s) = dropWhile is_blank s"
  by (simp add: dropWhile_append2)

lemma parse_value_printed:
  assumes "property_ok p" and "pp_blanks p = (a, b, c, d)"
    and "length (c @ print_value (pp_quoted p) (pp_value p) @ d @ CHR '';'' # rest) < npos"
  shows "\<exists>d'. parse_value (c @ print_value (pp_quoted p) (pp_value p) @ d @ CHR '';'' # rest) =
      Some (pp_value p, d' @ CHR '';'' # rest) \<and> (\<forall>x\<in>set d'. is_blank x)"
proof (cases "pp_quoted p")
  case True
  have "d @ CHR '';'' # rest = [] \<or> hd (d @ CHR '';'' # rest) \<noteq> quote"
    using assms(1,2) by (cases d) (auto simp: property_ok_def)
  from quoted_loop_printed [OF this, of "[]" "pp_value p"] show ?thesis
    using True assms(1,2)
    by (auto simp: parse_value_def print_value_def property_ok_def dropWhile_blanks Let_def)
next
  case False
  let ?v = "pp_value p"
  let ?t = "dropWhile is_blank (?v @ d @ CHR '';'' # rest)"
  have ok: "trimmed ?v" "CHR '';'' \<notin> set ?v" "?v = [] \<or> hd ?v \<noteq> quote" "\<forall>x\<in>set d. is_blank x"
    "\<forall>x\<in>set c. is_blank x"
    using assms(1,2) False by (auto simp: property_ok_def)
  define d' where "d' = (if ?v = [] then [] else d)"
  have t: "?t = (?v @ d') @ CHR '';'' # rest"
    using ok(1,4) by (cases ?v) (auto simp: d'_def trimmed_def dropWhile_blanks)
  have semi: "CHR '';'' \<notin> set (?v @ d')" using ok(2,4) by (auto simp: d'_def)
  have len: "length (?v @ d') < npos" using assms(3) False by (auto simp: d'_def print_value_def)
  have "fst (TrimString (?v @ d') kTrimWhiteSpace) = ?v"
    using trim_all [of "[]" d' ?v] ok(1,4) less_trans [OF len npos_less_size_max] by (auto simp: d'_def)
  moreover have "hd ?t \<noteq> quote" using ok(3) t by (cases ?v) (auto simp: d'_def)
  moreover have "length ?v + length d' \<noteq> npos" using len by simp
  ultimately have "parse_value (c @ ?v @ d @ CHR '';'' # rest) = Some (?v, CHR '';'' # rest)"
    using string_find_split [OF semi len, of rest]
    by (simp add: parse_value_def dropWhile_blanks ok(5) t Let_def)
  then show ?thesis using False by (intro exI [of _ "[]"]) (simp add: print_value_def)
qed

lemma parse_properties_printed:
  assumes "\<forall>p\<in>set ps. property_ok p" and "distinct (map pp_key ps)"
    and "length (concat (map print_property ps)) < npos" and "\<forall>p\<in>set ps. props (pp_key p) = None"
  shows "parse_properties props (concat (map print_property ps)) =
    Some (props ++ map_of (map (\<lambda>p. (pp_key p, pp_value p)) ps))"
  using assms
proof (induction ps arbitrary: props)
  case Nil
  then show ?case by (simp add: parse_properties.simps [of props "[]"])
next
  case (Cons p ps)
  obtain a b c d where bl: "pp_blanks p = (a, b, c, d)" by (cases "pp_blanks p") auto
  let ?rest = "concat (map print_property ps)"
  let ?val = "c @ print_value (pp_quoted p) (pp_value p) @ d @ CHR '';'' # ?rest"
  have ok: "property_ok p" "trimmed (pp_key p)" "CHR ''='' \<notin> set (pp_key p)"
    "\<forall>x\<in>set a. is_blank x" "\<forall>x\<in>set b. is_blank x"
    using Cons.prems(1) bl by (auto simp: property_ok_def)
  have no_eq: "CHR ''='' \<notin> set (a @ pp_key p @ b)"
    using ok(3-5) blank_literals(1) by (metis Un_iff set_append)
  have str: "concat (map print_property (p # ps)) = (a @ pp_key p @ b) @ CHR ''='' # ?val"
    by (simp add: print_property_def bl)
  have len: "length (a @ pp_key p @ b) < npos" "length ?val < npos" "length ?rest < npos"
    using Cons.prems(3) unfolding str by auto
  obtain d' where d': "parse_value ?val = Some (pp_value p, d' @ CHR '';'' # ?rest)"
      "\<forall>x\<in>set d'. is_blank x"
    using parse_value_printed [OF ok(1) bl len(2)] by blast
  have key: "fst (TrimString (a @ pp_key p @ b) kTrimWhiteSpace) = pp_key p"
    using trim_all [of a b "pp_key p"] ok less_trans [OF len(1) npos_less_size_max] by blast
  have find: "string_find ((a @ pp_key p @ b) @ CHR ''='' # ?val) (CHR ''='') = length (a @ pp_key p @ b)"
    by (rule string_find_split [OF no_eq len(1)])
  have step: "parse_properties props (concat (map print_property (p # ps))) =
      parse_properties (props(pp_key p \<mapsto> pp_value p)) ?rest"
    unfolding str
    by (subst parse_properties.simps)
       (use find key d' len(1) Cons.prems(4) skip_separator_blanks [OF d'(2)] in \<open>simp add: Let_def\<close>)
  have "parse_properties (props(pp_key p \<mapsto> pp_value p)) ?rest =
      Some (props(pp_key p \<mapsto> pp_value p) ++ map_of (map (\<lambda>p. (pp_key p, pp_value p)) ps))"
    using Cons.prems len(3) by (intro Cons.IH) (auto simp: image_iff)
  moreover have "props(pp_key p \<mapsto> pp_value p) ++ map_of (map (\<lambda>p. (pp_key p, pp_value p)) ps) =
      props ++ map_of (map (\<lambda>p. (pp_key p, pp_value p)) (p # ps))"
    using Cons.prems(2)
    by (subst map_add_upd_left) (auto simp: dom_map_of_conv_image_fst image_iff)
  ultimately show ?case using step by (simp only:)
qed

lemma istream_int_show: "istream_int (show_int v) = Some (clamp int32_t v)"
proof -
  let ?ds = "dec_digits (nat \<bar>v\<bar>)"
  have show_v: "show_int v = (if v < 0 then CHR ''-'' # ?ds else ?ds)"
    by (simp add: show_int_def)
  have h: "48 \<le> uc (hd ?ds)" using dec_digits_chars [of "hd ?ds" "nat \<bar>v\<bar>"] by auto
  then have "\<not> ascii_isspace (hd (show_int v))" by (auto simp: show_v isspace_uc)
  then have space: "dropWhile ascii_isspace (show_int v) = show_int v"
    by (cases "show_int v") auto
  have "?ds ! 0 \<noteq> CHR ''-''" "?ds ! 0 \<noteq> CHR ''+''" using h by (auto simp: hd_conv_nth)
  then have "fst (scan_number (show_int v) 10) = \<bar>v\<bar> \<and> fst (snd (scan_number (show_int v) 10)) = (v < 0)"
    unfolding scan_number_def space Let_def
    by (cases "v < 0") (simp_all add: show_v hex_prefix_def dec_digits_ok dec_digits_value)
  moreover have "show_int v \<noteq> []" by (simp add: show_v)
  ultimately show ?thesis
    unfolding istream_int_def space by (auto simp: clamp_def int_types split_beta Let_def)
qed

subsection \<open>Properties\<close>

lemma ConnectionInfo_printed:
  assumes "CHR '':'' \<notin> set drv" and "\<forall>p\<in>set ps. property_ok p" and "distinct (map pp_key ps)"
    and "length (print_info drv ps) < npos"
  shows "ConnectionInfo (print_info drv ps) =
    Some \<lparr>properties = map_of (map (\<lambda>p. (pp_key p, pp_value p)) ps),
          connection_string = print_info drv ps, driver = drv\<rparr>"
proof -
  have len: "length drv < npos" "length (concat (map print_property ps)) < npos"
    using assms(4) by (auto simp: print_info_def)
  show ?thesis
    using string_find_split [OF assms(1) len(1), of "concat (map print_property ps)"] len(1)
      parse_properties_printed [OF assms(2,3) len(2), of Map.empty]
    by (simp add: ConnectionInfo_def print_info_def Let_def)
qed

text \<open>C8: a connection string says what was written into it: for every driver name and every list of
  properties with different keys, written with any white space around keys and values and with any
  values quoted (their quotes doubled), parsing does not abort and gives back the driver and exactly
  these properties.\<close>

theorem connection_string_roundtrip:
  assumes "CHR '':'' \<notin> set drv" and "\<forall>p\<in>set ps. property_ok p" and "distinct (map pp_key ps)"
    and "length (print_info drv ps) < npos"
  shows "ConnectionInfo (print_info drv ps) =
    Some \<lparr>properties = map_of (map (\<lambda>p. (pp_key p, pp_value p)) ps),
          connection_string = print_info drv ps, driver = drv\<rparr>"
  using assms by (rule ConnectionInfo_printed)

definition example_properties :: "printed_property list" where
  "example_properties =
     [\<lparr>pp_key = ''user'', pp_value = ''joe'', pp_quoted = False, pp_blanks = ([], '' '', '' '', [])\<rparr>,
      \<lparr>pp_key = ''password'', pp_value = CHR ''a'' # quote # ''; '', pp_quoted = True,
       pp_blanks = ('' '', [], [], '' '')\<rparr>]"

theorem connection_string_roundtrip_witness:
  "map_option (\<lambda>info. (driver info, Get info ''user'' [], Get info ''password'' []))
     (ConnectionInfo (print_info ''mysql'' example_properties)) =
   Some (''mysql'', ''joe'', CHR ''a'' # quote # ''; '')"
proof -
  have ok: "\<forall>p\<in>set example_properties. property_ok p"
    by (simp add: example_properties_def property_ok_def trimmed_def is_blank_uc uc_def)
  have len: "length (print_info ''mysql'' example_properties) < npos"
    by (simp add: example_properties_def print_info_def print_property_def print_value_def
        double_quotes_def npos_def size_max_def)
  show ?thesis
    using connection_string_roundtrip [OF _ ok _ len] by (simp add: example_properties_def Get_def)
qed

text \<open>An integer property (the pool and cache sizes) is read back as it was printed, clamped to
  \<open>int\<close>; an absent one gives the default; a property with an empty value makes the code read an
  uninitialised variable.\<close>

theorem integer_property:
  "Get_int (info\<lparr>properties := (properties info)(key \<mapsto> show_int v)\<rparr>) key d = Some (clamp int32_t v) \<and>
   Get_int (info\<lparr>properties := (properties info)(key := None)\<rparr>) key d = Some d \<and>
   Get_int (info\<lparr>properties := (properties info)(key \<mapsto> [])\<rparr>) key d = None"
  by (simp add: Get_int_def istream_int_show) (simp add: istream_int_def)

text \<open>Two habits of the parser: white space after the last separator aborts, and after a closing quote
  any character is taken for the separator.\<close>

lemma trailing_blank_aborts: "ConnectionInfo ''mysql:a=b; '' = None"
proof -
  have found: "string_find ''mysql:a=b; '' (CHR '':'') = 5" "string_find ''a=b; '' (CHR ''='') = 1"
      "string_find ''b; '' (CHR '';'') = 1" "string_find '' '' (CHR ''='') = npos"
    by (simp_all add: string_find_def scan_up.simps)
  have "fst (TrimString ''b'' kTrimWhiteSpace) = ''b''"
    using trim_all [of "[]" "[]" "''b''"] by (simp add: trimmed_def is_blank_uc uc_def size_max_def)
  then have "parse_value ''b; '' = Some (''b'', ''; '')"
    using found by (simp add: parse_value_def is_blank_uc uc_def npos_def size_max_def Let_def)
  then show ?thesis
    using found
    by (simp add: ConnectionInfo_def parse_properties.simps npos_def size_max_def is_blank_uc uc_def Let_def)
qed

lemma separator_after_quote: "skip_separator ''x;k=v'' = '';k=v''"
  by (simp add: is_blank_uc uc_def)

end
