(* ===== verification/Mysql_Statement.thy ===== *)
theory Mysql_Statement
  imports Numbers
begin

text \<open>
  \<^verbatim>\<open>db/drivers/mysql/mysql_direct_statement.h\<close>, \<^verbatim>\<open>mysql_prepared_statement.h\<close> and their \<^verbatim>\<open>.cc\<close>: the two
  kinds of SQL statements. A direct statement splices its parameters into the query text; a prepared
  one hands them to the server. The client library is a parameter: \<open>escape\<close> is
  \<^verbatim>\<open>mysql_real_escape_string\<close>, \<open>server\<close> tells whether \<^verbatim>\<open>mysql_real_query\<close> succeeds, \<open>prepare\<close> is
  \<^verbatim>\<open>mysql_stmt_prepare\<close> with the number of parameters it finds. \<open>None\<close> is a failed \<open>DCHECK\<close> or an access
  outside an object. Floating point parameters are not modelled.
\<close>

abbreviation text_quote :: char where "text_quote \<equiv> CHR 39"

abbreviation marker :: char where "marker \<equiv> CHR ''?''"

subsection \<open>Direct statements\<close>

record direct_statement =
  query :: string
  params :: "string list"
  binders :: "nat list"
  params_no :: nat

text \<open>The loop of the constructor from index \<open>i\<close> on: the markers outside quoted text, and whether the
  text ends inside quotes.\<close>

fun scan_markers :: "nat \<Rightarrow> bool \<Rightarrow> string \<Rightarrow> nat list \<times> bool" where
  "scan_markers i inside_text [] = ([], inside_text)"
| "scan_markers i inside_text (c # q) =
     (let inside_text = (if c = text_quote then \<not> inside_text else inside_text);
          (ms, inside) = scan_markers (Suc i) inside_text q
      in (if c = marker \<and> \<not> inside_text then i # ms else ms, inside))"

definition ResetParams :: "direct_statement \<Rightarrow> direct_statement" where
  "ResetParams st = st\<lparr>params := replicate (params_no st) ''NULL''\<rparr>"

definition MysqlDirectStatement :: "string \<Rightarrow> direct_statement option" where
  "MysqlDirectStatement q =
     (let (ms, inside_text) = scan_markers 0 False q in
      if inside_text then None
      else Some (ResetParams \<lparr>query = q, params = [], binders = ms, params_no = length ms\<rparr>))"

text \<open>\<open>At (col) = s\<close>.\<close>

definition At_assign :: "int \<Rightarrow> string \<Rightarrow> direct_statement \<Rightarrow> direct_statement option" where
  "At_assign col s st =
     (if col > 1 \<and> col < int (params_no st) then Some (st\<lparr>params := (params st)[nat (col - 1) := s]\<rparr>)
      else None)"

definition Bind_text :: "(string \<Rightarrow> string) \<Rightarrow> int \<Rightarrow> string \<Rightarrow> direct_statement \<Rightarrow> direct_statement option" where
  "Bind_text escape col v st = At_assign col (text_quote # escape v @ [text_quote]) st"

text \<open>\<open>formatted\<close> is \<open>v.Format ()\<close>.\<close>

definition Bind_time :: "int \<Rightarrow> string \<Rightarrow> direct_statement \<Rightarrow> direct_statement option" where
  "Bind_time col formatted st = At_assign col (text_quote # formatted @ [text_quote]) st"

definition Bind_int :: "int \<Rightarrow> int \<Rightarrow> direct_statement \<Rightarrow> direct_statement option" where
  "Bind_int col v st = At_assign col (show_int v) st"

definition BindNull :: "int \<Rightarrow> direct_statement \<Rightarrow> direct_statement option" where
  "BindNull col st = At_assign col ''NULL'' st"

text \<open>The loop of \<open>BindAll\<close> from parameter \<open>i\<close> on, with the text of the query after \<open>pos\<close>.\<close>

fun bind_all_loop :: "string \<Rightarrow> nat \<Rightarrow> string list \<Rightarrow> nat list \<Rightarrow> string option" where
  "bind_all_loop q pos [] _ = (if pos \<le> length q then Some (drop pos q) else None)"
| "bind_all_loop q pos (p # ps) [] = None"
| "bind_all_loop q pos (p # ps) (m # ms) =
     (if pos \<le> length q
      then map_option (\<lambda>r. take (size_sub m pos) (drop pos q) @ p @ r) (bind_all_loop q (size_add m 1) ps ms)
      else None)"

definition BindAll :: "direct_statement \<Rightarrow> string option" where
  "BindAll st = bind_all_loop (query st) 0 (params st) (binders st)"

text \<open>The text sent to the server and the statement afterwards.\<close>

definition Query :: "(string \<Rightarrow> bool) \<Rightarrow> direct_statement \<Rightarrow> (string \<times> direct_statement) option" where
  "Query server st =
     (case BindAll st of None \<Rightarrow> None
      | Some real_query \<Rightarrow> if server real_query then Some (real_query, st) else None)"

definition Execute :: "(string \<Rightarrow> bool) \<Rightarrow> direct_statement \<Rightarrow> (string \<times> direct_statement) option" where
  "Execute server st =
     (case BindAll st of None \<Rightarrow> None
      | Some real_query \<Rightarrow>
          let st = ResetParams st in if server real_query then Some (real_query, st) else None)"

definition Reset :: "direct_statement \<Rightarrow> direct_statement" where
  "Reset st = st"

subsection \<open>Prepared statements\<close>

text \<open>Where a parameter's bytes are: nowhere, at an address of the caller, or in its own \<open>value\<close>.\<close>

datatype buffer_ptr = NullBuffer | CallerBuffer nat | OwnBuffer

record param =
  is_null :: bool
  is_blob :: bool
  param_length :: nat
  param_value :: string
  buffer :: buffer_ptr

definition Param :: param where
  "Param = \<lparr>is_null = True, is_blob = False, param_length = 0, param_value = [], buffer = NullBuffer\<rparr>"

definition Set_range :: "nat \<Rightarrow> nat \<Rightarrow> bool \<Rightarrow> param \<Rightarrow> param" where
  "Set_range begin finish blob p =
     p\<lparr>param_length := finish - begin, buffer := CallerBuffer begin, is_blob := blob, is_null := False\<rparr>"

definition SetString :: "string \<Rightarrow> param \<Rightarrow> param" where
  "SetString str p =
     p\<lparr>param_value := str, buffer := OwnBuffer, param_length := length str, is_null := False\<rparr>"

text \<open>What the server receives for a parameter, in the memory at that time.\<close>

datatype sent_value = SentNull | Sent bool string

definition read_memory :: "(nat \<rightharpoonup> char) \<Rightarrow> nat \<Rightarrow> nat \<Rightarrow> string option" where
  "read_memory mem a n =
     (if \<forall>i\<in>set [0..<n]. mem (a + i) \<noteq> None then Some (map (\<lambda>i. the (mem (a + i))) [0..<n]) else None)"

definition BindIt :: "(nat \<rightharpoonup> char) \<Rightarrow> param \<Rightarrow> sent_value option" where
  "BindIt mem p =
     (if \<not> is_null p
      then map_option (Sent (is_blob p))
             (case buffer p of NullBuffer \<Rightarrow> None
              | CallerBuffer a \<Rightarrow> read_memory mem a (param_length p)
              | OwnBuffer \<Rightarrow> Some (take (param_length p) (param_value p)))
      else Some SentNull)"

record prepared_statement =
  prepared_query :: string
  prepared_params :: "param list"
  params_count :: nat

definition ResetData :: "prepared_statement \<Rightarrow> prepared_statement" where
  "ResetData st = st\<lparr>prepared_params := replicate (params_count st) Param\<rparr>"

text \<open>\<open>None\<close> is \<open>MysqlException\<close>.\<close>

definition MysqlPreparedStatement :: "(string \<rightharpoonup> nat) \<Rightarrow> string \<Rightarrow> prepared_statement option" where
  "MysqlPreparedStatement prepare q =
     (case prepare q of None \<Rightarrow> None
      | Some n \<Rightarrow> Some (ResetData \<lparr>prepared_query = q, prepared_params = [], params_count = n\<rparr>))"

definition prepared_At :: "int \<Rightarrow> (param \<Rightarrow> param) \<Rightarrow> prepared_statement \<Rightarrow> prepared_statement option" where
  "prepared_At col f st =
     (if col \<ge> 1 \<and> col \<le> int (params_count st)
      then let i = nat (col - 1) in
           Some (st\<lparr>prepared_params := (prepared_params st)[i := f (prepared_params st ! i)]\<rparr>)
      else None)"

definition prepared_Bind_range :: "int \<Rightarrow> nat \<Rightarrow> nat \<Rightarrow> prepared_statement \<Rightarrow> prepared_statement option" where
  "prepared_Bind_range col begin finish st = prepared_At col (Set_range begin finish False) st"

definition prepared_Bind_time :: "int \<Rightarrow> string \<Rightarrow> prepared_statement \<Rightarrow> prepared_statement option" where
  "prepared_Bind_time col formatted st = prepared_At col (SetString formatted) st"

definition prepared_Bind_stream :: "int \<Rightarrow> string \<Rightarrow> prepared_statement \<Rightarrow> prepared_statement option" where
  "prepared_Bind_stream col content st =
     prepared_At col (\<lambda>p. (SetString content p)\<lparr>is_blob := True\<rparr>) st"

definition prepared_Bind_int :: "int \<Rightarrow> int \<Rightarrow> prepared_statement \<Rightarrow> prepared_statement option" where
  "prepared_Bind_int col v st = prepared_At col (SetString (show_int v)) st"

definition prepared_BindNull :: "int \<Rightarrow> prepared_statement \<Rightarrow> prepared_statement option" where
  "prepared_BindNull col st = prepared_At col (\<lambda>_. Param) st"

fun bind_params :: "(nat \<rightharpoonup> char) \<Rightarrow> param list \<Rightarrow> sent_value list option" where
  "bind_params mem [] = Some []"
| "bind_params mem (p # ps) =
     do { v \<leftarrow> BindIt mem p; vs \<leftarrow> bind_params mem ps; Some (v # vs) }"

definition prepared_BindAll :: "(nat \<rightharpoonup> char) \<Rightarrow> prepared_statement \<Rightarrow> sent_value list option" where
  "prepared_BindAll mem st = bind_params mem (prepared_params st)"

definition prepared_Reset :: "prepared_statement \<Rightarrow> prepared_statement" where
  "prepared_Reset st = ResetData st"

definition prepared_Query ::
    "(sent_value list \<Rightarrow> bool) \<Rightarrow> (nat \<rightharpoonup> char) \<Rightarrow> prepared_statement \<Rightarrow> sent_value list option" where
  "prepared_Query executes mem st =
     (case prepared_BindAll mem st of None \<Rightarrow> None
      | Some vs \<Rightarrow> if executes vs then Some vs else None)"

definition prepared_Execute ::
    "(sent_value list \<Rightarrow> bool) \<Rightarrow> bool \<Rightarrow> bool \<Rightarrow> (nat \<rightharpoonup> char) \<Rightarrow> prepared_statement \<Rightarrow>
       sent_value list option" where
  "prepared_Execute executes stores has_result mem st =
     (case prepared_BindAll mem st of None \<Rightarrow> None
      | Some vs \<Rightarrow> if \<not> executes vs then None
                   else if \<not> stores then None
                   else if has_result then None else Some vs)"

subsection \<open>Lemmas: direct statements\<close>

text \<open>Any use of a direct statement.\<close>

datatype direct_op = OpText int string | OpTime int string | OpInt int int | OpNull int | OpReset
  | OpQuery | OpExecute

fun direct_step ::
    "(string \<Rightarrow> string) \<Rightarrow> (string \<Rightarrow> bool) \<Rightarrow> direct_op \<Rightarrow> direct_statement \<Rightarrow> direct_statement option" where
  "direct_step escape server (OpText col v) st = Bind_text escape col v st"
| "direct_step escape server (OpTime col t) st = Bind_time col t st"
| "direct_step escape server (OpInt col v) st = Bind_int col v st"
| "direct_step escape server (OpNull col) st = BindNull col st"
| "direct_step escape server OpReset st = Some (Reset st)"
| "direct_step escape server OpQuery st = map_option snd (Query server st)"
| "direct_step escape server OpExecute st = map_option snd (Execute server st)"

fun direct_run ::
    "(string \<Rightarrow> string) \<Rightarrow> (string \<Rightarrow> bool) \<Rightarrow> direct_op list \<Rightarrow> direct_statement \<Rightarrow> direct_statement option" where
  "direct_run escape server [] st = Some st"
| "direct_run escape server (x # xs) st =
     do { st \<leftarrow> direct_step escape server x st; direct_run escape server xs st }"

text \<open>The intended text: every marker outside quotes is replaced, in order.\<close>

fun splice :: "bool \<Rightarrow> string \<Rightarrow> string list \<Rightarrow> string" where
  "splice t [] ps = []"
| "splice t (c # q) ps =
     (let t = (if c = text_quote then \<not> t else t) in
      if c = marker \<and> \<not> t then hd ps @ splice t q (tl ps) else c # splice t q ps)"

lemma bind_all_splice:
  assumes "length pre = i" and "pos \<le> i" and "length (pre @ q) < size_max"
    and "length ps = length (fst (scan_markers i t q))"
  shows "bind_all_loop (pre @ q) pos ps (fst (scan_markers i t q)) = Some (drop pos pre @ splice t q ps)"
  using assms
proof (induction q arbitrary: pre i pos t ps)
  case (Cons c q)
  define t' where "t' = (if c = text_quote then \<not> t else t)"
  obtain ms inside where ms: "scan_markers (Suc i) t' q = (ms, inside)" by fastforce
  have scan_c: "scan_markers i t (c # q) = (if c = marker \<and> \<not> t' then i # ms else ms, inside)"
    unfolding scan_markers.simps Let_def t'_def [symmetric] ms by simp
  note IH = Cons.IH [of "pre @ [c]" "Suc i" _ _ t', unfolded ms, simplified]
  show ?case
  proof (cases "c = marker \<and> \<not> t'")
    case True
    then have scan: "scan_markers i t (c # q) = (i # ms, inside)"
      unfolding scan_c by simp
    then obtain p ps' where ps: "ps = p # ps'" "length ps' = length ms"
      using Cons.prems(4) by (cases ps) auto
    have "size_sub i pos = i - pos" "size_add i 1 = Suc i"
      using Cons.prems by (simp_all add: size_sub_exact size_add_exact)
    moreover have "bind_all_loop (pre @ c # q) (Suc i) ps' ms = Some (splice t' q ps')"
      using IH [of "Suc i" ps'] Cons.prems ps by simp
    ultimately show ?thesis
      using Cons.prems(1,2) True unfolding splice.simps Let_def t'_def [symmetric] scan ps by simp
  next
    case False
    then have scan: "scan_markers i t (c # q) = (ms, inside)"
      unfolding scan_c by simp
    show ?thesis
      using IH [of pos ps] Cons.prems False
      unfolding splice.simps Let_def t'_def [symmetric] scan by auto
  qed
qed simp

text \<open>What every use of a statement keeps.\<close>

definition direct_ok :: "string \<Rightarrow> direct_statement \<Rightarrow> bool" where
  "direct_ok q st \<longleftrightarrow> query st = q \<and> binders st = fst (scan_markers 0 False q) \<and>
     params_no st = length (binders st) \<and> length (params st) = params_no st \<and>
     (params st \<noteq> [] \<longrightarrow> hd (params st) = ''NULL'' \<and> last (params st) = ''NULL'')"

lemma direct_ok_reset: "direct_ok q st \<Longrightarrow> direct_ok q (ResetParams st)"
  by (auto simp: direct_ok_def ResetParams_def hd_replicate)

lemma direct_ok_new: "MysqlDirectStatement q = Some st \<Longrightarrow> direct_ok q st"
  by (auto simp: MysqlDirectStatement_def ResetParams_def direct_ok_def hd_replicate
      split: prod.splits if_splits)

lemma direct_ok_assign:
  assumes "direct_ok q st" and "At_assign col s st = Some st'"
  shows "direct_ok q st'"
proof -
  define i where "i = nat (col - 1)"
  have i: "0 < i" "i < length (params st) - 1" and st': "st' = st\<lparr>params := (params st)[i := s]\<rparr>"
    using assms by (auto simp: At_assign_def direct_ok_def i_def split: if_splits)
  moreover from i have "params st \<noteq> []" by auto
  ultimately have "hd ((params st)[i := s]) = hd (params st)"
      "last ((params st)[i := s]) = last (params st)"
    by (auto simp: hd_conv_nth last_conv_nth)
  with assms(1) show ?thesis by (auto simp: direct_ok_def st')
qed

lemma direct_ok_step:
  assumes "direct_ok q st" and "direct_step escape server x st = Some st'"
  shows "direct_ok q st'"
  using assms direct_ok_assign direct_ok_reset
  by (cases x) (auto simp: Bind_text_def Bind_time_def Bind_int_def BindNull_def Reset_def Query_def
      Execute_def Let_def split: option.splits if_splits)

lemma direct_ok_run:
  "direct_run escape server xs st = Some st' \<Longrightarrow> direct_ok q st \<Longrightarrow> direct_ok q st'"
  by (induction xs arbitrary: st) (auto simp: bind_eq_Some_conv dest: direct_ok_step)

lemma direct_ok_text:
  "direct_ok q st \<Longrightarrow> length q < size_max \<Longrightarrow> BindAll st = Some (splice False q (params st))"
  using bind_all_splice [of "[]" 0 0 q "params st" False] by (simp add: BindAll_def direct_ok_def)

subsection \<open>Lemmas: prepared statements\<close>

lemma bind_params_length: "bind_params mem ps = Some vs \<Longrightarrow> length vs = length ps"
  by (induction ps arbitrary: vs) (auto simp: bind_eq_Some_conv)

lemma bind_params_update:
  "bind_params mem ps = Some vs \<Longrightarrow> i < length ps \<Longrightarrow>
     bind_params mem (ps[i := p]) = map_option (\<lambda>v. vs[i := v]) (BindIt mem p)"
proof (induction ps arbitrary: vs i)
  case (Cons x ps)
  then obtain w ws where w: "BindIt mem x = Some w" "bind_params mem ps = Some ws" "vs = w # ws"
    by (auto simp: bind_eq_Some_conv)
  with Cons show ?case
    by (cases i; cases "BindIt mem p") auto
qed simp

lemma bind_params_fresh: "bind_params mem (replicate n Param) = Some (replicate n SentNull)"
  by (induction n) (simp_all add: BindIt_def Param_def)

lemma prepared_assign:
  assumes "prepared_BindAll mem st = Some vs" and "length (prepared_params st) = params_count st"
    and "1 \<le> col" and "col \<le> int (params_count st)"
    and "v = BindIt mem (f (prepared_params st ! nat (col - 1)))"
  shows "\<exists>st'. prepared_At col f st = Some st' \<and> length (prepared_params st') = params_count st' \<and>
    prepared_BindAll mem st' = map_option (\<lambda>v. vs[nat (col - 1) := v]) v"
  using assms bind_params_update [of mem "prepared_params st" vs "nat (col - 1)"]
  by (simp add: prepared_At_def prepared_BindAll_def Let_def)

subsection \<open>Properties\<close>

text \<open>C24: the text a direct statement sends is the query with every marker outside quotes replaced, in
  order, by the text of its parameter, and nothing else changed: for every query that the constructor
  takes and after any sequence of binds, queries, executions and resets, without an access outside an
  object; the parameters are as many as the markers.\<close>

theorem direct_query_text:
  assumes "MysqlDirectStatement q = Some st0" and "direct_run escape server ops st0 = Some st"
    and "length q < size_max"
  shows "query st = q \<and> length (params st) = length (fst (scan_markers 0 False q)) \<and>
    BindAll st = Some (splice False q (params st))"
proof -
  have "direct_ok q st" using assms direct_ok_new direct_ok_run by blast
  then show ?thesis using assms(3) by (simp add: direct_ok_text) (simp add: direct_ok_def)
qed

theorem direct_query_text_witness:
  "case MysqlDirectStatement ''f(?,?,?)'' of None \<Rightarrow> False
   | Some st0 \<Rightarrow>
      (case direct_run (\<lambda>s. s) (\<lambda>_. True) [OpInt 2 15] st0 of None \<Rightarrow> False
       | Some st \<Rightarrow> BindAll st = Some ''f(NULL,15,NULL)'')"
proof -
  have digits: "dec_digits 15 = ''15''" by code_simp
  obtain st0 where st0: "MysqlDirectStatement ''f(?,?,?)'' = Some st0" "params st0 = [''NULL'', ''NULL'', ''NULL'']"
      "params_no st0 = 3"
    by (simp add: MysqlDirectStatement_def ResetParams_def)
  obtain st where st: "direct_run (\<lambda>s. s) (\<lambda>_. True) [OpInt 2 15] st0 = Some st"
      "params st = [''NULL'', ''15'', ''NULL'']"
    using st0 by (simp add: Bind_int_def At_assign_def show_int_def digits)
  have "BindAll st = Some (splice False ''f(?,?,?)'' (params st))"
    using direct_query_text [OF st0(1) st(1)] by (simp add: size_max_def)
  then show ?thesis using st0 st by simp
qed

text \<open>But the first and the last marker can never be given a value: binding one aborts, so whatever is
  done with a direct statement, both are sent as NULL, and a statement with one or two markers has no
  parameter at all that can be bound.\<close>

theorem direct_ends_stay_null:
  assumes "MysqlDirectStatement q = Some st0" and "direct_run escape server ops st0 = Some st"
    and "params st \<noteq> []"
  shows "hd (params st) = ''NULL'' \<and> last (params st) = ''NULL'' \<and>
    Bind_int 1 v st = None \<and> Bind_int (int (params_no st)) v st = None"
proof -
  have "direct_ok q st" using assms direct_ok_new direct_ok_run by blast
  then show ?thesis using assms(3) by (simp add: direct_ok_def Bind_int_def At_assign_def)
qed

theorem direct_ends_stay_null_witness:
  "case MysqlDirectStatement ''a=?'' of None \<Rightarrow> False
   | Some st \<Rightarrow> params_no st = 1 \<and> last (params st) = ''NULL'' \<and> Bind_int 1 7 st = None"
proof -
  obtain st0 where st0: "MysqlDirectStatement ''a=?'' = Some st0" "params st0 = [''NULL'']" "params_no st0 = 1"
    by (simp add: MysqlDirectStatement_def ResetParams_def)
  have "direct_run (\<lambda>s. s) (\<lambda>_. True) [] st0 = Some st0" by simp
  from direct_ends_stay_null [OF st0(1) this, of 7] st0 show ?thesis by simp
qed

text \<open>A prepared statement sends what was bound: binding any of its columns succeeds and changes what is
  sent for that column only; numbers, times and streams are sent as their text, a range of the
  caller's memory as what that memory holds when the statement runs, not when it was bound; a reset
  makes every parameter NULL.\<close>

theorem prepared_sends_bound:
  assumes "prepared_BindAll mem st = Some vs" and "length (prepared_params st) = params_count st"
    and "1 \<le> col" and "col \<le> int (params_count st)"
  shows "(\<exists>st' blob. prepared_Bind_int col v st = Some st' \<and>
      prepared_BindAll mem st' = Some (vs[nat (col - 1) := Sent blob (show_int v)])) \<and>
    (\<exists>st'. prepared_Bind_stream col s st = Some st' \<and>
      prepared_BindAll mem st' = Some (vs[nat (col - 1) := Sent True s])) \<and>
    (\<exists>st'. prepared_BindNull col st = Some st' \<and>
      prepared_BindAll mem st' = Some (vs[nat (col - 1) := SentNull])) \<and>
    (\<exists>st'. prepared_Bind_range col begin finish st = Some st' \<and>
      (\<forall>mem'. prepared_BindAll mem' st = Some vs \<longrightarrow>
        prepared_BindAll mem' st' = map_option (\<lambda>bs. vs[nat (col - 1) := Sent False bs])
          (read_memory mem' begin (finish - begin)))) \<and>
    prepared_BindAll mem (prepared_Reset st) = Some (replicate (params_count st) SentNull)"
proof (intro conjI)
  note assign = prepared_assign [OF _ assms(2-4) refl]
  show "\<exists>st' blob. prepared_Bind_int col v st = Some st' \<and>
      prepared_BindAll mem st' = Some (vs[nat (col - 1) := Sent blob (show_int v)])"
    using assign [OF assms(1), of "SetString (show_int v)"]
    by (auto simp: prepared_Bind_int_def BindIt_def SetString_def)
  show "\<exists>st'. prepared_Bind_stream col s st = Some st' \<and>
      prepared_BindAll mem st' = Some (vs[nat (col - 1) := Sent True s])"
    using assign [OF assms(1), of "\<lambda>p. (SetString s p)\<lparr>is_blob := True\<rparr>"]
    by (auto simp: prepared_Bind_stream_def BindIt_def SetString_def)
  show "\<exists>st'. prepared_BindNull col st = Some st' \<and>
      prepared_BindAll mem st' = Some (vs[nat (col - 1) := SentNull])"
    using assign [OF assms(1), of "\<lambda>_. Param"] by (auto simp: prepared_BindNull_def BindIt_def Param_def)
  show "\<exists>st'. prepared_Bind_range col begin finish st = Some st' \<and>
      (\<forall>mem'. prepared_BindAll mem' st = Some vs \<longrightarrow>
        prepared_BindAll mem' st' = map_option (\<lambda>bs. vs[nat (col - 1) := Sent False bs])
          (read_memory mem' begin (finish - begin)))"
    using assign [of _ vs "Set_range begin finish False"] assign [OF assms(1), of "Set_range begin finish False"]
    by (fastforce simp: prepared_Bind_range_def BindIt_def Set_range_def option.map_comp o_def)
  show "prepared_BindAll mem (prepared_Reset st) = Some (replicate (params_count st) SentNull)"
    by (simp add: prepared_BindAll_def prepared_Reset_def ResetData_def bind_params_fresh)
qed

definition two_params :: prepared_statement where
  "two_params = \<lparr>prepared_query = ''f(?,?)'', prepared_params = [Param, Param], params_count = 2\<rparr>"

theorem prepared_sends_bound_witness:
  "MysqlPreparedStatement [''f(?,?)'' \<mapsto> 2] ''f(?,?)'' = Some two_params \<and>
   (\<exists>st. prepared_Bind_stream 2 ''blob'' two_params = Some st \<and>
      prepared_BindAll Map.empty st = Some [SentNull, Sent True ''blob''])"
proof -
  have "prepared_BindAll Map.empty two_params = Some [SentNull, SentNull]"
    by (simp add: two_params_def prepared_BindAll_def BindIt_def Param_def)
  from prepared_sends_bound [OF this, of 2 0 "''blob''" 0 0]
  have "\<exists>st. prepared_Bind_stream 2 ''blob'' two_params = Some st \<and>
      prepared_BindAll Map.empty st = Some [SentNull, Sent True ''blob'']"
    by (simp add: two_params_def)
  moreover have "replicate 2 Param = [Param, Param]" by (simp add: numeral_2_eq_2)
  ultimately show ?thesis
    by (simp add: MysqlPreparedStatement_def ResetData_def two_params_def)
qed

text \<open>A column once bound to a stream is sent as a blob ever after, also when a number is bound to it.\<close>

lemma blob_sticks:
  "map_option (prepared_BindAll Map.empty)
     (Option.bind (prepared_Bind_stream 1 ''x'' two_params) (prepared_Bind_int 1 5)) =
   Some (Some [Sent True (show_int 5), SentNull])"
  by (simp add: two_params_def prepared_Bind_stream_def prepared_Bind_int_def prepared_At_def Let_def
      SetString_def Param_def prepared_BindAll_def BindIt_def)

text \<open>The scan of the constructor does not know backslash escapes: a text with an escaped quote aborts.\<close>

lemma escaped_quote_aborts:
  "MysqlDirectStatement (''y='' @ [text_quote] @ ''it'' @ [CHR 92, text_quote] @ ''s'' @ [text_quote]) = None"
  by (simp add: MysqlDirectStatement_def)

end
