(* ===== verification/Stmt_Cache.thy ===== *)
theory Stmt_Cache
  imports Conn_Info Mysql_Statement
begin

text \<open>
  \<^verbatim>\<open>db/backend/db_statement.h\<close>, \<^verbatim>\<open>db_connection.h\<close> and their \<^verbatim>\<open>.cc\<close>: the cache of prepared statements
  and the connection that owns it. A statement is a value of a type \<open>'s\<close> with the functions
  \<open>sql\<close> (\<open>SqlQuery\<close>) and \<open>reset\<close> (\<open>Reset\<close>) of its driver. A node of the recency list has an identity, and
  an iterator is the identity of its node. \<open>None\<close> is undefined behaviour: erasing through an iterator
  whose node is gone, \<open>back\<close> of an empty list, a null pointer.
\<close>

subsection \<open>The cache\<close>

record 's entry =
  db_statement :: 's
  lru_ptr :: nat

record 's cache_data =
  db_statements :: "string \<rightharpoonup> 's entry"
  lru :: "(nat \<times> string) list"
  data_size :: nat
  max_size :: nat
  next_node :: nat

definition Data :: "'s cache_data" where
  "Data = \<lparr>db_statements = Map.empty, lru = [], data_size = 0, max_size = 0, next_node = 0\<rparr>"

definition lru_erase :: "nat \<Rightarrow> (nat \<times> string) list \<Rightarrow> (nat \<times> string) list option" where
  "lru_erase node l = (if list_ex (\<lambda>x. fst x = node) l then Some (filter (\<lambda>x. fst x \<noteq> node) l) else None)"

text \<open>The last node and its statement go.\<close>

definition evict :: "'s cache_data \<Rightarrow> 's cache_data option" where
  "evict d =
     (if lru d = [] then None
      else Some (d\<lparr>db_statements := (db_statements d)(snd (last (lru d)) := None),
                   lru := butlast (lru d), data_size := size_sub (data_size d) 1\<rparr>))"

text \<open>\<open>push_front\<close> of a new node for the statement's query, and the entry pointing to it.\<close>

definition put_front :: "string \<Rightarrow> 's \<Rightarrow> 's cache_data \<Rightarrow> 's cache_data" where
  "put_front q st d =
     d\<lparr>db_statements := (db_statements d)(q \<mapsto> \<lparr>db_statement = st, lru_ptr = next_node d\<rparr>),
       lru := (next_node d, q) # lru d, next_node := Suc (next_node d)\<rparr>"

definition Insert :: "('s \<Rightarrow> string) \<Rightarrow> 's \<Rightarrow> 's cache_data \<Rightarrow> 's cache_data option" where
  "Insert sql st d =
     (case db_statements d (sql st) of
        Some e \<Rightarrow> do { l \<leftarrow> lru_erase (lru_ptr e) (lru d); Some (put_front (sql st) st (d\<lparr>lru := l\<rparr>)) }
      | None \<Rightarrow> do {
          d \<leftarrow> (if data_size d > 0 \<and> data_size d \<ge> max_size d then evict d else Some d);
          Some (put_front (sql st) st (d\<lparr>data_size := size_add (data_size d) 1\<rparr>)) })"

definition data_Fetch :: "string \<Rightarrow> 's cache_data \<Rightarrow> ('s option \<times> 's cache_data) option" where
  "data_Fetch q d =
     (case db_statements d q of None \<Rightarrow> Some (None, d)
      | Some e \<Rightarrow> do {
          l \<leftarrow> lru_erase (lru_ptr e) (lru d);
          Some (Some (db_statement e), d\<lparr>lru := l, db_statements := (db_statements d)(q := None),
                                         data_size := size_sub (data_size d) 1\<rparr>) })"

definition data_Clear :: "'s cache_data \<Rightarrow> 's cache_data" where
  "data_Clear d = d\<lparr>lru := [], db_statements := Map.empty, data_size := 0\<rparr>"

text \<open>\<open>DBStatementCache\<close> is its pointer \<open>data_\<close>.\<close>

type_synonym 's stmt_cache = "'s cache_data option"

definition DBStatementCache :: "'s stmt_cache" where
  "DBStatementCache = Some Data"

definition cache_IsActive :: "'s stmt_cache \<Rightarrow> bool" where
  "cache_IsActive c = (c \<noteq> None)"

definition SetSize :: "nat \<Rightarrow> 's stmt_cache \<Rightarrow> 's stmt_cache" where
  "SetSize n c = (if n \<noteq> 0 \<and> \<not> cache_IsActive c then Some (Data\<lparr>max_size := n\<rparr>) else c)"

definition Put :: "('s \<Rightarrow> string) \<Rightarrow> ('s \<Rightarrow> 's) \<Rightarrow> 's \<Rightarrow> 's stmt_cache \<Rightarrow> 's stmt_cache option" where
  "Put sql reset st c =
     (case c of None \<Rightarrow> None | Some d \<Rightarrow> map_option Some (Insert sql (reset st) d))"

definition Fetch :: "string \<Rightarrow> 's stmt_cache \<Rightarrow> ('s option \<times> 's stmt_cache) option" where
  "Fetch q c =
     (case c of None \<Rightarrow> Some (None, c)
      | Some d \<Rightarrow> map_option (\<lambda>(r, d). (r, Some d)) (data_Fetch q d))"

definition cache_Clear :: "'s stmt_cache \<Rightarrow> 's stmt_cache option" where
  "cache_Clear c = (case c of None \<Rightarrow> None | Some d \<Rightarrow> Some (Some (data_Clear d)))"

text \<open>What happens to a statement whose last reference goes. The guard is \<open>if (self) return\<close>: a statement is
  neither cached nor deleted, and a null pointer is dereferenced.\<close>

definition Dispose :: "'s option \<Rightarrow> 's stmt_cache \<Rightarrow> 's stmt_cache option" where
  "Dispose self c = (case self of Some st \<Rightarrow> Some c | None \<Rightarrow> None)"

subsection \<open>The connection\<close>

record 's db_connection =
  cache :: "'s stmt_cache"
  default_is_prepared :: bool
  once_called :: bool
  recyclable :: bool

definition DBConnection :: "connection_info \<Rightarrow> 's db_connection option" where
  "DBConnection info =
     (case Get_int info ''@stmt_cache_size'' 64 of None \<Rightarrow> None
      | Some cache_size \<Rightarrow>
          let c = (if cache_size > 0 then SetSize (nat cache_size) DBStatementCache else DBStatementCache);
              def_is_prep = Get info ''@use_prepared'' ''on'' in
          if def_is_prep = ''on''
          then Some \<lparr>cache = c, default_is_prepared = True, once_called = False, recyclable = False\<rparr>
          else if def_is_prep = ''off''
          then Some \<lparr>cache = c, default_is_prepared = False, once_called = False, recyclable = False\<rparr>
          else None)"

text \<open>\<open>new_prepared\<close> and \<open>new_direct\<close> are the driver's constructors (\<open>None\<close>: it throws).\<close>

definition GetPreparedStatement ::
    "(string \<Rightarrow> 's option) \<Rightarrow> string \<Rightarrow> 's db_connection \<Rightarrow> ('s \<times> 's db_connection) option" where
  "GetPreparedStatement new_prepared q conn =
     (if \<not> cache_IsActive (cache conn) then map_option (\<lambda>st. (st, conn)) (new_prepared q)
      else do {
        (result, c) \<leftarrow> Fetch q (cache conn);
        (case result of Some st \<Rightarrow> Some (st, conn\<lparr>cache := c\<rparr>)
         | None \<Rightarrow> map_option (\<lambda>st. (st, conn\<lparr>cache := c\<rparr>)) (new_prepared q)) })"

definition GetDirectStatement ::
    "(string \<Rightarrow> 's option) \<Rightarrow> string \<Rightarrow> 's db_connection \<Rightarrow> ('s \<times> 's db_connection) option" where
  "GetDirectStatement new_direct q conn = map_option (\<lambda>st. (st, conn)) (new_direct q)"

definition GetPreparedUncachedStatement ::
    "(string \<Rightarrow> 's option) \<Rightarrow> string \<Rightarrow> 's db_connection \<Rightarrow> ('s \<times> 's db_connection) option" where
  "GetPreparedUncachedStatement new_prepared q conn = map_option (\<lambda>st. (st, conn)) (new_prepared q)"

definition Prepare ::
    "(string \<Rightarrow> 's option) \<Rightarrow> (string \<Rightarrow> 's option) \<Rightarrow> string \<Rightarrow> 's db_connection \<Rightarrow>
       ('s \<times> 's db_connection) option" where
  "Prepare new_prepared new_direct q conn =
     (if default_is_prepared conn then GetPreparedStatement new_prepared q conn
      else GetDirectStatement new_direct q conn)"

definition ClearCache :: "'s db_connection \<Rightarrow> 's db_connection option" where
  "ClearCache conn = map_option (\<lambda>c. conn\<lparr>cache := c\<rparr>) (cache_Clear (cache conn))"

subsection \<open>The contract: a list in order of recency\<close>

definition lru_put :: "nat \<Rightarrow> string \<Rightarrow> 's \<Rightarrow> (string \<times> 's) list \<Rightarrow> (string \<times> 's) list" where
  "lru_put m q st xs =
     (q, st) # (if q \<in> set (map fst xs) then filter (\<lambda>x. fst x \<noteq> q) xs
                else if xs \<noteq> [] \<and> m \<le> length xs then butlast xs else xs)"

definition lru_fetch :: "string \<Rightarrow> (string \<times> 's) list \<Rightarrow> 's option \<times> (string \<times> 's) list" where
  "lru_fetch q xs = (map_of xs q, filter (\<lambda>x. fst x \<noteq> q) xs)"

text \<open>What the cache holds, most recent first.\<close>

definition contents :: "'s cache_data \<Rightarrow> (string \<times> 's) list" where
  "contents d = map (\<lambda>x. (snd x, db_statement (the (db_statements d (snd x))))) (lru d)"

subsection \<open>Lemmas: the two structures agree\<close>

text \<open>Every entry points to the one node of its query, and every node has an entry.\<close>

definition data_ok :: "'s cache_data \<Rightarrow> bool" where
  "data_ok d \<longleftrightarrow> distinct (map fst (lru d)) \<and> distinct (map snd (lru d)) \<and>
     (\<forall>n q. (n, q) \<in> set (lru d) \<longleftrightarrow> (\<exists>e. db_statements d q = Some e \<and> lru_ptr e = n)) \<and>
     (\<forall>x\<in>set (lru d). fst x < next_node d) \<and>
     data_size d = length (lru d) \<and> length (lru d) \<le> max 1 (max_size d) \<and> max_size d < size_max"

lemma data_ok_new [simp]: "m < size_max \<Longrightarrow> data_ok (Data\<lparr>max_size := m\<rparr>)" "data_ok Data"
  by (simp_all add: data_ok_def Data_def)

lemma data_ok_node: "data_ok d \<Longrightarrow> db_statements d q = Some e \<Longrightarrow> (lru_ptr e, q) \<in> set (lru d)"
  by (simp add: data_ok_def)

lemma data_ok_entry: "data_ok d \<Longrightarrow> x \<in> set (lru d) \<Longrightarrow> db_statements d (snd x) \<noteq> None"
  unfolding data_ok_def by (cases x) auto

lemma data_ok_keys:
  assumes "data_ok d"
  shows "set (map snd (lru d)) = dom (db_statements d)"
proof (rule set_eqI)
  fix q
  have "q \<in> set (map snd (lru d)) \<longleftrightarrow> (\<exists>n. (n, q) \<in> set (lru d))" by force
  also have "\<dots> \<longleftrightarrow> (\<exists>n e. db_statements d q = Some e \<and> lru_ptr e = n)"
    using assms by (simp add: data_ok_def)
  finally show "q \<in> set (map snd (lru d)) \<longleftrightarrow> q \<in> dom (db_statements d)" by auto
qed

text \<open>Erasing a query's node leaves the nodes of the other queries.\<close>

lemma lru_erase_entry:
  assumes "data_ok d" and "db_statements d q = Some e"
  shows "lru_erase (lru_ptr e) (lru d) = Some (filter (\<lambda>x. snd x \<noteq> q) (lru d))"
proof -
  note node = data_ok_node [OF assms]
  have fst_snd: "fst x = lru_ptr e \<longleftrightarrow> snd x = q" if "x \<in> set (lru d)" for x
  proof -
    have inj: "inj_on fst (set (lru d))" "inj_on snd (set (lru d))"
      using assms(1) by (simp_all add: data_ok_def distinct_map)
    show ?thesis
      using inj_onD [OF inj(1) _ that node] inj_onD [OF inj(2) _ that node] by (cases x) auto
  qed
  have "filter (\<lambda>x. fst x \<noteq> lru_ptr e) (lru d) = filter (\<lambda>x. snd x \<noteq> q) (lru d)"
    using fst_snd by (intro filter_cong) auto
  moreover have "list_ex (\<lambda>x. fst x = lru_ptr e) (lru d)"
    using node by (force simp: list_ex_iff)
  ultimately show ?thesis by (simp add: lru_erase_def)
qed

lemma length_filter_key:
  assumes "distinct (map f xs)" and "k \<in> set (map f xs)"
  shows "Suc (length (filter (\<lambda>x. f x \<noteq> k) xs)) = length xs"
  using assms
proof (induction xs)
  case (Cons x xs)
  have "filter (\<lambda>x. f x \<noteq> k) xs = xs" if "f x = k"
    using Cons.prems(1) that by (intro filter_True) (auto simp: image_iff)
  with Cons show ?case by auto
qed simp

lemma contents_keys: "map fst (contents d) = map snd (lru d)"
  by (simp add: contents_def)

lemma length_contents [simp]: "length (contents d) = length (lru d)"
  by (simp add: contents_def)

text \<open>Taking a query out.\<close>

definition without :: "string \<Rightarrow> 's cache_data \<Rightarrow> 's cache_data" where
  "without q d = d\<lparr>db_statements := (db_statements d)(q := None),
     lru := filter (\<lambda>x. snd x \<noteq> q) (lru d), data_size := size_sub (data_size d) 1\<rparr>"

lemma without_ok:
  assumes "data_ok d" and "db_statements d q \<noteq> None"
  shows "data_ok (without q d)" and "Suc (length (lru (without q d))) = length (lru d)"
    and "contents (without q d) = filter (\<lambda>x. fst x \<noteq> q) (contents d)"
proof -
  have "q \<in> set (map snd (lru d))" using assms data_ok_keys by fastforce
  then have len: "Suc (length (filter (\<lambda>x. snd x \<noteq> q) (lru d))) = length (lru d)"
    using assms(1) by (intro length_filter_key) (simp_all add: data_ok_def)
  then show "Suc (length (lru (without q d))) = length (lru d)" by (simp add: without_def)
  have "length (lru d) < size_max"
    using assms(1) by (auto simp: data_ok_def size_max_def)
  then have "size_sub (data_size d) 1 = length (filter (\<lambda>x. snd x \<noteq> q) (lru d))"
    using assms(1) len by (simp add: data_ok_def size_sub_exact)
  moreover have "data_ok d" by fact
  ultimately show "data_ok (without q d)"
    using len by (auto simp: data_ok_def without_def distinct_map_filter)
  show "contents (without q d) = filter (\<lambda>x. fst x \<noteq> q) (contents d)"
    unfolding contents_def without_def by (auto simp: filter_map o_def intro!: map_cong)
qed

lemma data_Fetch_without:
  "data_ok d \<Longrightarrow> db_statements d q = Some e \<Longrightarrow> data_Fetch q d = Some (Some (db_statement e), without q d)"
  by (simp add: data_Fetch_def lru_erase_entry without_def)

text \<open>Putting a query that is not there in front.\<close>

definition add_front :: "string \<Rightarrow> 's \<Rightarrow> 's cache_data \<Rightarrow> 's cache_data" where
  "add_front q st d = put_front q st (d\<lparr>data_size := size_add (data_size d) 1\<rparr>)"

lemma add_front_ok:
  assumes "data_ok d" and "db_statements d q = None" and "length (lru d) < max 1 (max_size d)"
  shows "data_ok (add_front q st d)" and "contents (add_front q st d) = (q, st) # contents d"
proof -
  have keys: "q \<notin> set (map snd (lru d))" using assms(1,2) data_ok_keys by fastforce
  have "Suc (length (lru d)) < size_max"
    using assms(1,3) by (auto simp: data_ok_def size_max_def max_def split: if_splits)
  then have size: "size_add (data_size d) 1 = Suc (length (lru d))"
    using assms(1) by (simp add: data_ok_def size_add_exact)
  have fresh: "next_node d \<notin> fst ` set (lru d)"
    using assms(1) by (force simp: data_ok_def)
  show "data_ok (add_front q st d)"
    using assms keys size fresh by (auto simp: data_ok_def add_front_def put_front_def less_Suc_eq)
  show "contents (add_front q st d) = (q, st) # contents d"
    using keys by (auto simp: contents_def add_front_def put_front_def intro!: map_cong)
qed

text \<open>A query that is there moves to the front: it is taken out and put in front again.\<close>

lemma put_front_moves:
  assumes "data_ok d" and "db_statements d q \<noteq> None"
  shows "put_front q st (d\<lparr>lru := filter (\<lambda>x. snd x \<noteq> q) (lru d)\<rparr>) = add_front q st (without q d)"
proof -
  have "0 < length (lru d)" using without_ok(2) [OF assms] by (metis zero_less_Suc)
  moreover have "length (lru d) < size_max"
    using assms(1) by (auto simp: data_ok_def size_max_def)
  ultimately have "size_sub (length (lru d)) 1 = length (lru d) - 1" "size_add (length (lru d) - 1) 1 = length (lru d)"
    by (simp_all add: size_sub_exact size_add_exact Suc_le_eq)
  then have "size_add (size_sub (data_size d) 1) 1 = data_size d"
    using assms(1) by (simp add: data_ok_def)
  then show ?thesis by (simp add: put_front_def add_front_def without_def)
qed

text \<open>Eviction takes out the last query.\<close>

lemma filter_last:
  assumes "distinct (map f xs)" and "xs \<noteq> []"
  shows "filter (\<lambda>x. f x \<noteq> f (last xs)) xs = butlast xs"
proof -
  obtain ys y where xs: "xs = ys @ [y]" using assms(2) by (metis append_butlast_last_id)
  then have "filter (\<lambda>x. f x \<noteq> f y) ys = ys" using assms(1) by (intro filter_True) (auto simp: image_iff)
  then show ?thesis by (simp add: xs)
qed

lemma evict_without:
  assumes "data_ok d" and "lru d \<noteq> []"
  shows "evict d = Some (without (snd (last (lru d))) d)"
  using assms filter_last [of snd "lru d"] by (simp add: evict_def without_def data_ok_def)

lemma contents_evict:
  assumes "data_ok d" and "lru d \<noteq> []"
  shows "contents (without (snd (last (lru d))) d) = butlast (contents d)"
proof -
  have "db_statements d (snd (last (lru d))) \<noteq> None" using assms data_ok_entry last_in_set by blast
  moreover have "contents d \<noteq> []" "distinct (map fst (contents d))"
      "fst (last (contents d)) = snd (last (lru d))"
    using assms by (auto simp: contents_def data_ok_def last_map o_def)
  ultimately show ?thesis
    using without_ok(3) [OF assms(1)] filter_last [of fst "contents d"] by simp
qed

subsection \<open>Lemmas: the operations refine the list\<close>

lemma Insert_refines:
  assumes "data_ok d"
  shows "\<exists>d'. Insert sql st d = Some d' \<and> data_ok d' \<and> max_size d' = max_size d \<and>
    contents d' = lru_put (max_size d) (sql st) st (contents d)"
proof (cases "db_statements d (sql st)")
  case (Some e)
  then have q: "db_statements d (sql st) \<noteq> None" by simp
  define d1 where "d1 = without (sql st) d"
  have d1: "data_ok d1" "length (lru d1) < max 1 (max_size d1)" "db_statements d1 (sql st) = None"
    using without_ok(1,2) [OF assms q] assms by (auto simp: d1_def data_ok_def without_def)
  have "Insert sql st d = Some (add_front (sql st) st d1)"
    using Some put_front_moves [OF assms q] by (simp add: Insert_def lru_erase_entry [OF assms] d1_def)
  moreover have "sql st \<in> set (map fst (contents d))"
    unfolding contents_keys data_ok_keys [OF assms] using Some by blast
  moreover have "max_size (add_front (sql st) st d1) = max_size d"
    by (simp add: add_front_def put_front_def d1_def without_def)
  ultimately show ?thesis
    using add_front_ok [OF d1(1,3,2), of st] without_ok(3) [OF assms q]
    by (simp add: lru_put_def d1_def)
next
  case None
  have no_key: "sql st \<notin> set (map fst (contents d))"
    unfolding contents_keys data_ok_keys [OF assms] using None by blast
  show ?thesis
  proof (cases "data_size d > 0 \<and> data_size d \<ge> max_size d")
    case True
    then have ne: "lru d \<noteq> []" "max_size d \<le> length (lru d)" using assms by (auto simp: data_ok_def)
    define d1 where "d1 = without (snd (last (lru d))) d"
    have entry: "db_statements d (snd (last (lru d))) \<noteq> None" using assms ne data_ok_entry last_in_set by blast
    have d1: "data_ok d1" "length (lru d1) < max 1 (max_size d1)" "db_statements d1 (sql st) = None"
      using without_ok(1,2) [OF assms entry] assms None by (auto simp: d1_def data_ok_def without_def)
    have "Insert sql st d = Some (add_front (sql st) st d1)"
      using None True evict_without [OF assms ne(1)] by (simp add: Insert_def d1_def add_front_def)
    moreover have "max_size (add_front (sql st) st d1) = max_size d"
      by (simp add: add_front_def put_front_def d1_def without_def)
    moreover have "contents d \<noteq> []" using ne by (simp add: contents_def)
    ultimately show ?thesis
      using add_front_ok [OF d1(1,3,2), of st] contents_evict [OF assms ne(1)] no_key ne(2)
      by (simp add: lru_put_def d1_def)
  next
    case False
    then have room: "length (lru d) < max 1 (max_size d)" "contents d = [] \<or> \<not> max_size d \<le> length (contents d)"
      using assms by (auto simp: data_ok_def contents_def)
    have "Insert sql st d = Some (add_front (sql st) st d)"
      using None False by (auto simp: Insert_def add_front_def)
    moreover have "max_size (add_front (sql st) st d) = max_size d"
      by (simp add: add_front_def put_front_def)
    ultimately show ?thesis
      using add_front_ok [OF assms None room(1), of st] no_key room(2) by (auto simp: lru_put_def)
  qed
qed

lemma data_Fetch_refines:
  assumes "data_ok d"
  shows "\<exists>d'. data_Fetch q d = Some (fst (lru_fetch q (contents d)), d') \<and> data_ok d' \<and>
    max_size d' = max_size d \<and> contents d' = snd (lru_fetch q (contents d))"
proof (cases "db_statements d q")
  case None
  then have "q \<notin> set (map fst (contents d))"
    unfolding contents_keys data_ok_keys [OF assms] by blast
  then have "map_of (contents d) q = None" "filter (\<lambda>x. fst x \<noteq> q) (contents d) = contents d"
    by (auto simp: map_of_eq_None_iff image_iff intro!: filter_True)
  with None assms show ?thesis by (simp add: data_Fetch_def lru_fetch_def)
next
  case (Some e)
  then have q: "db_statements d q \<noteq> None" by simp
  have "(q, db_statement e) \<in> set (contents d)"
    using data_ok_node [OF assms Some] Some by (force simp: contents_def)
  then have "map_of (contents d) q = Some (db_statement e)"
    using assms by (intro map_of_is_SomeI) (simp_all add: contents_keys data_ok_def)
  moreover have "max_size (without q d) = max_size d" by (simp add: without_def)
  ultimately show ?thesis
    using data_Fetch_without [OF assms Some] without_ok [OF assms q] by (auto simp: lru_fetch_def)
qed

lemma data_Clear_refines:
  "data_ok d \<Longrightarrow> data_ok (data_Clear d) \<and> max_size (data_Clear d) = max_size d \<and> contents (data_Clear d) = []"
  by (simp add: data_ok_def data_Clear_def contents_def)

text \<open>Sequences of calls on a cache, with their results.\<close>

datatype 's cache_op = OpPut 's | OpFetch string | OpClear

fun cache_step ::
    "('s \<Rightarrow> string) \<Rightarrow> ('s \<Rightarrow> 's) \<Rightarrow> 's cache_op \<Rightarrow> 's stmt_cache \<Rightarrow> ('s option \<times> 's stmt_cache) option" where
  "cache_step sql reset (OpPut st) c = map_option (Pair None) (Put sql reset st c)"
| "cache_step sql reset (OpFetch q) c = Fetch q c"
| "cache_step sql reset OpClear c = map_option (Pair None) (cache_Clear c)"

fun cache_run ::
    "('s \<Rightarrow> string) \<Rightarrow> ('s \<Rightarrow> 's) \<Rightarrow> 's cache_op list \<Rightarrow> 's stmt_cache \<Rightarrow>
       ('s option list \<times> 's stmt_cache) option" where
  "cache_run sql reset [] c = Some ([], c)"
| "cache_run sql reset (x # xs) c =
     do { (r, c) \<leftarrow> cache_step sql reset x c; (rs, c) \<leftarrow> cache_run sql reset xs c; Some (r # rs, c) }"

fun spec_step ::
    "nat \<Rightarrow> ('s \<Rightarrow> string) \<Rightarrow> ('s \<Rightarrow> 's) \<Rightarrow> 's cache_op \<Rightarrow> (string \<times> 's) list \<Rightarrow> 's option \<times> (string \<times> 's) list"
where
  "spec_step m sql reset (OpPut st) xs = (None, lru_put m (sql (reset st)) (reset st) xs)"
| "spec_step m sql reset (OpFetch q) xs = lru_fetch q xs"
| "spec_step m sql reset OpClear xs = (None, [])"

fun spec_run ::
    "nat \<Rightarrow> ('s \<Rightarrow> string) \<Rightarrow> ('s \<Rightarrow> 's) \<Rightarrow> 's cache_op list \<Rightarrow> (string \<times> 's) list \<Rightarrow>
       's option list \<times> (string \<times> 's) list" where
  "spec_run m sql reset [] xs = ([], xs)"
| "spec_run m sql reset (x # ops) xs =
     (let (r, xs) = spec_step m sql reset x xs; (rs, xs) = spec_run m sql reset ops xs in (r # rs, xs))"

lemma cache_step_refines:
  assumes "data_ok d"
  shows "\<exists>d'. cache_step sql reset x (Some d) =
      Some (fst (spec_step (max_size d) sql reset x (contents d)), Some d') \<and>
    data_ok d' \<and> max_size d' = max_size d \<and> contents d' = snd (spec_step (max_size d) sql reset x (contents d))"
proof (cases x)
  case (OpPut st)
  with Insert_refines [OF assms, of sql "reset st"] show ?thesis by (auto simp: Put_def)
next
  case (OpFetch q)
  with data_Fetch_refines [OF assms, of q] show ?thesis by (auto simp: Fetch_def)
next
  case OpClear
  with data_Clear_refines [OF assms] show ?thesis by (auto simp: cache_Clear_def)
qed

lemma cache_run_refines:
  "data_ok d \<Longrightarrow>
     \<exists>d'. cache_run sql reset ops (Some d) = Some (fst (spec_run (max_size d) sql reset ops (contents d)), Some d') \<and>
       data_ok d' \<and> max_size d' = max_size d \<and> contents d' = snd (spec_run (max_size d) sql reset ops (contents d))"
proof (induction ops arbitrary: d)
  case (Cons x ops)
  obtain d1 where d1: "cache_step sql reset x (Some d) =
      Some (fst (spec_step (max_size d) sql reset x (contents d)), Some d1)" "data_ok d1"
      "max_size d1 = max_size d" "contents d1 = snd (spec_step (max_size d) sql reset x (contents d))"
    using cache_step_refines [OF Cons.prems, of sql reset x] by blast
  with Cons.IH [OF d1(2)] show ?case by (auto simp: split_beta Let_def)
qed simp

subsection \<open>What the cache asks of a statement\<close>

text \<open>A statement's query survives its reset; then what was put comes back, reset, on the next fetch.\<close>

locale cacheable =
  fixes sql :: "'s \<Rightarrow> string" and reset :: "'s \<Rightarrow> 's"
  assumes sql_reset: "sql (reset st) = sql st"
begin

lemma put_fetch:
  assumes "data_ok d"
  shows "\<exists>c c'. Put sql reset st (Some d) = Some c \<and> Fetch (sql st) c = Some (Some (reset st), c')"
proof -
  obtain d1 where d1: "Insert sql (reset st) d = Some d1" "data_ok d1"
      "contents d1 = lru_put (max_size d) (sql (reset st)) (reset st) (contents d)"
    using Insert_refines [OF assms] by blast
  obtain d2 where "data_Fetch (sql st) d1 = Some (fst (lru_fetch (sql st) (contents d1)), d2)"
    using data_Fetch_refines [OF d1(2)] by blast
  then show ?thesis
    using d1 by (simp add: Put_def Fetch_def lru_fetch_def lru_put_def sql_reset)
qed

end

interpretation prepared: cacheable prepared_query prepared_Reset
  by unfold_locales (simp add: prepared_Reset_def ResetData_def)

interpretation direct: cacheable query Reset
  by unfold_locales (simp add: Reset_def)

subsection \<open>Properties\<close>

text \<open>C7: the statement cache is a least-recently-used cache: every sequence of puts, fetches and clears
  runs without touching an erased node, returns what the list in order of recency returns, holds what
  that list holds and never more than the maximum (or one, where the maximum is 0).\<close>

theorem cache_is_lru:
  assumes "m < size_max"
  shows "\<exists>d. cache_run sql reset ops (Some (Data\<lparr>max_size := m\<rparr>)) =
      Some (fst (spec_run m sql reset ops []), Some d) \<and>
    contents d = snd (spec_run m sql reset ops []) \<and> length (contents d) \<le> max 1 m"
proof -
  have empty: "contents (Data\<lparr>max_size := m\<rparr>) = []" "max_size (Data\<lparr>max_size := m\<rparr>) = m"
    by (simp_all add: contents_def Data_def)
  from cache_run_refines [OF data_ok_new(1) [OF assms], of sql reset ops, unfolded empty] obtain d where
    "cache_run sql reset ops (Some (Data\<lparr>max_size := m\<rparr>)) = Some (fst (spec_run m sql reset ops []), Some d)"
    "data_ok d" "max_size d = m" "contents d = snd (spec_run m sql reset ops [])"
    by blast
  then show ?thesis by (auto simp: data_ok_def)
qed

definition stmt :: "string \<Rightarrow> prepared_statement" where
  "stmt q = \<lparr>prepared_query = q, prepared_params = [], params_count = 0\<rparr>"

lemma stmt_simps: "prepared_query (stmt q) = q" "prepared_Reset (stmt q) = stmt q"
  by (simp_all add: stmt_def prepared_Reset_def ResetData_def)

text \<open>With room for one, the second query evicts the first.\<close>

theorem cache_is_lru_witness:
  "\<exists>d. cache_run prepared_query prepared_Reset [OpPut (stmt ''a''), OpPut (stmt ''b''), OpFetch ''a'']
      (Some (Data\<lparr>max_size := 1\<rparr>)) = Some ([None, None, None], Some d) \<and> contents d = [(''b'', stmt ''b'')]"
proof -
  let ?m = "1 :: nat"
  have steps: "spec_step ?m prepared_query prepared_Reset (OpPut (stmt ''a'')) [] = (None, [(''a'', stmt ''a'')])"
    "spec_step ?m prepared_query prepared_Reset (OpPut (stmt ''b'')) [(''a'', stmt ''a'')] = (None, [(''b'', stmt ''b'')])"
    "spec_step ?m prepared_query prepared_Reset (OpFetch ''a'') [(''b'', stmt ''b'')] = (None, [(''b'', stmt ''b'')])"
    by (simp_all add: stmt_simps lru_put_def lru_fetch_def)
  have "?m < size_max" by (simp add: size_max_def)
  from cache_is_lru [OF this, of prepared_query prepared_Reset "[OpPut (stmt ''a''), OpPut (stmt ''b''), OpFetch ''a'']"]
  show ?thesis by (simp only: spec_run.simps steps Let_def prod.case fst_conv snd_conv) auto
qed

datatype 's conn_op = Use string | Drop "'s option" | DoClearCache

fun conn_step ::
    "(string \<Rightarrow> 's option) \<Rightarrow> (string \<Rightarrow> 's option) \<Rightarrow> 's conn_op \<Rightarrow> 's db_connection \<Rightarrow>
       's db_connection option" where
  "conn_step new_prepared new_direct (Use q) conn = map_option snd (Prepare new_prepared new_direct q conn)"
| "conn_step new_prepared new_direct (Drop self) conn =
     map_option (\<lambda>c. conn\<lparr>cache := c\<rparr>) (Dispose self (cache conn))"
| "conn_step new_prepared new_direct DoClearCache conn = ClearCache conn"

fun conn_run ::
    "(string \<Rightarrow> 's option) \<Rightarrow> (string \<Rightarrow> 's option) \<Rightarrow> 's conn_op list \<Rightarrow> 's db_connection \<Rightarrow>
       's db_connection option" where
  "conn_run new_prepared new_direct [] conn = Some conn"
| "conn_run new_prepared new_direct (x # xs) conn =
     do { conn \<leftarrow> conn_step new_prepared new_direct x conn; conn_run new_prepared new_direct xs conn }"

definition cache_unused :: "'s db_connection \<Rightarrow> bool" where
  "cache_unused conn \<longleftrightarrow> cache conn = Some Data"

lemma unused_fetch: "Fetch q (Some Data) = Some (None, Some Data)"
  by (simp add: Fetch_def data_Fetch_def Data_def)

lemma unused_new: "DBConnection info = Some conn \<Longrightarrow> cache_unused conn"
  by (auto simp: DBConnection_def cache_unused_def SetSize_def cache_IsActive_def DBStatementCache_def Let_def
      split: option.splits if_splits)

lemma unused_prepared:
  "cache_unused conn \<Longrightarrow> GetPreparedStatement new_prepared q conn = map_option (\<lambda>st. (st, conn)) (new_prepared q)"
  by (cases "new_prepared q")
     (simp_all add: GetPreparedStatement_def cache_unused_def cache_IsActive_def unused_fetch)

lemma unused_step: "conn_step np nd x conn = Some conn' \<Longrightarrow> cache_unused conn \<Longrightarrow> cache_unused conn'"
  by (cases x) (auto simp: Prepare_def unused_prepared GetDirectStatement_def Dispose_def ClearCache_def
      cache_Clear_def data_Clear_def cache_unused_def Data_def split: if_splits option.splits)

lemma unused_run: "conn_run np nd xs conn = Some conn' \<Longrightarrow> cache_unused conn \<Longrightarrow> cache_unused conn'"
  by (induction xs arbitrary: conn) (auto simp: bind_eq_Some_conv dest: unused_step)

text \<open>The cache of a connection caches nothing: whatever size is configured, \<open>SetSize\<close> leaves the maximum
  0, and a statement that is dropped is not put back, so however the connection is used, its cache is
  empty and every prepared statement is prepared again by the driver.\<close>

theorem connection_never_caches:
  assumes "DBConnection info = Some conn0" and "conn_run new_prepared new_direct ops conn0 = Some conn"
  shows "map_option contents (cache conn) = Some [] \<and> map_option max_size (cache conn) = Some 0 \<and>
    GetPreparedStatement new_prepared q conn = map_option (\<lambda>st. (st, conn)) (new_prepared q)"
proof -
  have unused: "cache_unused conn" using assms unused_new unused_run by blast
  then show ?thesis
    using unused_prepared [OF unused, of new_prepared q]
    by (simp add: cache_unused_def contents_def Data_def)
qed

definition example_info :: connection_info where
  "example_info = \<lparr>properties = Map.empty, connection_string = ''mysql:'', driver = ''mysql''\<rparr>"

theorem connection_never_caches_witness:
  "\<exists>conn0 conn. DBConnection example_info = Some conn0 \<and>
     conn_run (\<lambda>q. Some (stmt q)) (\<lambda>q. None) [Use ''a'', Drop (Some (stmt ''a''))] conn0 = Some conn \<and>
     map_option contents (cache conn) = Some []"
proof -
  obtain conn0 :: "prepared_statement db_connection" where conn0: "DBConnection example_info = Some conn0" "default_is_prepared conn0" "cache_unused conn0"
    by (auto simp: DBConnection_def example_info_def Get_int_def Get_def cache_unused_def SetSize_def
        cache_IsActive_def DBStatementCache_def Let_def)
  obtain conn where conn: "conn_run (\<lambda>q. Some (stmt q)) (\<lambda>q. None) [Use ''a'', Drop (Some (stmt ''a''))] conn0 = Some conn"
    using conn0 by (simp add: Prepare_def unused_prepared Dispose_def)
  show ?thesis using connection_never_caches [OF conn0(1) conn] conn0(1) conn by blast
qed

text \<open>Putting into a cache that is not active dereferences null; so does disposing of a null statement.\<close>

lemma null_statement: "Put sql reset st None = None" "Dispose None c = None"
  by (simp_all add: Put_def Dispose_def)

end
