(* ===== verification/Time_Base.thy ===== *)
theory Time_Base
  imports Numbers "HOL-Library.Monad_Syntax"
begin

text \<open>
  \<^verbatim>\<open>base/time.h\<close> and \<^verbatim>\<open>base/time.cc\<close>: durations, points in time and ticks, all 64-bit counts of
  microseconds. Signed overflow and a failed \<open>DCHECK\<close> are \<open>None\<close>; division truncates towards zero. The
  C library's calendar (\<open>mktime\<close>, \<open>timegm\<close>, \<open>localtime_r\<close>, \<open>gmtime_r\<close>) and its clocks are parameters.
  The floating point conversions and \<open>Format\<close> are not modelled.
\<close>

subsection \<open>64-bit arithmetic\<close>

definition int64 :: "int \<Rightarrow> int option" where
  "int64 v = (if in_range int64_t v then Some v else None)"

definition div64 :: "int \<Rightarrow> int \<Rightarrow> int option" where
  "div64 a b = (if b = 0 then None else int64 (a sdiv b))"

subsection \<open>The three classes\<close>

datatype TimeDelta = TimeDelta (InMicroseconds: int)

datatype Time = Time (us: int)

datatype TimeTicks = TimeTicks (ticks: int)

text \<open>The comparisons of the three classes, which make each of them a linear order.\<close>

definition TimeDelta_less_eq :: "TimeDelta \<Rightarrow> TimeDelta \<Rightarrow> bool" where
  [simp]: "TimeDelta_less_eq a b = (InMicroseconds a \<le> InMicroseconds b)"

definition TimeDelta_less :: "TimeDelta \<Rightarrow> TimeDelta \<Rightarrow> bool" where
  [simp]: "TimeDelta_less a b = (InMicroseconds a < InMicroseconds b)"

definition Time_less_eq :: "Time \<Rightarrow> Time \<Rightarrow> bool" where
  [simp]: "Time_less_eq a b = (us a \<le> us b)"

definition Time_less :: "Time \<Rightarrow> Time \<Rightarrow> bool" where
  [simp]: "Time_less a b = (us a < us b)"

definition TimeTicks_less_eq :: "TimeTicks \<Rightarrow> TimeTicks \<Rightarrow> bool" where
  [simp]: "TimeTicks_less_eq a b = (ticks a \<le> ticks b)"

definition TimeTicks_less :: "TimeTicks \<Rightarrow> TimeTicks \<Rightarrow> bool" where
  [simp]: "TimeTicks_less a b = (ticks a < ticks b)"

instantiation TimeDelta :: linorder
begin

definition less_eq_TimeDelta :: "TimeDelta \<Rightarrow> TimeDelta \<Rightarrow> bool" where
  "less_eq_TimeDelta = TimeDelta_less_eq"

definition less_TimeDelta :: "TimeDelta \<Rightarrow> TimeDelta \<Rightarrow> bool" where
  "less_TimeDelta = TimeDelta_less"

instance
  by standard (auto simp: less_eq_TimeDelta_def less_TimeDelta_def TimeDelta.expand)

end

instantiation Time :: linorder
begin

definition less_eq_Time :: "Time \<Rightarrow> Time \<Rightarrow> bool" where
  "less_eq_Time = Time_less_eq"

definition less_Time :: "Time \<Rightarrow> Time \<Rightarrow> bool" where
  "less_Time = Time_less"

instance
  by standard (auto simp: less_eq_Time_def less_Time_def Time.expand)

end

instantiation TimeTicks :: linorder
begin

definition less_eq_TimeTicks :: "TimeTicks \<Rightarrow> TimeTicks \<Rightarrow> bool" where
  "less_eq_TimeTicks = TimeTicks_less_eq"

definition less_TimeTicks :: "TimeTicks \<Rightarrow> TimeTicks \<Rightarrow> bool" where
  "less_TimeTicks = TimeTicks_less"

instance
  by standard (auto simp: less_eq_TimeTicks_def less_TimeTicks_def TimeTicks.expand)

end

subsection \<open>Constants\<close>

definition kHoursPerDay :: int where "kHoursPerDay = 24"

definition kMillisecondsPerSecond :: int where "kMillisecondsPerSecond = 1000"

definition kMillisecondsPerDay :: int where
  "kMillisecondsPerDay = kMillisecondsPerSecond * 60 * 60 * kHoursPerDay"

definition kMicrosecondsPerMillisecond :: int where "kMicrosecondsPerMillisecond = 1000"

definition kMicrosecondsPerSecond :: int where
  "kMicrosecondsPerSecond = kMicrosecondsPerMillisecond * kMillisecondsPerSecond"

definition kMicrosecondsPerMinute :: int where "kMicrosecondsPerMinute = kMicrosecondsPerSecond * 60"

definition kMicrosecondsPerHour :: int where "kMicrosecondsPerHour = kMicrosecondsPerMinute * 60"

definition kMicrosecondsPerDay :: int where "kMicrosecondsPerDay = kMicrosecondsPerHour * kHoursPerDay"

definition kMicrosecondsPerWeek :: int where "kMicrosecondsPerWeek = kMicrosecondsPerDay * 7"

definition kNanosecondsPerMicrosecond :: int where "kNanosecondsPerMicrosecond = 1000"

definition kNanosecondsPerSecond :: int where
  "kNanosecondsPerSecond = kNanosecondsPerMicrosecond * kMicrosecondsPerSecond"

definition kWindowsEpochDeltaSeconds :: int where "kWindowsEpochDeltaSeconds = 11644473600"

definition kWindowsEpochDeltaMicroseconds :: int where
  "kWindowsEpochDeltaMicroseconds = kWindowsEpochDeltaSeconds * kMicrosecondsPerSecond"

definition kTimeTToMicrosecondsOffset :: int where
  "kTimeTToMicrosecondsOffset = kWindowsEpochDeltaMicroseconds"

lemmas time_units = kHoursPerDay_def kMillisecondsPerSecond_def kMillisecondsPerDay_def
  kMicrosecondsPerMillisecond_def kMicrosecondsPerSecond_def kMicrosecondsPerMinute_def
  kMicrosecondsPerHour_def kMicrosecondsPerDay_def kNanosecondsPerMicrosecond_def
  kNanosecondsPerSecond_def kWindowsEpochDeltaSeconds_def kWindowsEpochDeltaMicroseconds_def
  kTimeTToMicrosecondsOffset_def

subsection \<open>Durations\<close>

definition FromDays :: "int \<Rightarrow> TimeDelta option" where
  "FromDays days = map_option TimeDelta (int64 (days * kMicrosecondsPerDay))"

definition FromHours :: "int \<Rightarrow> TimeDelta option" where
  "FromHours hours = map_option TimeDelta (int64 (hours * kMicrosecondsPerHour))"

definition FromMinutes :: "int \<Rightarrow> TimeDelta option" where
  "FromMinutes minutes = map_option TimeDelta (int64 (minutes * kMicrosecondsPerMinute))"

definition FromSeconds :: "int \<Rightarrow> TimeDelta option" where
  "FromSeconds seconds = map_option TimeDelta (int64 (seconds * kMicrosecondsPerSecond))"

definition FromMilliseconds :: "int \<Rightarrow> TimeDelta option" where
  "FromMilliseconds milliseconds = map_option TimeDelta (int64 (milliseconds * kMicrosecondsPerMillisecond))"

definition FromNanoseconds :: "int \<Rightarrow> TimeDelta" where
  "FromNanoseconds nanoseconds = TimeDelta (nanoseconds sdiv kNanosecondsPerMicrosecond)"

definition InDays :: "TimeDelta \<Rightarrow> int" where
  "InDays d = wrap_to int32_t (InMicroseconds d sdiv kMicrosecondsPerDay)"

definition InHours :: "TimeDelta \<Rightarrow> int" where
  "InHours d = wrap_to int32_t (InMicroseconds d sdiv kMicrosecondsPerHour)"

definition InMinutes :: "TimeDelta \<Rightarrow> int" where
  "InMinutes d = wrap_to int32_t (InMicroseconds d sdiv kMicrosecondsPerMinute)"

definition InSeconds :: "TimeDelta \<Rightarrow> int" where
  "InSeconds d = InMicroseconds d sdiv kMicrosecondsPerSecond"

definition InMilliseconds :: "TimeDelta \<Rightarrow> int" where
  "InMilliseconds d = InMicroseconds d sdiv kMicrosecondsPerMillisecond"

definition InNanoseconds :: "TimeDelta \<Rightarrow> int option" where
  "InNanoseconds d = int64 (InMicroseconds d * kNanosecondsPerMicrosecond)"

definition delta_plus :: "TimeDelta \<Rightarrow> TimeDelta \<Rightarrow> TimeDelta option" where
  "delta_plus a b = map_option TimeDelta (int64 (InMicroseconds a + InMicroseconds b))"

definition delta_minus :: "TimeDelta \<Rightarrow> TimeDelta \<Rightarrow> TimeDelta option" where
  "delta_minus a b = map_option TimeDelta (int64 (InMicroseconds a - InMicroseconds b))"

definition delta_uminus :: "TimeDelta \<Rightarrow> TimeDelta option" where
  "delta_uminus a = map_option TimeDelta (int64 (- InMicroseconds a))"

definition delta_times :: "TimeDelta \<Rightarrow> int \<Rightarrow> TimeDelta option" where
  "delta_times d a = map_option TimeDelta (int64 (InMicroseconds d * a))"

definition delta_divide :: "TimeDelta \<Rightarrow> int \<Rightarrow> TimeDelta option" where
  "delta_divide d a = map_option TimeDelta (div64 (InMicroseconds d) a)"

definition delta_ratio :: "TimeDelta \<Rightarrow> TimeDelta \<Rightarrow> int option" where
  "delta_ratio a b = div64 (InMicroseconds a) (InMicroseconds b)"

record timespec =
  tv_sec :: int
  tv_nsec :: int

record timeval =
  val_sec :: int
  val_usec :: int

definition delta_FromTimespec :: "timespec \<Rightarrow> TimeDelta option" where
  "delta_FromTimespec ts =
     (if tv_nsec ts \<ge> 0 \<and> tv_nsec ts < kNanosecondsPerSecond
      then do { a \<leftarrow> int64 (tv_sec ts * kMicrosecondsPerSecond);
                map_option TimeDelta (int64 (a + tv_nsec ts sdiv kNanosecondsPerMicrosecond)) }
      else None)"

definition delta_ToTimespec :: "TimeDelta \<Rightarrow> timespec" where
  "delta_ToTimespec d =
     \<lparr>tv_sec = InMicroseconds d sdiv kMicrosecondsPerSecond,
      tv_nsec = (InMicroseconds d smod kMicrosecondsPerSecond) * kNanosecondsPerMicrosecond\<rparr>"

subsection \<open>Points in time\<close>

definition IsNull :: "Time \<Rightarrow> bool" where "IsNull t = (us t = 0)"

definition IsMax :: "Time \<Rightarrow> bool" where "IsMax t = (us t = it_max int64_t)"

definition UnixEpoch :: Time where "UnixEpoch = Time 0"

definition time_Max :: Time where "time_Max = Time (it_max int64_t)"

text \<open>\<open>time_t\<close> is 64 bits wide.\<close>

definition FromTimespec :: "timespec \<Rightarrow> Time option" where
  "FromTimespec ts =
     (if \<not> (tv_nsec ts \<ge> 0 \<and> tv_nsec ts < kNanosecondsPerSecond) then None
      else if tv_nsec ts = 0 \<and> tv_sec ts = 0 then Some (Time 0)
      else if tv_nsec ts = kNanosecondsPerSecond - 1 \<and> tv_sec ts = it_max int64_t then Some time_Max
      else do { a \<leftarrow> int64 (tv_sec ts * kMicrosecondsPerSecond);
                map_option Time (int64 (a + tv_nsec ts sdiv kNanosecondsPerMicrosecond)) })"

definition ToTimespec :: "Time \<Rightarrow> timespec" where
  "ToTimespec t =
     (if IsNull t then \<lparr>tv_sec = 0, tv_nsec = 0\<rparr>
      else if IsMax t then \<lparr>tv_sec = it_max int64_t, tv_nsec = kNanosecondsPerSecond - 1\<rparr>
      else \<lparr>tv_sec = us t sdiv kMicrosecondsPerSecond,
            tv_nsec = (us t smod kMicrosecondsPerSecond) * kNanosecondsPerMicrosecond\<rparr>)"

definition FromTimeval :: "timeval \<Rightarrow> Time option" where
  "FromTimeval tv =
     (if \<not> (val_usec tv \<ge> 0 \<and> val_usec tv < kMicrosecondsPerSecond) then None
      else if val_usec tv = 0 \<and> val_sec tv = 0 then Some (Time 0)
      else if val_usec tv = kMicrosecondsPerSecond - 1 \<and> val_sec tv = it_max int64_t then Some time_Max
      else do { a \<leftarrow> int64 (val_sec tv * kMicrosecondsPerSecond);
                map_option Time (int64 (a + val_usec tv)) })"

definition ToTimeval :: "Time \<Rightarrow> timeval" where
  "ToTimeval t =
     (if IsNull t then \<lparr>val_sec = 0, val_usec = 0\<rparr>
      else if IsMax t then \<lparr>val_sec = it_max int64_t, val_usec = kMicrosecondsPerSecond - 1\<rparr>
      else \<lparr>val_sec = us t sdiv kMicrosecondsPerSecond, val_usec = us t smod kMicrosecondsPerSecond\<rparr>)"

definition time_plus :: "Time \<Rightarrow> TimeDelta \<Rightarrow> Time option" where
  "time_plus t d = map_option Time (int64 (us t + InMicroseconds d))"

definition time_minus :: "Time \<Rightarrow> TimeDelta \<Rightarrow> Time option" where
  "time_minus t d = map_option Time (int64 (us t - InMicroseconds d))"

definition time_diff :: "Time \<Rightarrow> Time \<Rightarrow> TimeDelta option" where
  "time_diff a b = map_option TimeDelta (int64 (us a - us b))"

definition FromTimeT :: "int \<Rightarrow> Time option" where
  "FromTimeT tt =
     (if tt = 0 then Some (Time 0)
      else if tt = it_max int64_t then Some time_Max
      else do { d \<leftarrow> FromSeconds tt; time_plus (Time kTimeTToMicrosecondsOffset) d })"

definition ToTimeT :: "Time \<Rightarrow> int option" where
  "ToTimeT t =
     (if IsNull t then Some 0
      else if IsMax t then Some (it_max int64_t)
      else if it_max int64_t - kTimeTToMicrosecondsOffset \<le> us t then Some (it_max int64_t)
      else do { a \<leftarrow> int64 (us t - kTimeTToMicrosecondsOffset); Some (a sdiv kMicrosecondsPerSecond) })"

text \<open>\<open>Now\<close>, from what \<open>gettimeofday\<close> stored.\<close>

definition Now :: "timeval \<Rightarrow> Time option" where
  "Now tv = FromTimeval tv"

subsection \<open>Ticks\<close>

text \<open>From what \<open>clock_gettime\<close> stored.\<close>

definition HighResolutionNow :: "timespec \<Rightarrow> TimeTicks option" where
  "HighResolutionNow ts =
     do { a \<leftarrow> int64 (tv_sec ts * kMicrosecondsPerSecond);
          b \<leftarrow> int64 (a + tv_nsec ts sdiv kNanosecondsPerMicrosecond);
          map_option TimeTicks (int64 (b + 1)) }"

definition ticks_diff :: "TimeTicks \<Rightarrow> TimeTicks \<Rightarrow> TimeDelta option" where
  "ticks_diff a b = map_option TimeDelta (int64 (ticks a - ticks b))"

definition ticks_plus :: "TimeTicks \<Rightarrow> TimeDelta \<Rightarrow> TimeTicks option" where
  "ticks_plus t d = map_option TimeTicks (int64 (ticks t + InMicroseconds d))"

definition ticks_minus :: "TimeTicks \<Rightarrow> TimeDelta \<Rightarrow> TimeTicks option" where
  "ticks_minus t d = map_option TimeTicks (int64 (ticks t - InMicroseconds d))"

subsection \<open>Calendar times\<close>

record exploded =
  year :: int
  month :: int
  day_of_week :: int
  day_of_month :: int
  hour :: int
  minute :: int
  second :: int
  millisecond :: int

record tm =
  tm_sec :: int
  tm_min :: int
  tm_hour :: int
  tm_mday :: int
  tm_mon :: int
  tm_year :: int
  tm_wday :: int
  tm_yday :: int
  tm_isdst :: int

text \<open>\<open>mktime\<close> and \<open>timegm\<close> read the structure; what they write back into it is not used.\<close>

definition SysTimeFromTimeStruct :: "(tm \<Rightarrow> int) \<Rightarrow> (tm \<Rightarrow> int) \<Rightarrow> tm \<Rightarrow> bool \<Rightarrow> int" where
  "SysTimeFromTimeStruct mktime timegm timestruct is_local =
     (if is_local then mktime timestruct else timegm timestruct)"

definition SysTimeToTimeStruct :: "(int \<Rightarrow> tm) \<Rightarrow> (int \<Rightarrow> tm) \<Rightarrow> int \<Rightarrow> bool \<Rightarrow> tm" where
  "SysTimeToTimeStruct localtime gmtime t is_local = (if is_local then localtime t else gmtime t)"

definition Explode :: "(int \<Rightarrow> tm) \<Rightarrow> (int \<Rightarrow> tm) \<Rightarrow> bool \<Rightarrow> Time \<Rightarrow> exploded option" where
  "Explode localtime gmtime is_local t =
     do { microseconds \<leftarrow> int64 (us t - kWindowsEpochDeltaMicroseconds);
          (milliseconds, seconds, ms) \<leftarrow>
            (if microseconds \<ge> 0
             then (let milliseconds = microseconds sdiv kMicrosecondsPerMillisecond in
                   Some (milliseconds, milliseconds sdiv kMillisecondsPerSecond,
                         milliseconds smod kMillisecondsPerSecond))
             else do {
               a \<leftarrow> int64 (microseconds - kMicrosecondsPerMillisecond);
               let milliseconds = (a + 1) sdiv kMicrosecondsPerMillisecond;
               let seconds = (milliseconds - kMillisecondsPerSecond + 1) sdiv kMillisecondsPerSecond;
               let ms = milliseconds smod kMillisecondsPerSecond;
               Some (milliseconds, seconds, if ms < 0 then ms + kMillisecondsPerSecond else ms) });
          let timestruct = SysTimeToTimeStruct localtime gmtime seconds is_local;
          Some \<lparr>year = tm_year timestruct + 1900, month = tm_mon timestruct + 1,
                day_of_week = tm_wday timestruct, day_of_month = tm_mday timestruct,
                hour = tm_hour timestruct, minute = tm_min timestruct,
                second = tm_sec timestruct, millisecond = ms\<rparr> }"

definition LocalExplode :: "(int \<Rightarrow> tm) \<Rightarrow> (int \<Rightarrow> tm) \<Rightarrow> Time \<Rightarrow> exploded option" where
  "LocalExplode localtime gmtime t = Explode localtime gmtime True t"

definition ExplodedMostlyEquals :: "exploded \<Rightarrow> exploded \<Rightarrow> bool" where
  "ExplodedMostlyEquals lhs rhs =
     (year lhs = year rhs \<and> month lhs = month rhs \<and> day_of_month lhs = day_of_month rhs \<and>
      hour lhs = hour rhs \<and> minute lhs = minute rhs \<and> second lhs = second rhs \<and>
      millisecond lhs = millisecond rhs)"

definition to_timestruct :: "exploded \<Rightarrow> tm" where
  "to_timestruct e =
     \<lparr>tm_sec = second e, tm_min = minute e, tm_hour = hour e, tm_mday = day_of_month e,
      tm_mon = month e - 1, tm_year = year e - 1900, tm_wday = day_of_week e, tm_yday = 0,
      tm_isdst = - 1\<rparr>"

text \<open>The seconds of the calendar time, trying both daylight saving flags when the first try fails.\<close>

definition find_seconds :: "(tm \<Rightarrow> int) \<Rightarrow> (tm \<Rightarrow> int) \<Rightarrow> bool \<Rightarrow> tm \<Rightarrow> int" where
  "find_seconds mktime timegm is_local timestruct0 =
     (let seconds = SysTimeFromTimeStruct mktime timegm timestruct0 is_local in
      if seconds = - 1
      then let seconds_isdst0 = SysTimeFromTimeStruct mktime timegm (timestruct0\<lparr>tm_isdst := 0\<rparr>) is_local;
               seconds_isdst1 = SysTimeFromTimeStruct mktime timegm (timestruct0\<lparr>tm_isdst := 1\<rparr>) is_local
           in if seconds_isdst0 < 0 then seconds_isdst1
              else if seconds_isdst1 < 0 then seconds_isdst0
              else min seconds_isdst0 seconds_isdst1
      else seconds)"

text \<open>For a time that is not local the comparison reads an uninitialised structure: \<open>None\<close>.\<close>

definition FromExploded ::
    "(tm \<Rightarrow> int) \<Rightarrow> (tm \<Rightarrow> int) \<Rightarrow> (int \<Rightarrow> tm) \<Rightarrow> (int \<Rightarrow> tm) \<Rightarrow> bool \<Rightarrow> exploded \<Rightarrow> (bool \<times> Time) option"
where
  "FromExploded mktime timegm localtime gmtime is_local e =
     do { let seconds = find_seconds mktime timegm is_local (to_timestruct e);
          milliseconds \<leftarrow>
            (if seconds = - 1 \<and> (year e < 1969 \<or> year e > 1970)
             then Some (if year e < 1969 then it_min int32_t * kMillisecondsPerSecond
                        else it_max int32_t * kMillisecondsPerSecond + (kMillisecondsPerSecond - 1))
             else do { a \<leftarrow> int64 (seconds * kMillisecondsPerSecond); int64 (a + millisecond e) });
          b \<leftarrow> int64 (milliseconds * kMicrosecondsPerMillisecond);
          c \<leftarrow> int64 (b + kWindowsEpochDeltaMicroseconds);
          let converted_time = Time c;
          to_exploded \<leftarrow> (if \<not> is_local then None else LocalExplode localtime gmtime converted_time);
          Some (if ExplodedMostlyEquals to_exploded e then (True, converted_time) else (False, Time 0)) }"

definition FromLocalExploded ::
    "(tm \<Rightarrow> int) \<Rightarrow> (tm \<Rightarrow> int) \<Rightarrow> (int \<Rightarrow> tm) \<Rightarrow> (int \<Rightarrow> tm) \<Rightarrow> exploded \<Rightarrow> (bool \<times> Time) option" where
  "FromLocalExploded mktime timegm localtime gmtime e = FromExploded mktime timegm localtime gmtime True e"

subsection \<open>Lemmas\<close>

lemma int64_Some: "int64 v = Some w \<longleftrightarrow> in_range int64_t v \<and> w = v"
  by (auto simp: int64_def)

lemma int64_ok [simp]: "in_range int64_t v \<Longrightarrow> int64 v = Some v"
  by (simp add: int64_def)

lemma range64: "in_range int64_t v \<longleftrightarrow> - 9223372036854775808 \<le> v \<and> v \<le> 9223372036854775807"
  by (simp add: in_range_def int_types)

lemma max64: "it_max int64_t = 9223372036854775807"
  by (simp add: int_types)

text \<open>Truncated division of a nonnegative number, and of a negative one.\<close>

lemma sdiv_nonneg: "0 \<le> a \<Longrightarrow> 0 < b \<Longrightarrow> a sdiv b = a div b" "0 \<le> a \<Longrightarrow> 0 < b \<Longrightarrow> a smod b = a mod b" for a b :: int
  by (simp_all add: signed_divide_int_def signed_modulo_int_def sgn_if minus_div_mult_eq_mod)

lemma sdiv_neg: "a < 0 \<Longrightarrow> 0 < b \<Longrightarrow> a sdiv b = - (- a div b)" for a b :: int
  by (simp add: signed_divide_int_def sgn_if)

lemma smod_neg: "a < 0 \<Longrightarrow> 0 < b \<Longrightarrow> a smod b = - (- a mod b)" for a b :: int
  by (simp add: signed_modulo_int_def sdiv_neg minus_div_mult_eq_mod [symmetric])

text \<open>Quotient and remainder lie between 0 and the number.\<close>

lemma truncated_bounds:
  fixes a b :: int
  assumes "0 < b"
  shows "a sdiv b * b + a smod b = a"
    and "0 \<le> a \<Longrightarrow> 0 \<le> a smod b \<and> a smod b < b \<and> 0 \<le> a sdiv b * b"
    and "a < 0 \<Longrightarrow> a smod b \<le> 0 \<and> - b < a smod b \<and> a sdiv b * b \<le> 0"
    and "a smod b = 0 \<longleftrightarrow> b dvd a"
proof -
  show "a sdiv b * b + a smod b = a" by (rule sdiv_mult_smod_eq)
  show "a smod b = 0 \<longleftrightarrow> b dvd a"
    by (cases "0 \<le> a") (simp_all add: sdiv_nonneg smod_neg assms dvd_eq_mod_eq_0 [symmetric])
qed (use assms in \<open>auto simp: sdiv_nonneg sdiv_neg smod_neg pos_imp_zdiv_nonneg_iff mult_nonpos_nonneg\<close>)

text \<open>The adjustment for negative numbers makes truncated division round down.\<close>

lemma sdiv_floor: "a < 0 \<Longrightarrow> 0 < b \<Longrightarrow> (a - b + 1) sdiv b = a div b" for a b :: int
proof -
  assume ab: "a < 0" "0 < b"
  then have "(a - b + 1) sdiv b = - ((b - 1 - a) div b)"
    by (simp add: sdiv_neg algebra_simps)
  also have "(b - 1 - a) div b = - (a div b)"
  proof -
    have "b - 1 - a = (b - 1 - a mod b) + (- (a div b)) * b"
      by (simp add: algebra_simps)
    moreover have "0 \<le> b - 1 - a mod b" "b - 1 - a mod b < b"
      using ab pos_mod_bound [of b a] pos_mod_sign [of b a] by linarith+
    ultimately show ?thesis using ab(2)
      by (metis div_mult_self1 div_pos_pos_trivial add.commute add_0 order_less_imp_not_eq2)
  qed
  finally show ?thesis by simp
qed

lemma timeval_parts:
  assumes "in_range int64_t (us t)"
  shows "FromTimeval (ToTimeval t) = (if 0 \<le> us t \<or> kMicrosecondsPerSecond dvd us t then Some t else None)"
proof (cases "us t = 0 \<or> us t = it_max int64_t")
  case True
  then show ?thesis
    by (cases t) (auto simp: FromTimeval_def ToTimeval_def IsNull_def IsMax_def time_Max_def time_units int_types)
next
  case False
  define q r where "q = us t sdiv kMicrosecondsPerSecond" and "r = us t smod kMicrosecondsPerSecond"
  have k: "0 < kMicrosecondsPerSecond" by (simp add: time_units)
  note b = truncated_bounds [OF k, of "us t"]
  have tv: "ToTimeval t = \<lparr>val_sec = q, val_usec = r\<rparr>"
    using False by (simp add: ToTimeval_def IsNull_def IsMax_def q_def r_def)
  have eq: "q * kMicrosecondsPerSecond + r = us t" using b(1) by (simp add: q_def r_def)
  show ?thesis
  proof (cases "0 \<le> us t \<or> kMicrosecondsPerSecond dvd us t")
    case True
    then have r: "0 \<le> r" "r < kMicrosecondsPerSecond"
      using b(2-4) k by (auto simp: r_def)
    have range: "in_range int64_t (q * kMicrosecondsPerSecond)"
    proof (cases "0 \<le> us t")
      case True
      with eq r b(2) assms show ?thesis by (auto simp: range64 q_def)
    next
      case False
      then have "r \<le> 0" using b(3) by (simp add: r_def)
      with False eq r assms show ?thesis by (simp add: range64)
    qed
    have "q \<noteq> 9223372036854775807" using range [unfolded range64] by (auto simp: time_units)
    then have "q \<noteq> it_max int64_t" by (simp add: int_types)
    moreover have "\<not> (r = 0 \<and> q = 0)" using eq False by auto
    ultimately show ?thesis
      using True r range assms by (auto simp: FromTimeval_def tv eq)
  next
    case False
    then have "r < 0" using b(3,4) by (auto simp: r_def)
    with False show ?thesis by (simp add: FromTimeval_def tv)
  qed
qed

lemma timespec_timeval:
  assumes "in_range int64_t (us t)"
  shows "FromTimespec (ToTimespec t) = FromTimeval (ToTimeval t)"
proof (cases "us t = 0 \<or> us t = it_max int64_t")
  case True
  then show ?thesis
    by (auto simp: FromTimespec_def ToTimespec_def FromTimeval_def ToTimeval_def IsNull_def IsMax_def
        time_units int_types)
next
  case False
  define q r where "q = us t sdiv kMicrosecondsPerSecond" and "r = us t smod kMicrosecondsPerSecond"
  have parts: "ToTimeval t = \<lparr>val_sec = q, val_usec = r\<rparr>" "ToTimespec t = \<lparr>tv_sec = q, tv_nsec = r * 1000\<rparr>"
    using False by (simp_all add: ToTimeval_def ToTimespec_def IsNull_def IsMax_def q_def r_def time_units)
  have "\<bar>q * 1000000\<bar> \<le> \<bar>us t\<bar>"
    using truncated_bounds [of "1000000" "us t"]
    by (cases "0 \<le> us t") (auto simp: q_def time_units)
  then have "q \<noteq> 9223372036854775807" using assms [unfolded range64] by auto
  then have q: "q \<noteq> it_max int64_t" by (simp add: int_types)
  have r: "(0 \<le> r * 1000 \<and> r * 1000 < 1000000000) = (0 \<le> r \<and> r < 1000000)" by auto
  have "r * 1000 sdiv 1000 = r" by (simp add: signed_divide_int_def abs_mult sgn_mult mult_sgn_abs)
  then show ?thesis
    using q r by (auto simp: FromTimespec_def FromTimeval_def parts time_units)
qed

text \<open>\<open>Explode\<close> splits the microseconds since 1970 rounding down.\<close>

definition split_us :: "Time \<Rightarrow> int \<times> int" where
  "split_us t = (let m = us t - 11644473600000000 in (m div 1000 div 1000, m div 1000 mod 1000))"

definition exploded_at :: "tm \<Rightarrow> int \<Rightarrow> exploded" where
  "exploded_at timestruct ms =
     \<lparr>year = tm_year timestruct + 1900, month = tm_mon timestruct + 1,
      day_of_week = tm_wday timestruct, day_of_month = tm_mday timestruct, hour = tm_hour timestruct,
      minute = tm_min timestruct, second = tm_sec timestruct, millisecond = ms\<rparr>"

lemma smod_adjust: "(if a smod b < 0 then a smod b + b else a smod b) = a mod b" if "0 < b" for a b :: int
proof (cases "0 \<le> a")
  case False
  have "0 \<le> a mod b" "a mod b < b" "a smod b = a mod b \<or> a smod b = a mod b - b"
    using that by (auto simp: signed_modulo_int_eq_modulo_int)
  moreover have "a smod b \<le> 0" using truncated_bounds(3) [OF that] False by simp
  ultimately show ?thesis by auto
qed (use that in \<open>simp add: sdiv_nonneg not_less\<close>)

lemma Explode_split:
  assumes "0 \<le> us t" and "us t \<le> it_max int64_t"
  shows "Explode localtime gmtime is_local t =
    Some (exploded_at (SysTimeToTimeStruct localtime gmtime (fst (split_us t)) is_local) (snd (split_us t)))"
proof -
  define m where "m = us t - 11644473600000000"
  have range: "in_range int64_t m" "in_range int64_t (m - 1000)"
    using assms by (simp_all add: range64 m_def max64)
  have split: "split_us t = (m div 1000 div 1000, m div 1000 mod 1000)"
    by (simp add: split_us_def m_def Let_def)
  have m: "us t - kWindowsEpochDeltaMicroseconds = m" by (simp add: m_def time_units)
  show ?thesis
  proof (cases "0 \<le> m")
    case True
    then show ?thesis
      unfolding Explode_def m using range(1)
      by (simp add: split time_units sdiv_nonneg exploded_at_def Let_def)
  next
    case False
    have floor: "(m - 999) sdiv 1000 = m div 1000"
      using sdiv_floor [of m 1000] False by simp
    have "m div 1000 < 0" using False by (simp add: pos_imp_zdiv_neg_iff)
    then have secs: "(m div 1000 - 999) sdiv 1000 = m div 1000 div 1000"
      using sdiv_floor [of "m div 1000" 1000] by simp
    show ?thesis
      unfolding Explode_def m using range False secs smod_adjust [of 1000 "m div 1000"]
      by (auto simp: split time_units floor exploded_at_def Let_def split: if_splits)
  qed
qed

subsection \<open>Properties\<close>

text \<open>A time goes through \<^verbatim>\<open>timeval\<close> and \<^verbatim>\<open>timespec\<close> unchanged, the null and the maximal time included,
  exactly when it is not before 1970 or is a whole second; otherwise the truncated remainder is
  negative and the way back aborts.\<close>

theorem timeval_roundtrip:
  assumes "in_range int64_t (us t)"
  shows "FromTimeval (ToTimeval t) = (if 0 \<le> us t \<or> kMicrosecondsPerSecond dvd us t then Some t else None) \<and>
    FromTimespec (ToTimespec t) = FromTimeval (ToTimeval t)"
  using timeval_parts [OF assms] timespec_timeval [OF assms] by simp

theorem timeval_roundtrip_witness:
  "FromTimeval (ToTimeval (Time 1470815224000001)) = Some (Time 1470815224000001) \<and>
   FromTimespec (ToTimespec (Time (- 1))) = None"
  using timeval_roundtrip [of "Time 1470815224000001"] timeval_roundtrip [of "Time (- 1)"]
  by (simp add: range64 time_units)

text \<open>\<open>time_t\<close> goes through \<open>Time\<close> unchanged, but \<open>FromTimeT\<close> counts from 1601 where every other
  conversion counts from 1970: the same second, read as \<^verbatim>\<open>time_t\<close> and as \<^verbatim>\<open>timeval\<close>, gives two times
  that are 369 years apart.\<close>

theorem time_t_epoch:
  assumes "0 < tt" and "tt < 9200000000000"
  shows "Option.bind (FromTimeT tt) ToTimeT = Some tt \<and>
    FromTimeT tt = Some (Time (tt * 1000000 + 11644473600000000)) \<and>
    FromTimeval \<lparr>val_sec = tt, val_usec = 0\<rparr> = Some (Time (tt * 1000000))"
proof -
  have range: "in_range int64_t (tt * 1000000)" "in_range int64_t (tt * 1000000 + 11644473600000000)"
    using assms by (simp_all add: range64)
  have no_max: "tt \<noteq> it_max int64_t" "tt * 1000000 + 11644473600000000 < it_max int64_t - 11644473600000000"
    using assms by (simp_all add: max64)
  have "FromTimeT tt = Some (Time (tt * 1000000 + 11644473600000000))"
    using range no_max(1) assms(1)
    by (simp add: FromTimeT_def FromSeconds_def time_plus_def time_units add.commute)
  moreover have "tt * 1000000 sdiv 1000000 = tt"
    using assms(1) by (simp add: sdiv_nonneg)
  then have "ToTimeT (Time (tt * 1000000 + 11644473600000000)) = Some tt"
    using range no_max(2) assms(1) by (simp add: ToTimeT_def IsNull_def IsMax_def time_units)
  moreover have "FromTimeval \<lparr>val_sec = tt, val_usec = 0\<rparr> = Some (Time (tt * 1000000))"
    using range no_max(1) assms(1) by (simp add: FromTimeval_def time_units)
  ultimately show ?thesis by simp
qed

theorem time_t_epoch_witness:
  "FromTimeT 1470815224 \<noteq> FromTimeval \<lparr>val_sec = 1470815224, val_usec = 0\<rparr>"
  using time_t_epoch [of 1470815224] by simp

text \<open>A local calendar time leads back to the time it was taken from, rounded down to a millisecond,
  also before 1970: if \<^verbatim>\<open>mktime\<close> inverts \<^verbatim>\<open>localtime_r\<close> on its second (which it does where the local
  clock shows no time twice) and does not answer -1.\<close>

theorem exploded_roundtrip:
  assumes "0 \<le> us t" and "us t \<le> it_max int64_t"
    and "LocalExplode localtime gmtime t = Some e"
    and "mktime (to_timestruct e) = fst (split_us t)" and "fst (split_us t) \<noteq> - 1"
  shows "FromLocalExploded mktime timegm localtime gmtime e = Some (True, Time (us t - us t mod 1000))"
proof -
  define m where "m = us t - 11644473600000000"
  define sec ms where "sec = m div 1000 div 1000" and "ms = m div 1000 mod 1000"
  have split: "split_us t = (sec, ms)" by (simp add: split_us_def m_def sec_def ms_def Let_def)
  have e: "e = exploded_at (localtime sec) ms"
    using assms(3) Explode_split [OF assms(1,2)]
    by (simp add: LocalExplode_def split SysTimeToTimeStruct_def)
  define t' where "t' = Time (us t - us t mod 1000)"
  have sum: "sec * 1000 + ms = m div 1000" by (simp add: sec_def ms_def)
  have m_eq: "m = us t + 1000 * (- 11644473600000)" by (simp add: m_def)
  have "m div 1000 * 1000 = m - m mod 1000" by (simp add: minus_mod_eq_div_mult)
  also have "m mod 1000 = us t mod 1000"
    unfolding m_eq by (rule mod_mult_self2)
  finally have us: "m div 1000 * 1000 + 11644473600000000 = us t'"
    by (simp add: m_def t'_def)
  have pos: "0 \<le> us t'" "us t' \<le> us t"
    unfolding t'_def using assms(1) by (simp_all add: minus_mod_eq_div_mult pos_imp_zdiv_nonneg_iff)
  have "us t' - 11644473600000000 = m div 1000 * 1000" using us by simp
  then have "split_us t' = (sec, ms)"
    unfolding split_us_def Let_def by (simp add: sec_def ms_def)
  then have again: "LocalExplode localtime gmtime t' = Some e"
    using Explode_split [of t' localtime gmtime True] pos assms(2)
    by (simp add: LocalExplode_def e SysTimeToTimeStruct_def)
  have seconds: "find_seconds mktime timegm True (to_timestruct e) = sec"
    using assms(4,5) by (simp add: find_seconds_def SysTimeFromTimeStruct_def split)
  have ms_e: "millisecond e = ms" by (simp add: e exploded_at_def)
  have "0 \<le> ms" "ms < 1000" by (simp_all add: ms_def)
  then have range: "in_range int64_t (sec * 1000)" "in_range int64_t (m div 1000)"
      "in_range int64_t (m div 1000 * 1000)" "in_range int64_t (us t')"
    using us sum pos assms(2) by (auto simp: range64 max64)
  show ?thesis
    unfolding FromLocalExploded_def FromExploded_def seconds Let_def
    using range assms(5) again us
    by (simp add: split ms_e sum time_units ExplodedMostlyEquals_def t'_def)
qed

text \<open>A calendar that knows January 1970.\<close>

definition january :: "int \<Rightarrow> tm" where
  "january s =
     \<lparr>tm_sec = s mod 60, tm_min = s div 60 mod 60, tm_hour = s div 3600 mod 24, tm_mday = 1 + s div 86400,
      tm_mon = 0, tm_year = 70, tm_wday = (4 + s div 86400) mod 7, tm_yday = s div 86400, tm_isdst = 0\<rparr>"

definition from_january :: "tm \<Rightarrow> int" where
  "from_january d = tm_sec d + 60 * tm_min d + 3600 * tm_hour d + 86400 * (tm_mday d - 1)"

theorem exploded_roundtrip_witness:
  "Option.bind (LocalExplode january january (Time 11644473701234567))
     (FromLocalExploded from_january from_january january january) = Some (True, Time 11644473701234000)"
proof -
  let ?t = "Time 11644473701234567"
  have split: "split_us ?t = (101, 234)" by (simp add: split_us_def)
  obtain e where e: "LocalExplode january january ?t = Some e" "e = exploded_at (january 101) 234"
    using Explode_split [of ?t january january True]
    by (simp add: LocalExplode_def split SysTimeToTimeStruct_def max64)
  have m: "from_january (to_timestruct e) = fst (split_us ?t)"
    by (simp add: e(2) split from_january_def to_timestruct_def exploded_at_def january_def)
  have bounds: "0 \<le> us ?t" "us ?t \<le> it_max int64_t" "fst (split_us ?t) \<noteq> - 1"
    by (simp_all add: split max64)
  show ?thesis
    using exploded_roundtrip [where mktime = from_january and timegm = from_january, OF bounds(1,2) e(1) m bounds(3)] e(1) by simp
qed

text \<open>Durations of more than about 4,000 years are truncated to 32 bits by \<open>InMinutes\<close>.\<close>

lemma minutes_truncated: "InMinutes (TimeDelta (2 ^ 31 * kMicrosecondsPerMinute)) = - (2 ^ 31)"
  by (simp add: InMinutes_def time_units sdiv_nonneg wrap_to_def int_types)

text \<open>Adding and subtracting a duration cancel where neither overflows.\<close>

lemma time_plus_minus:
  assumes "in_range int64_t (us t)" and "in_range int64_t (InMicroseconds d)" and "time_plus t d = Some t'"
  shows "time_minus t' d = Some t \<and> time_diff t' t = Some d"
  using assms by (cases t; cases d) (auto simp: time_plus_def time_minus_def time_diff_def int64_Some)

end
