(* ===== verification/Conn_Pool.thy ===== *)
theory Conn_Pool
  imports Conn_Info Time_Base String_Piece
begin

text \<open>
  \<^verbatim>\<open>db/common/connection_pool.cc\<close>, \<^verbatim>\<open>connection_manager.cc\<close>, \<open>Dispose\<close> of \<^verbatim>\<open>db/backend/db_connection.cc\<close>
  and the connector registry of \<^verbatim>\<open>db/backend/connector_interface.cc\<close>. A connection is its identity; the
  driver's \<open>Connect\<close> is a parameter that gives a new identity or \<open>None\<close> (it throws). \<open>None\<close> as a result
  is an exception, a failed \<open>DCHECK\<close>, signed overflow or undefined behaviour. A pool's reference count is
  one for the manager's map and one for each of its \<open>users\<close>, the connections that are out of the pool
  and hold a reference to it; \<open>deleted\<close> is history.
\<close>

subsection \<open>The connector registry\<close>

text \<open>The list is the map in its iteration order, which the standard leaves open: a new entry goes to any
  position.\<close>

type_synonym factory = "connection_info \<Rightarrow> bool"

definition RegisterFactory :: "nat \<Rightarrow> string \<Rightarrow> factory \<Rightarrow> (string \<times> factory) list \<Rightarrow> (string \<times> factory) list" where
  "RegisterFactory position name accepts fs =
     (if list_ex (\<lambda>x. fst x = name) fs then fs
      else take position fs @ (name, accepts) # drop position fs)"

fun GetFactory :: "connection_info \<Rightarrow> (string \<times> factory) list \<Rightarrow> string option" where
  "GetFactory info [] = None"
| "GetFactory info ((name, accepts) # fs) = (if accepts info then Some name else GetFactory info fs)"

text \<open>A \<open>DCHECK\<close> that there is a factory; then the driver's own factory is called.\<close>

definition NewConnector :: "(string \<times> factory) list \<Rightarrow> connection_info \<Rightarrow> string option" where
  "NewConnector fs info = GetFactory info fs"

definition mysql_AcceptsOptions :: factory where
  "mysql_AcceptsOptions info = (driver info = ''mysql'')"

subsection \<open>The pool\<close>

record pool_entry =
  db_conn :: nat
  last_used :: Time

record conn_pool =
  limit :: nat
  life_time :: TimeDelta
  pool_size :: nat
  entries :: "pool_entry list"
  users :: "nat list"
  deleted :: "nat list"

definition ConnectionPool :: "connection_info \<Rightarrow> conn_pool option" where
  "ConnectionPool info =
     do { n \<leftarrow> Get_int info ''@pool_size'' 16;
          idle \<leftarrow> Get_int info ''@pool_max_idle'' 600;
          life \<leftarrow> FromSeconds idle;
          Some \<lparr>limit = nat (n mod 2 ^ 64), life_time = life, pool_size = 0, entries = [], users = [],
                deleted = []\<rparr> }"

text \<open>The loop over expired entries from the front: the garbage, what stays, and the size.\<close>

fun expire_loop ::
    "TimeDelta \<Rightarrow> Time \<Rightarrow> pool_entry list \<Rightarrow> nat \<Rightarrow> pool_entry list \<Rightarrow>
       (pool_entry list \<times> pool_entry list \<times> nat) option" where
  "expire_loop life now garbage n [] = Some (garbage, [], n)"
| "expire_loop life now garbage n (e # es) =
     do { t \<leftarrow> time_plus (last_used e) life;
          if t < now then expire_loop life now (e # garbage) (size_sub n 1) es
          else Some (garbage, e # es, n) }"

definition drop_expired :: "Time \<Rightarrow> conn_pool \<Rightarrow> conn_pool option" where
  "drop_expired now p =
     map_option (\<lambda>(garbage, es, n). p\<lparr>entries := es, pool_size := n, deleted := deleted p @ map db_conn garbage\<rparr>)
       (expire_loop (life_time p) now [] (pool_size p) (entries p))"

definition pool_get :: "Time \<Rightarrow> conn_pool \<Rightarrow> (nat option \<times> conn_pool) option" where
  "pool_get now p =
     (if limit p = 0 then Some (None, p)
      else do { p \<leftarrow> drop_expired now p;
                if entries p \<noteq> []
                then Some (Some (db_conn (last (entries p))),
                           p\<lparr>entries := butlast (entries p), pool_size := size_sub (pool_size p) 1\<rparr>)
                else Some (None, p) })"

text \<open>\<open>connected\<close> is what the connector's \<open>Connect\<close> gives if it is called.\<close>

definition pool_Open :: "Time \<Rightarrow> nat option \<Rightarrow> conn_pool \<Rightarrow> (nat \<times> conn_pool) option" where
  "pool_Open now connected p =
     (if limit p = 0 then map_option (\<lambda>c. (c, p)) connected
      else do { (r, p) \<leftarrow> pool_get now p;
                c \<leftarrow> (case r of Some c \<Rightarrow> Some c | None \<Rightarrow> connected);
                Some (c, p\<lparr>users := users p @ [c]\<rparr>) })"

definition drop_first :: "conn_pool \<Rightarrow> conn_pool option" where
  "drop_first p =
     (case entries p of [] \<Rightarrow> None
      | e # es \<Rightarrow> Some (p\<lparr>entries := es, pool_size := size_sub (pool_size p) 1,
                         deleted := deleted p @ [db_conn e]\<rparr>))"

definition pool_Put :: "nat option \<Rightarrow> Time \<Rightarrow> conn_pool \<Rightarrow> conn_pool option" where
  "pool_Put connection now p =
     (if limit p = 0
      then Some (case connection of None \<Rightarrow> p | Some c \<Rightarrow> p\<lparr>deleted := deleted p @ [c]\<rparr>)
      else do {
        let p = (case connection of None \<Rightarrow> p
                 | Some c \<Rightarrow> p\<lparr>entries := entries p @ [\<lparr>db_conn = c, last_used = now\<rparr>],
                               pool_size := size_add (pool_size p) 1\<rparr>);
        p \<leftarrow> drop_expired now p;
        if pool_size p > limit p then drop_first p else Some p })"

definition pool_GC :: "Time \<Rightarrow> conn_pool \<Rightarrow> conn_pool option" where
  "pool_GC now p = pool_Put None now p"

definition pool_Clear :: "conn_pool \<Rightarrow> conn_pool" where
  "pool_Clear p = p\<lparr>entries := [], pool_size := 0, deleted := deleted p @ map db_conn (entries p)\<rparr>"

text \<open>\<open>DBConnection::Dispose\<close> of a connection that came from the pool, when its last reference goes.\<close>

definition Dispose_pooled :: "nat \<Rightarrow> bool \<Rightarrow> Time \<Rightarrow> conn_pool \<Rightarrow> conn_pool option" where
  "Dispose_pooled c recyclable now p =
     (let p = p\<lparr>users := remove1 c (users p)\<rparr> in
      if recyclable then pool_Put (Some c) now p else Some (p\<lparr>deleted := deleted p @ [c]\<rparr>))"

definition pool_HasOneRef :: "conn_pool \<Rightarrow> bool" where
  "pool_HasOneRef p = (users p = [])"

subsection \<open>The manager\<close>

text \<open>The map from connection strings to pools, in the order of \<open>std::map\<close>.\<close>

type_synonym conn_manager = "(string \<times> conn_pool) list"

definition insert_pool :: "string \<Rightarrow> conn_pool \<Rightarrow> conn_manager \<Rightarrow> conn_manager" where
  "insert_pool str p m =
     takeWhile (\<lambda>x. piece_less (fst x) str) m @ (str, p) # dropWhile (\<lambda>x. piece_less (fst x) str) m"

definition replace_pool :: "string \<Rightarrow> conn_pool \<Rightarrow> conn_manager \<Rightarrow> conn_manager" where
  "replace_pool str p m = map (\<lambda>x. if fst x = str then (str, p) else x) m"

text \<open>\<open>pool\<close> is assigned only where the entry is new: for an entry that exists it is null when
  \<open>pool->Open ()\<close> is called.\<close>

definition Open_info ::
    "connection_info \<Rightarrow> Time \<Rightarrow> nat option \<Rightarrow> conn_manager \<Rightarrow> (nat \<times> conn_manager) option" where
  "Open_info info now connected m =
     do { n \<leftarrow> Get_int info ''@pool_size'' 0;
          if n = 0 then map_option (\<lambda>c. (c, m)) connected
          else case map_of m (connection_string info) of
                 Some p \<Rightarrow> None
               | None \<Rightarrow> do {
                   p \<leftarrow> ConnectionPool info;
                   (c, p) \<leftarrow> pool_Open now connected p;
                   Some (c, insert_pool (connection_string info) p m) } }"

definition contains :: "string \<Rightarrow> string \<Rightarrow> bool" where
  "contains str s = list_ex (\<lambda>i. occurs_at str s i) [0..<Suc (length str)]"

definition Open_str ::
    "string \<Rightarrow> Time \<Rightarrow> nat option \<Rightarrow> conn_manager \<Rightarrow> (nat \<times> conn_manager) option" where
  "Open_str str now connected m =
     (case (if contains str ''@pool_size'' then map_of m str else None) of
        Some p \<Rightarrow> map_option (\<lambda>(c, p). (c, replace_pool str p m)) (pool_Open now connected p)
      | None \<Rightarrow> do { info \<leftarrow> ConnectionInfo str; Open_info info now connected m })"

fun GC_all :: "Time \<Rightarrow> conn_manager \<Rightarrow> conn_manager option" where
  "GC_all now [] = Some []"
| "GC_all now ((str, p) # m) =
     do { p \<leftarrow> pool_GC now p; m \<leftarrow> GC_all now m; Some ((str, p) # m) }"

text \<open>The second loop increments its iterator twice in a round: every other pool is passed over, and after
  the last of an odd number of pools the end iterator is incremented.\<close>

fun erase_loop :: "conn_manager \<Rightarrow> conn_manager option" where
  "erase_loop [] = Some []"
| "erase_loop [x] = None"
| "erase_loop (x # y # m) =
     map_option (\<lambda>m. (if pool_HasOneRef (snd x) then [] else [x]) @ y # m) (erase_loop m)"

definition manager_GC :: "Time \<Rightarrow> conn_manager \<Rightarrow> conn_manager option" where
  "manager_GC now m = do { m \<leftarrow> GC_all now m; erase_loop m }"

subsection \<open>Lemmas: the pool\<close>

definition expired :: "TimeDelta \<Rightarrow> Time \<Rightarrow> pool_entry \<Rightarrow> bool" where
  "expired life now e \<longleftrightarrow> us (last_used e) + InMicroseconds life < us now"

text \<open>At most \<open>k\<close> entries, oldest first, counted by \<open>size_\<close>; every connection is in one place only; times
  are before the year 148000, so that nothing overflows.\<close>

definition pool_ok :: "nat \<Rightarrow> Time \<Rightarrow> conn_pool \<Rightarrow> bool" where
  "pool_ok k clock p \<longleftrightarrow> pool_size p = length (entries p) \<and> length (entries p) \<le> k \<and> k < size_max \<and>
     sorted (map last_used (entries p)) \<and> (\<forall>e\<in>set (entries p). Time 0 \<le> last_used e \<and> last_used e \<le> clock) \<and>
     clock \<le> Time (2 ^ 62) \<and> \<bar>InMicroseconds (life_time p)\<bar> \<le> 2 ^ 61 \<and>
     distinct (users p @ map db_conn (entries p) @ deleted p)"

lemma expire_loop_eq:
  assumes "\<forall>e\<in>set es. in_range int64_t (us (last_used e) + InMicroseconds life)"
    and "length es \<le> n" and "n < size_max"
  shows "expire_loop life now garbage n es =
    Some (rev (takeWhile (expired life now) es) @ garbage, dropWhile (expired life now) es,
          n - length (takeWhile (expired life now) es))"
  using assms
proof (induction es arbitrary: garbage n)
  case (Cons e es)
  then have "time_plus (last_used e) life = Some (Time (us (last_used e) + InMicroseconds life))"
    by (simp add: time_plus_def)
  moreover have "size_sub n 1 = n - 1" using Cons.prems by (simp add: size_sub_exact)
  ultimately show ?case
    using Cons by (auto simp: expired_def less_Time_def)
qed simp

lemma no_overflow:
  assumes "pool_ok k clock p" and "e \<in> set (entries p)"
  shows "in_range int64_t (us (last_used e) + InMicroseconds (life_time p))"
proof -
  have "0 \<le> us (last_used e)" "us (last_used e) \<le> 2 ^ 62" "\<bar>InMicroseconds (life_time p)\<bar> \<le> 2 ^ 61"
    using assms by (auto simp: pool_ok_def less_eq_Time_def)
  then show ?thesis by (auto simp: range64 abs_le_iff)
qed

lemma sorted_dropWhile_expired:
  assumes "sorted (map last_used es)" and "e \<in> set (dropWhile (expired life now) es)"
  shows "\<not> expired life now e"
  using assms
proof (induction es)
  case (Cons x es)
  show ?case
  proof (cases "expired life now x")
    case False
    with Cons.prems have "last_used x \<le> last_used e" by auto
    with False show ?thesis by (simp add: expired_def less_eq_Time_def)
  qed (use Cons in auto)
qed simp

definition known :: "conn_pool \<Rightarrow> nat set" where
  "known p = set (users p @ map db_conn (entries p) @ deleted p)"

lemma drop_expired_ok:
  assumes "pool_ok k clock p"
  shows "\<exists>p'. drop_expired now p = Some p' \<and> pool_ok k clock p' \<and>
    entries p' = dropWhile (expired (life_time p) now) (entries p) \<and>
    (\<forall>e\<in>set (entries p'). \<not> expired (life_time p) now e) \<and>
    users p' = users p \<and> limit p' = limit p \<and> life_time p' = life_time p \<and> known p' = known p"
proof -
  let ?X = "expired (life_time p) now"
  define gone stay where "gone = takeWhile ?X (entries p)" and "stay = dropWhile ?X (entries p)"
  have split: "entries p = gone @ stay" by (simp add: gone_def stay_def)
  have n: "length (entries p) \<le> pool_size p" "pool_size p < size_max"
    using assms by (auto simp: pool_ok_def)
  define p' where "p' = p\<lparr>entries := stay, pool_size := pool_size p - length gone,
      deleted := deleted p @ map db_conn (rev gone)\<rparr>"
  have "drop_expired now p = Some p'"
    using expire_loop_eq [OF ballI [OF no_overflow [OF assms]] n, of now "[]"]
    by (simp add: drop_expired_def p'_def gone_def stay_def)
  moreover have "pool_ok k clock p'"
    using assms unfolding pool_ok_def split by (auto simp: p'_def sorted_append simp flip: rev_map)
  moreover have "\<forall>e\<in>set stay. \<not> ?X e"
    using assms sorted_dropWhile_expired by (auto simp: pool_ok_def stay_def)
  moreover have "known p' = known p" unfolding known_def split by (auto simp: p'_def)
  ultimately show ?thesis by (simp add: p'_def stay_def)
qed

lemma pool_get_ok:
  assumes "pool_ok (limit p) clock p"
  shows "\<exists>r p'. pool_get now p = Some (r, p') \<and> users p' = users p \<and> limit p' = limit p \<and>
    life_time p' = life_time p \<and> pool_ok (limit p) clock (p'\<lparr>users := users p @ (case r of None \<Rightarrow> [] | Some c \<Rightarrow> [c])\<rparr>) \<and>
    (\<forall>e\<in>set (entries p'). \<not> expired (life_time p) now e) \<and>
    r = (if entries p \<noteq> [] \<and> \<not> expired (life_time p) now (last (entries p))
         then Some (db_conn (last (entries p))) else None) \<and> known p' \<subseteq> known p"
proof (cases "limit p = 0")
  case True
  with assms have "entries p = []" by (auto simp: pool_ok_def)
  with True assms show ?thesis by (auto simp: pool_get_def)
next
  case False
  obtain q where q: "drop_expired now p = Some q" "pool_ok (limit p) clock q"
      "entries q = dropWhile (expired (life_time p) now) (entries p)"
      "\<forall>e\<in>set (entries q). \<not> expired (life_time p) now e"
      "users q = users p" "limit q = limit p" "life_time q = life_time p" "known q = known p"
    using drop_expired_ok [OF assms] by blast
  show ?thesis
  proof (cases "entries q" rule: rev_cases)
    case Nil
    then have "entries p = [] \<or> expired (life_time p) now (last (entries p))"
      using q(3) by (metis dropWhile_eq_Nil_conv last_in_set)
    moreover have "pool_ok (limit p) clock (q\<lparr>users := users p\<rparr>)" using q(2,5) by (simp add: pool_ok_def)
    ultimately show ?thesis using Nil False q by (auto simp: pool_get_def)
  next
    case (snoc es e)
    then have last: "entries p \<noteq> []" "last (entries p) = e"
      using q(3) by (metis append_is_Nil_conv not_Cons_self2 takeWhile_dropWhile_id)
         (metis q(3) snoc append_assoc last_snoc takeWhile_dropWhile_id)
    have "size_sub (Suc (length es)) 1 = length es"
      using q(2) snoc by (subst size_sub_exact) (auto simp: pool_ok_def)
    then have "pool_ok (limit p) clock (q\<lparr>entries := es, pool_size := size_sub (pool_size q) 1,
        users := users p @ [db_conn e]\<rparr>)"
      using q(2,5) snoc by (auto simp: pool_ok_def sorted_append)
    moreover have "known (q\<lparr>entries := es, pool_size := size_sub (pool_size q) 1\<rparr>) \<subseteq> known p"
      unfolding q(8) [symmetric] by (auto simp: known_def snoc)
    ultimately show ?thesis using snoc False q last by (auto simp: pool_get_def)
  qed
qed

lemma pool_ok_clock: "pool_ok k clock p \<Longrightarrow> clock \<le> now \<Longrightarrow> now \<le> Time (2 ^ 62) \<Longrightarrow> pool_ok k now p"
  by (fastforce simp: pool_ok_def)

lemma drop_first_ok:
  assumes "pool_ok (Suc k) clock p" and "k < length (entries p)"
  shows "\<exists>p'. drop_first p = Some p' \<and> pool_ok k clock p' \<and> limit p' = limit p \<and> users p' = users p"
proof -
  obtain e es where es: "entries p = e # es" using assms(2) by (cases "entries p") auto
  then have "size_sub (pool_size p) 1 = length es"
    using assms(1) by (subst size_sub_exact) (auto simp: pool_ok_def)
  then show ?thesis using assms es by (auto simp: drop_first_def pool_ok_def)
qed

lemma pool_Put_ok:
  assumes "pool_ok (limit p) clock p" and "Time 0 \<le> clock" and "limit p < npos"
    and "distinct (users p @ map db_conn (entries p) @ deleted p @ (case c of None \<Rightarrow> [] | Some c \<Rightarrow> [c]))"
  shows "\<exists>p'. pool_Put c clock p = Some p' \<and> pool_ok (limit p) clock p' \<and> limit p' = limit p \<and> users p' = users p"
proof (cases "limit p = 0")
  case True
  with assms show ?thesis by (auto simp: pool_Put_def pool_ok_def split: option.splits)
next
  case False
  define q where "q = (case c of None \<Rightarrow> p
      | Some c \<Rightarrow> p\<lparr>entries := entries p @ [\<lparr>db_conn = c, last_used = clock\<rparr>],
                      pool_size := size_add (pool_size p) 1\<rparr>)"
  have "Suc (limit p) < size_max" using assms(3) by (simp add: npos_def)
  moreover from this have "size_add (length (entries p)) 1 = Suc (length (entries p))"
    using assms(1) by (subst size_add_exact) (auto simp: pool_ok_def)
  ultimately have q: "pool_ok (Suc (limit p)) clock q" "limit q = limit p" "users q = users p"
    using assms by (auto simp: q_def pool_ok_def sorted_append split: option.splits)
  obtain r where r: "drop_expired clock q = Some r" "pool_ok (Suc (limit p)) clock r" "limit r = limit p"
      "users r = users p"
    using drop_expired_ok [OF q(1), of clock] q(2,3) by auto
  show ?thesis
  proof (cases "pool_size r > limit r")
    case True
    then have "limit p < length (entries r)" using r(2,3) by (simp add: pool_ok_def)
    from drop_first_ok [OF r(2) this] show ?thesis
      using True False r by (auto simp: pool_Put_def q_def [symmetric] Let_def)
  next
    case big: False
    then have "pool_ok (limit p) clock r" using r(2,3) by (auto simp: pool_ok_def)
    then show ?thesis
      using big False r by (auto simp: pool_Put_def q_def [symmetric] Let_def)
  qed
qed

subsection \<open>Runs of the pool\<close>

text \<open>The clock does not go back and a connection that the driver makes is new.\<close>

datatype pool_action = DoOpen Time nat | DoRelease nat bool Time | DoCollect Time | DoClear

fun pool_step :: "pool_action \<Rightarrow> Time \<times> conn_pool \<Rightarrow> (Time \<times> conn_pool) option" where
  "pool_step (DoOpen now c) (clock, p) = map_option (\<lambda>(_, p). (now, p)) (pool_Open now (Some c) p)"
| "pool_step (DoRelease c recyclable now) (clock, p) = map_option (Pair now) (Dispose_pooled c recyclable now p)"
| "pool_step (DoCollect now) (clock, p) = map_option (Pair now) (pool_GC now p)"
| "pool_step DoClear (clock, p) = Some (clock, pool_Clear p)"

fun action_ok :: "Time \<times> conn_pool \<Rightarrow> pool_action \<Rightarrow> bool" where
  "action_ok (clock, p) (DoOpen now c) =
     (clock \<le> now \<and> now \<le> Time (2 ^ 62) \<and> c \<notin> set (users p @ map db_conn (entries p) @ deleted p))"
| "action_ok (clock, p) (DoRelease c recyclable now) = (clock \<le> now \<and> now \<le> Time (2 ^ 62) \<and> c \<in> set (users p))"
| "action_ok (clock, p) (DoCollect now) = (clock \<le> now \<and> now \<le> Time (2 ^ 62))"
| "action_ok (clock, p) DoClear = True"

inductive pool_reachable :: "connection_info \<Rightarrow> Time \<times> conn_pool \<Rightarrow> bool" for info where
  start: "ConnectionPool info = Some p \<Longrightarrow> limit p < npos \<Longrightarrow> pool_reachable info (Time 0, p)"
| step: "pool_reachable info w \<Longrightarrow> action_ok w a \<Longrightarrow> pool_step a w = Some w' \<Longrightarrow> pool_reachable info w'"

definition world_ok :: "nat \<Rightarrow> Time \<times> conn_pool \<Rightarrow> bool" where
  "world_ok k w \<longleftrightarrow> (case w of (clock, p) \<Rightarrow> limit p = k \<and> k < npos \<and> Time 0 \<le> clock \<and> pool_ok k clock p)"

lemma open_ok:
  assumes "world_ok k (clock, p)" and "action_ok (clock, p) (DoOpen now c)"
  shows "\<exists>r p'. pool_Open now (Some c) p = Some (r, p') \<and> world_ok k (now, p') \<and>
    (\<forall>e\<in>set (entries p'). \<not> expired (life_time p) now e) \<and>
    r = (if limit p \<noteq> 0 \<and> entries p \<noteq> [] \<and> \<not> expired (life_time p) now (last (entries p))
         then db_conn (last (entries p)) else c)"
proof -
  have ok: "pool_ok (limit p) now p" "limit p = k" "k < npos" "Time 0 \<le> now"
    using assms pool_ok_clock by (auto simp: world_ok_def)
  have fresh: "c \<notin> set (users p @ map db_conn (entries p) @ deleted p)" using assms(2) by simp
  show ?thesis
  proof (cases "limit p = 0")
    case True
    then have "entries p = []" using ok(1) by (simp add: pool_ok_def)
    with True ok show ?thesis by (auto simp: pool_Open_def world_ok_def)
  next
    case False
    obtain r p' where g: "pool_get now p = Some (r, p')" "users p' = users p" "limit p' = limit p"
        "life_time p' = life_time p"
        "pool_ok (limit p) now (p'\<lparr>users := users p @ (case r of None \<Rightarrow> [] | Some c \<Rightarrow> [c])\<rparr>)"
        "\<forall>e\<in>set (entries p'). \<not> expired (life_time p) now e"
        "r = (if entries p \<noteq> [] \<and> \<not> expired (life_time p) now (last (entries p))
              then Some (db_conn (last (entries p))) else None)" "known p' \<subseteq> known p"
      using pool_get_ok [OF ok(1), of now] by blast
    show ?thesis
    proof (cases r)
      case (Some d)
      then show ?thesis using g ok False by (auto simp: pool_Open_def world_ok_def split: if_splits)
    next
      case None
      then have "pool_ok (limit p) now p'" using g(2,5) by (simp add: pool_ok_def)
      moreover have "c \<notin> known p'" using g(8) fresh by (auto simp: known_def)
      ultimately have "pool_ok (limit p) now (p'\<lparr>users := users p' @ [c]\<rparr>)"
        by (auto simp: pool_ok_def known_def)
      then show ?thesis using g ok False None by (auto simp: pool_Open_def world_ok_def split: if_splits)
    qed
  qed
qed

lemma release_ok:
  assumes "world_ok k (clock, p)" and "action_ok (clock, p) (DoRelease c recyclable now)"
  shows "\<exists>p'. Dispose_pooled c recyclable now p = Some p' \<and> world_ok k (now, p')"
proof -
  define q where "q = p\<lparr>users := remove1 c (users p)\<rparr>"
  have ok: "pool_ok (limit p) now p" "limit p = k" "k < npos" "Time 0 \<le> now" "c \<in> set (users p)"
    using assms pool_ok_clock by (auto simp: world_ok_def)
  have dist: "distinct (users p @ map db_conn (entries p) @ deleted p)" using ok(1) by (simp add: pool_ok_def)
  obtain a b where us: "users p = a @ c # b" using ok(5) by (meson split_list)
  then have "c \<notin> set a" using dist by auto
  then have rest: "distinct (users q @ map db_conn (entries q) @ deleted q @ [c])"
    using dist by (auto simp: q_def us remove1_append)
  then have q: "pool_ok (limit q) now q" "limit q = k" using ok by (auto simp: pool_ok_def q_def)
  show ?thesis
  proof (cases recyclable)
    case True
    with pool_Put_ok [OF q(1) ok(4), of "Some c"] rest q(2) ok(3,4) show ?thesis
      by (auto simp: Dispose_pooled_def q_def [symmetric] world_ok_def Let_def)
  next
    case False
    have "pool_ok k now (q\<lparr>deleted := deleted q @ [c]\<rparr>)" using q rest by (auto simp: pool_ok_def)
    with False ok(3,4) q(2) show ?thesis
      by (auto simp: Dispose_pooled_def q_def [symmetric] world_ok_def Let_def)
  qed
qed

lemma step_ok:
  assumes "world_ok k w" and "action_ok w a"
  shows "\<exists>w'. pool_step a w = Some w' \<and> world_ok k w'"
proof -
  obtain clock p where w: "w = (clock, p)" by fastforce
  show ?thesis
  proof (cases a)
    case (DoOpen now c)
    with open_ok [of k clock p now c] assms w show ?thesis by auto
  next
    case (DoRelease c r now)
    with release_ok [of k clock p c r now] assms w show ?thesis by auto
  next
    case (DoCollect now)
    with assms w have "pool_ok (limit p) now p" "limit p = k" "k < npos" "Time 0 \<le> now"
      using pool_ok_clock by (auto simp: world_ok_def)
    with pool_Put_ok [of p now None] DoCollect w show ?thesis
      by (auto simp: pool_GC_def world_ok_def pool_ok_def)
  next
    case DoClear
    with assms w show ?thesis by (auto simp: world_ok_def pool_ok_def pool_Clear_def)
  qed
qed

lemma Get_int_range: "Get_int info key d = Some n \<Longrightarrow> in_range int32_t d \<Longrightarrow> in_range int32_t n"
  by (auto simp: Get_int_def istream_int_def in_range_def int_types Let_def split: option.splits if_splits prod.splits)

lemma new_pool_ok:
  assumes "ConnectionPool info = Some p" and "limit p < npos"
  shows "world_ok (limit p) (Time 0, p)"
proof -
  obtain n idle where n: "Get_int info ''@pool_max_idle'' 600 = Some idle"
      "FromSeconds idle = Some (life_time p)" "entries p = []" "users p = []" "deleted p = []" "pool_size p = 0"
    using assms(1) by (auto simp: ConnectionPool_def bind_eq_Some_conv)
  then have "in_range int32_t idle" using Get_int_range [OF n(1)] by (simp add: in_range_def int_types)
  then have "\<bar>InMicroseconds (life_time p)\<bar> \<le> 2 ^ 61"
    using n(2) by (cases "life_time p")
      (auto simp: FromSeconds_def in_range_def int_types time_units int64_Some abs_le_iff)
  then show ?thesis
    using n assms(2) by (simp add: world_ok_def pool_ok_def npos_def less_eq_Time_def)
qed

lemma pool_reachable_ok: "pool_reachable info w \<Longrightarrow> world_ok (limit (snd w)) w"
proof (induction rule: pool_reachable.induct)
  case (start p)
  then show ?case using new_pool_ok by simp
next
  case (step w a w')
  obtain w'' where "pool_step a w = Some w''" "world_ok (limit (snd w)) w''"
    using step_ok [OF step.IH step.hyps(2)] by blast
  with step.hyps(3) have "world_ok (limit (snd w)) w'" by simp
  moreover from this have "limit (snd w) = limit (snd w')" by (auto simp: world_ok_def)
  ultimately show ?case by simp
qed

subsection \<open>Properties\<close>


definition pool_info :: connection_info where
  "pool_info = \<lparr>properties = [''@pool_size'' \<mapsto> ''1''], connection_string = ''mysql:@pool_size=1'',
     driver = ''mysql''\<rparr>"

definition pool_of_one :: conn_pool where
  "pool_of_one = \<lparr>limit = 1, life_time = TimeDelta 600000000, pool_size = 0, entries = [], users = [],
     deleted = []\<rparr>"

lemma pool_of_one: "ConnectionPool pool_info = Some pool_of_one"
proof -
  have "dec_digits 1 = ''1''" by code_simp
  then have "istream_int ''1'' = Some 1"
    using istream_int_show [of 1] by (simp add: show_int_def clamp_def int_types)
  then show ?thesis
    by (simp add: ConnectionPool_def pool_info_def Get_int_def FromSeconds_def pool_of_one_def time_units range64)
qed

lemma pool_of_one_reachable: "pool_reachable pool_info (Time 0, pool_of_one)"
  using pool_reachable.start [OF pool_of_one] by (simp add: pool_of_one_def npos_def size_max_def)

text \<open>Two connections are opened and released: the second release drops the older one.\<close>

definition pool_after :: conn_pool where
  "pool_after = pool_of_one\<lparr>pool_size := 1, entries := [\<lparr>db_conn = 8, last_used = Time 40\<rparr>], deleted := [7]\<rparr>"

lemma pool_after_reachable: "pool_reachable pool_info (Time 40, pool_after)"
proof -
  note defs = pool_of_one_def pool_after_def pool_Open_def pool_get_def drop_expired_def Dispose_pooled_def
    pool_Put_def drop_first_def time_plus_def less_Time_def less_eq_Time_def range64 size_add_def size_sub_def
    size_max_def Let_def
  define p1 p2 p3 where "p1 = pool_of_one\<lparr>users := [7]\<rparr>" and "p2 = pool_of_one\<lparr>users := [7, 8]\<rparr>"
    and "p3 = pool_of_one\<lparr>users := [8], entries := [\<lparr>db_conn = 7, last_used = Time 30\<rparr>], pool_size := 1\<rparr>"
  note ps = p1_def p2_def p3_def
  have steps: "pool_step (DoOpen (Time 10) 7) (Time 0, pool_of_one) = Some (Time 10, p1)"
      "pool_step (DoOpen (Time 20) 8) (Time 10, p1) = Some (Time 20, p2)"
      "pool_step (DoRelease 7 True (Time 30)) (Time 20, p2) = Some (Time 30, p3)"
      "pool_step (DoRelease 8 True (Time 40)) (Time 30, p3) = Some (Time 40, pool_after)"
    by (simp_all add: ps defs)
  have acts: "action_ok (Time 0, pool_of_one) (DoOpen (Time 10) 7)" "action_ok (Time 10, p1) (DoOpen (Time 20) 8)"
      "action_ok (Time 20, p2) (DoRelease 7 True (Time 30))" "action_ok (Time 30, p3) (DoRelease 8 True (Time 40))"
    by (simp_all add: ps pool_of_one_def less_eq_Time_def)
  note r1 = pool_reachable.step [OF pool_of_one_reachable acts(1) steps(1)]
  note r2 = pool_reachable.step [OF r1 acts(2) steps(2)]
  note r3 = pool_reachable.step [OF r2 acts(3) steps(3)]
  show ?thesis by (rule pool_reachable.step [OF r3 acts(4) steps(4)])
qed


text \<open>Opening gives the connection used last if it is still within the maximal idle time, else one that
  the driver makes; no idle connection beyond that time stays in the pool.\<close>

theorem pool_open_result:
  assumes "pool_reachable info (clock, p)" and "action_ok (clock, p) (DoOpen now c)"
  shows "\<exists>p'. pool_Open now (Some c) p =
      Some (if limit p \<noteq> 0 \<and> entries p \<noteq> [] \<and> \<not> expired (life_time p) now (last (entries p))
            then db_conn (last (entries p)) else c, p') \<and>
    (\<forall>e\<in>set (entries p'). \<not> expired (life_time p) now e)"
  using open_ok [of "limit p" clock p now c] pool_reachable_ok [OF assms(1)] assms(2) by auto

theorem pool_open_result_witness:
  "\<exists>p'. pool_Open (Time 50) (Some 9) pool_after = Some (8, p') \<and>
     (\<forall>e\<in>set (entries p'). \<not> expired (TimeDelta 600000000) (Time 50) e)"
  using pool_open_result [OF pool_after_reachable, of "Time 50" 9]
  by (simp add: pool_after_def pool_of_one_def less_eq_Time_def expired_def)

lemma erase_loop_odd: "odd (length m) \<Longrightarrow> erase_loop m = None"
  by (induction m rule: erase_loop.induct) auto

lemma erase_loop_keeps: "erase_loop m = Some m' \<Longrightarrow> i < length m \<Longrightarrow> odd i \<Longrightarrow> m ! i \<in> set m'"
proof (induction m arbitrary: i m' rule: erase_loop.induct)
  case (3 x y m)
  then obtain r where r: "erase_loop m = Some r" "m' = (if pool_HasOneRef (snd x) then [] else [x]) @ y # r"
    by auto
  show ?case
  proof (cases "i = 1")
    case False
    then obtain j where "i = Suc (Suc j)" using 3(4) by (cases i; cases "i - 1") auto
    with 3 r show ?thesis by auto
  qed (use r in auto)
qed auto

lemma length_GC_all: "GC_all now m = Some m' \<Longrightarrow> length m' = length m"
  by (induction m arbitrary: m') (auto simp: bind_eq_Some_conv)

lemma map_of_insert_pool: "map_of m str = None \<Longrightarrow> map_of (insert_pool str p m) str = Some p"
  using map_of_append [of "takeWhile (\<lambda>x. piece_less (fst x) str) m" "dropWhile (\<lambda>x. piece_less (fst x) str) m"]
  by (auto simp: insert_pool_def map_add_def split: option.splits)

text \<open>Two ways of using the connection manager are undefined: opening the same pooled connection string
  twice through a \<open>ConnectionInfo\<close> (the second call goes through a null pool), and collecting when the
  number of pools is odd; with an even number only every other pool is looked at.\<close>

theorem manager_undefined_uses:
  assumes "Get_int info ''@pool_size'' 0 \<noteq> Some 0"
  shows "(case Open_info info now connected m of None \<Rightarrow> True
      | Some (c, m') \<Rightarrow> Open_info info now' connected' m' = None) \<and>
    (odd (length m) \<longrightarrow> manager_GC now m = None) \<and>
    (\<forall>m' i. GC_all now m = Some m \<longrightarrow> manager_GC now m = Some m' \<longrightarrow> i < length m \<longrightarrow> odd i \<longrightarrow> m ! i \<in> set m')"
proof (intro conjI allI impI)
  have "Open_info info now' connected' m' = None" if opened: "Open_info info now connected m = Some (c, m')" for c m'
  proof -
    obtain n where n: "Get_int info ''@pool_size'' 0 = Some n" "n \<noteq> 0"
      using opened assms by (auto simp: Open_info_def bind_eq_Some_conv)
    have "\<exists>p. map_of m' (connection_string info) = Some p"
      using opened n map_of_insert_pool
      by (auto simp: Open_info_def bind_eq_Some_conv split: option.splits)
    with n show ?thesis by (auto simp: Open_info_def)
  qed
  then show "case Open_info info now connected m of None \<Rightarrow> True
      | Some (c, m') \<Rightarrow> Open_info info now' connected' m' = None"
    by (auto split: option.splits)
next
  assume odd: "odd (length m)"
  show "manager_GC now m = None"
  proof (cases "GC_all now m")
    case (Some m1)
    then show ?thesis using odd length_GC_all [OF Some] by (simp add: manager_GC_def erase_loop_odd)
  qed (simp add: manager_GC_def)
qed (auto simp: manager_GC_def erase_loop_keeps)

theorem manager_undefined_uses_witness:
  "\<exists>m. Open_info pool_info (Time 10) (Some 7) [] = Some (7, m) \<and> length m = 1 \<and>
     Open_info pool_info (Time 20) (Some 8) m = None \<and> manager_GC (Time 20) m = None"
proof -
  have "dec_digits 1 = ''1''" by code_simp
  then have "istream_int ''1'' = Some 1"
    using istream_int_show [of 1] by (simp add: show_int_def clamp_def int_types)
  then have size: "Get_int pool_info ''@pool_size'' 0 = Some 1" by (simp add: Get_int_def pool_info_def)
  obtain m where m: "Open_info pool_info (Time 10) (Some 7) [] = Some (7, m)" "length m = 1"
    using pool_of_one
    by (simp add: Open_info_def size pool_Open_def pool_get_def drop_expired_def pool_of_one_def insert_pool_def)
  have "Get_int pool_info ''@pool_size'' 0 \<noteq> Some 0" using size by simp
  note uses = manager_undefined_uses [OF this]
  from uses [where now = "Time 10" and connected = "Some 7" and m = "[]" and now' = "Time 20" and connected' = "Some 8"]
    uses [where now = "Time 20" and m = m] m
  show ?thesis by simp
qed

end
