(* ===== verification/File_Path.thy ===== *)
theory File_Path
  imports Ascii_Ctype String_Util "HOL-Library.Sublist"
begin

text \<open>
  \<^verbatim>\<open>base/file_path.h\<close> and \<^verbatim>\<open>base/file_path.cc\<close>: paths as strings. On this platform there are no drive
  letters (\<open>FindDriveLetter\<close> answers \<open>npos\<close>), and the code's arithmetic on that answer wraps around to 0,
  1 and 2. \<open>None\<close> is a failed \<open>DCHECK\<close>.
\<close>

subsection \<open>Characters and the standard string's searches\<close>

definition kSeparators :: string where "kSeparators = ''/''"

definition kCurrentDirectory :: string where "kCurrentDirectory = ''.''"

definition kParentDirectory :: string where "kParentDirectory = ''..''"

definition kExtensionSeparator :: char where "kExtensionSeparator = CHR ''.''"

definition kStringTerminator :: char where "kStringTerminator = CHR 0x00"

definition kCommonDoubleExtensions :: "string list" where
  "kCommonDoubleExtensions = [''gz'', ''z'', ''bz2'']"

definition IsSeparator :: "char \<Rightarrow> bool" where
  "IsSeparator c = list_ex (\<lambda>d. c = d) kSeparators"

text \<open>\<open>rfind\<close> of a character and \<open>find_last_of\<close> a set: the last index up to \<open>pos\<close>.\<close>

definition last_where :: "(char \<Rightarrow> bool) \<Rightarrow> string \<Rightarrow> nat \<Rightarrow> nat" where
  "last_where P s pos = (if s = [] then npos else scan_down P s (min pos (length s - 1)))"

type_synonym file_path = string

definition FilePath :: "string \<Rightarrow> file_path" where
  "FilePath path = takeWhile (\<lambda>c. c \<noteq> kStringTerminator) path"

definition FindDriveLetter :: "string \<Rightarrow> nat" where
  "FindDriveLetter path = npos"

definition IsPathAbsolute :: "string \<Rightarrow> bool" where
  "IsPathAbsolute path = (length path > 0 \<and> IsSeparator (path ! 0))"

definition AreAllSeparators :: "string \<Rightarrow> bool" where
  "AreAllSeparators input = list_all IsSeparator input"

subsection \<open>Directory and base name\<close>

text \<open>The loop from \<open>pos\<close> down.\<close>

fun strip_loop :: "nat \<Rightarrow> nat \<Rightarrow> nat \<Rightarrow> string \<Rightarrow> string" where
  "strip_loop start last_stripped 0 path = path"
| "strip_loop start last_stripped (Suc n) path =
     (if Suc n > start \<and> IsSeparator (path ! n)
      then (if Suc n \<noteq> start + 1 \<or> last_stripped = start + 2 \<or> \<not> IsSeparator (path ! (start - 1))
            then strip_loop start (Suc n) n (take n path)
            else strip_loop start last_stripped n path)
      else path)"

definition StripTrailingSeparatorsInternal :: "file_path \<Rightarrow> file_path" where
  "StripTrailingSeparatorsInternal path =
     strip_loop (size_add (FindDriveLetter path) 2) npos (length path) path"

definition StripTrailingSeparators :: "file_path \<Rightarrow> file_path" where
  "StripTrailingSeparators path = StripTrailingSeparatorsInternal (FilePath path)"

text \<open>\<open>resize\<close> never grows the path here.\<close>

definition DirName :: "file_path \<Rightarrow> file_path" where
  "DirName path =
     (let new_path = StripTrailingSeparatorsInternal (FilePath path);
          letter = FindDriveLetter new_path;
          last_separator = last_where IsSeparator new_path npos;
          new_path =
            (if last_separator = npos then take (size_add letter 1) new_path
             else if last_separator = size_add letter 1 then take (size_add letter 2) new_path
             else if last_separator = size_add letter 2 \<and> IsSeparator (new_path ! size_add letter 1)
             then take (size_add letter 3) new_path
             else if last_separator \<noteq> 0 then take last_separator new_path
             else new_path);
          new_path = StripTrailingSeparatorsInternal new_path
      in if length new_path = 0 then kCurrentDirectory else new_path)"

definition BaseName :: "file_path \<Rightarrow> file_path" where
  "BaseName path =
     (let new_path = StripTrailingSeparatorsInternal (FilePath path);
          letter = FindDriveLetter new_path;
          new_path = (if letter \<noteq> npos then drop (letter + 1) new_path else new_path);
          last_separator = last_where IsSeparator new_path npos
      in if last_separator \<noteq> npos \<and> last_separator < size_sub (length new_path) 1
         then drop (last_separator + 1) new_path else new_path)"

subsection \<open>Lemmas: stripping\<close>

lemma IsSeparator_iff [simp]: "IsSeparator c \<longleftrightarrow> c = CHR ''/''"
  by (simp add: IsSeparator_def kSeparators_def)

lemma strip_loop_length: "length (strip_loop start l n path) \<le> length path"
  by (induction start l n path rule: strip_loop.induct) (auto intro: order_trans)

lemma last_where_none:
  assumes "\<forall>c\<in>set s. \<not> P c"
  shows "last_where P s pos = npos"
proof (cases "s = []")
  case False
  define i where "i = min pos (length s - 1)"
  have "i < length s" using False by (cases s) (auto simp: i_def)
  then have "\<not> P (s ! j)" if "j \<le> i" for j using assms that by (meson le_less_trans nth_mem)
  with scan_down_cases [of P s i] have "scan_down P s i = npos" by blast
  with False show ?thesis by (simp add: last_where_def i_def)
qed (simp add: last_where_def)

lemma last_where_split:
  assumes "P c" and "\<forall>d\<in>set b. \<not> P d" and "length (a @ c # b) < npos"
  shows "last_where P (a @ c # b) npos = length a"
proof -
  let ?s = "a @ c # b"
  define n where "n = last_where P ?s npos"
  have pos: "min npos (length ?s - 1) = length a + length b" using assms(3) by simp
  have def: "n = scan_down P ?s (length a + length b)" by (simp add: n_def last_where_def pos [simplified])
  have after: "\<not> P (?s ! j)" if "length a < j" "j \<le> length a + length b" for j
    using that assms(2) by (auto simp: nth_append nth_Cons split: nat.splits)
  have "n = length a"
    using scan_down_cases [of P ?s "length a + length b"] unfolding def [symmetric]
  proof (elim disjE conjE)
    assume "\<forall>j\<le>length a + length b. \<not> P (?s ! j)"
    then have "\<not> P (?s ! length a)" using le_add1 by blast
    with assms(1) show "n = length a" by simp
  next
    assume n: "n \<le> length a + length b" "P (?s ! n)"
      and later: "\<forall>j. n < j \<longrightarrow> j \<le> length a + length b \<longrightarrow> \<not> P (?s ! j)"
    have "\<not> length a < n" using after n by blast
    moreover have "\<not> n < length a" using later assms(1) by auto
    ultimately show "n = length a" by simp
  qed
  then show ?thesis by (simp add: n_def)
qed

text \<open>What stripping does: it removes the separators at the end, except that a path of nothing but
  separators keeps one, or two if it had two.\<close>

definition strip_spec :: "string \<Rightarrow> string" where
  "strip_spec s =
     (let t = rev (dropWhile IsSeparator (rev s)) in
      if t \<noteq> [] then t else if length s = 2 then ''//'' else take 1 s)"

lemma strip_loop_body:
  assumes "t \<noteq> []" and "last t \<noteq> CHR ''/''"
  shows "strip_loop (Suc 0) l (length t + k) (t @ replicate k (CHR ''/'')) = t"
  using assms
proof (induction k arbitrary: l)
  case 0
  then obtain n where n: "length t = Suc n" by (cases t) auto
  moreover from this have "t ! n = last t" using 0(1) by (simp add: last_conv_nth)
  ultimately show ?case using 0 by simp
next
  case (Suc k)
  have shorter: "take (length t + k) (t @ replicate (Suc k) (CHR ''/'')) = t @ replicate k (CHR ''/'')"
    by (simp add: replicate_append_same [symmetric] del: replicate_Suc)
  have "(t @ replicate (Suc k) (CHR ''/'')) ! (length t + k) = CHR ''/''"
    by (simp add: nth_append del: replicate_Suc)
  moreover have "Suc (length t + k) = 2 \<Longrightarrow> (t @ replicate (Suc k) (CHR ''/'')) ! 0 \<noteq> CHR ''/''"
    using Suc.prems by (cases t) auto
  moreover have "0 < length t" using Suc.prems by simp
  ultimately show ?case using Suc.IH [OF Suc.prems] shorter by (simp del: replicate_Suc)
qed

lemma strip_loop_all:
  "strip_loop (Suc 0) l k (replicate k (CHR ''/'')) =
     (if k = 2 \<and> l \<noteq> 3 then ''//'' else take 1 (replicate k (CHR ''/'')))"
proof (induction k arbitrary: l)
  case (Suc k)
  have shorter: "take k (replicate (Suc k) (CHR ''/'')) = replicate k (CHR ''/'')"
    by (simp del: replicate_Suc)
  have "replicate (Suc k) (CHR ''/'') ! k = CHR ''/''" by (simp del: replicate_Suc)
  then show ?case
    using Suc.IH [of "Suc k"] Suc.IH [of l] shorter
    by (cases k; cases "k - 1") (auto simp: numeral_2_eq_2 numeral_3_eq_3)
qed simp

lemma seps_at_end: "\<exists>t k. s = t @ replicate k (CHR ''/'') \<and> (t = [] \<or> last t \<noteq> CHR ''/'') \<and>
    rev (dropWhile IsSeparator (rev s)) = t"
proof -
  let ?t = "rev (dropWhile IsSeparator (rev s))" and ?u = "rev (takeWhile IsSeparator (rev s))"
  have "\<forall>c\<in>set ?u. c = CHR ''/''" by (auto dest: set_takeWhileD)
  then have u: "?u = replicate (length ?u) (CHR ''/'')" by (metis replicate_length_same)
  have "s = ?t @ ?u" by (metis rev_append rev_rev_ident takeWhile_dropWhile_id)
  moreover have "?t = [] \<or> last ?t \<noteq> CHR ''/''"
    using hd_dropWhile [of IsSeparator "rev s"] by (auto simp: last_rev)
  ultimately show ?thesis using u by metis
qed

lemma StripTrailingSeparatorsInternal_eq: "StripTrailingSeparatorsInternal s = strip_spec s"
proof -
  obtain t k where s: "s = t @ replicate k (CHR ''/'')" "t = [] \<or> last t \<noteq> CHR ''/''"
      "rev (dropWhile IsSeparator (rev s)) = t"
    using seps_at_end by blast
  have start: "size_add (FindDriveLetter s) 2 = Suc 0" by (simp add: FindDriveLetter_def)
  show ?thesis
  proof (cases "t = []")
    case False
    with s(2) strip_loop_body [of t npos k] show ?thesis
      by (simp add: StripTrailingSeparatorsInternal_def start strip_spec_def s(3) Let_def) (simp add: s(1))
  next
    case True
    have "npos \<noteq> 3" by (simp add: npos_def size_max_def)
    with True strip_loop_all [of npos k] show ?thesis
      unfolding StripTrailingSeparatorsInternal_def start strip_spec_def s(3) Let_def
      by (cases "k = 2") (auto simp: s(1))
  qed
qed

text \<open>Every directory name is a prefix of the path, or the current directory.\<close>

lemma strip_loop_prefix: "prefix (strip_loop start l n path) path"
proof (induction start l n path rule: strip_loop.induct)
  case (2 start l n path)
  have "prefix (take n path) path" by (rule take_is_prefix)
  with 2 show ?case by (auto intro: prefix_order.trans)
qed simp

lemma Strip_prefix: "prefix (StripTrailingSeparatorsInternal path) path"
  by (simp add: StripTrailingSeparatorsInternal_def strip_loop_prefix)

lemma DirName_nonempty: "DirName path \<noteq> []"
  by (simp add: DirName_def kCurrentDirectory_def Let_def)

lemma DirName_prefix: "DirName path = kCurrentDirectory \<or> prefix (DirName path) path"
proof -
  define s where "s = StripTrailingSeparatorsInternal (FilePath path)"
  have "prefix (FilePath path) path" by (simp add: FilePath_def takeWhile_is_prefix)
  then have "prefix s path" unfolding s_def using Strip_prefix prefix_order.trans by blast
  moreover have "\<exists>q. prefix q s \<and> DirName path =
      (if length (StripTrailingSeparatorsInternal q) = 0 then kCurrentDirectory
       else StripTrailingSeparatorsInternal q)"
    unfolding DirName_def s_def [symmetric] Let_def by (rule exI, rule conjI [OF _ refl]) (simp add: take_is_prefix)
  ultimately show ?thesis using Strip_prefix by (metis prefix_order.trans)
qed

definition components_measure :: "file_path \<Rightarrow> nat" where
  "components_measure path = (if path = kCurrentDirectory then 0 else Suc (length path))"

lemma DirName_decreases: "path \<noteq> DirName path \<Longrightarrow> components_measure (DirName path) < components_measure path"
  using DirName_prefix [of path] DirName_nonempty [of path]
  by (auto simp: components_measure_def kCurrentDirectory_def prefix_Cons
      dest: prefix_length_less [OF strict_prefixI])

subsection \<open>Components\<close>

text \<open>The loop of \<open>GetComponents\<close>: the components found so far and the path where it stops.\<close>

function components_loop :: "file_path \<Rightarrow> string list \<Rightarrow> string list \<times> file_path" where
  "components_loop current ret_val =
     (if current \<noteq> DirName current
      then let base = BaseName current in
           components_loop (DirName current) (if \<not> AreAllSeparators base then ret_val @ [base] else ret_val)
      else (ret_val, current))"
  by pat_completeness auto
termination
  by (relation "measure (\<lambda>(current, ret_val). components_measure current)") (auto intro: DirName_decreases)

declare components_loop.simps [simp del]

definition GetComponents :: "file_path \<Rightarrow> string list" where
  "GetComponents path =
     (if path = [] then []
      else let (ret_val, current) = components_loop path [];
               base = BaseName current;
               ret_val = (if base \<noteq> [] \<and> base \<noteq> kCurrentDirectory then ret_val @ [BaseName current] else ret_val);
               dir = DirName current;
               letter = FindDriveLetter dir;
               ret_val = (if letter \<noteq> npos then ret_val @ [take (letter + 1) dir] else ret_val)
           in rev ret_val)"

definition Append :: "file_path \<Rightarrow> string \<Rightarrow> file_path option" where
  "Append path component =
     (let appended = takeWhile (\<lambda>c. c \<noteq> kStringTerminator) component in
      if IsPathAbsolute appended then None
      else if path = kCurrentDirectory then Some (FilePath appended)
      else let new_path = StripTrailingSeparatorsInternal (FilePath path);
               new_path =
                 (if appended \<noteq> [] \<and> new_path \<noteq> [] \<and> \<not> IsSeparator (last new_path) \<and>
                     size_add (FindDriveLetter new_path) 1 \<noteq> length new_path
                  then new_path @ [hd kSeparators] else new_path)
           in Some (new_path @ appended))"

fun match_components :: "string list \<Rightarrow> string list \<Rightarrow> string list option" where
  "match_components [] child = Some child"
| "match_components (p # parent) [] = None"
| "match_components (p # parent) (c # child) = (if p \<noteq> c then None else match_components parent child)"

fun append_all :: "file_path \<Rightarrow> string list \<Rightarrow> file_path option" where
  "append_all path [] = Some path"
| "append_all path (c # cs) = (case Append path c of None \<Rightarrow> None | Some p \<Rightarrow> append_all p cs)"

text \<open>\<open>path\<close> is the object to append to, if any; the result says whether \<open>self\<close> is a parent.\<close>

definition AppendRelativePath ::
    "file_path \<Rightarrow> file_path \<Rightarrow> file_path option \<Rightarrow> (bool \<times> file_path option) option" where
  "AppendRelativePath self child path =
     (let parent_components = GetComponents self; child_components = GetComponents child in
      if length parent_components \<ge> length child_components then Some (False, path)
      else if length parent_components = 0 then Some (False, path)
      else case match_components parent_components child_components of
             None \<Rightarrow> Some (False, path)
           | Some rest \<Rightarrow>
               (case path of None \<Rightarrow> Some (True, None)
                | Some p \<Rightarrow> map_option (\<lambda>p. (True, Some p)) (append_all p rest)))"

definition IsParent :: "file_path \<Rightarrow> file_path \<Rightarrow> bool option" where
  "IsParent self child = map_option fst (AppendRelativePath self child None)"

definition ReferencesParent :: "file_path \<Rightarrow> bool" where
  "ReferencesParent path = list_ex (\<lambda>component. component = kParentDirectory) (GetComponents path)"

definition IsAbsolute :: "file_path \<Rightarrow> bool" where
  "IsAbsolute path = IsPathAbsolute path"

subsection \<open>Extensions\<close>

definition ExtensionSeparatorPosition :: "string \<Rightarrow> nat" where
  "ExtensionSeparatorPosition path =
     (if path = kCurrentDirectory \<or> path = kParentDirectory then npos
      else let last_dot = last_where (\<lambda>c. c = kExtensionSeparator) path npos in
      if last_dot = npos \<or> last_dot = 0 then last_dot
      else let extension = drop (last_dot + 1) path in
      if \<not> list_ex (LowerCaseEqualsASCII extension) kCommonDoubleExtensions then last_dot
      else let penultimate_dot = last_where (\<lambda>c. c = kExtensionSeparator) path (last_dot - 1);
               last_separator = last_where IsSeparator path (last_dot - 1)
      in if penultimate_dot \<noteq> npos \<and>
            (last_separator = npos \<or> penultimate_dot > last_separator) \<and>
            last_dot - penultimate_dot \<le> 5 \<and> last_dot - penultimate_dot > 1
         then penultimate_dot else last_dot)"

definition Extension :: "file_path \<Rightarrow> string" where
  "Extension path =
     (let base = BaseName path; dot = ExtensionSeparatorPosition base in
      if dot = npos then [] else drop dot base)"

definition RemoveExtension :: "file_path \<Rightarrow> file_path" where
  "RemoveExtension path =
     (if Extension path = [] then path
      else let dot = ExtensionSeparatorPosition path in
           if dot = npos then path else FilePath (take dot path))"

definition InsertBeforeExtension :: "file_path \<Rightarrow> string \<Rightarrow> file_path" where
  "InsertBeforeExtension path sfx =
     (if sfx = [] then FilePath path
      else if path = [] then []
      else let base = BaseName path in
      if base = [] then []
      else if last base = kExtensionSeparator \<and> (base = kCurrentDirectory \<or> base = kParentDirectory) then []
      else FilePath (RemoveExtension path @ sfx @ Extension path))"

definition ReplaceExtension :: "file_path \<Rightarrow> string \<Rightarrow> file_path" where
  "ReplaceExtension path extension =
     (if path = [] then []
      else let base = BaseName path in
      if base = [] then []
      else if last base = kExtensionSeparator \<and> (base = kCurrentDirectory \<or> base = kParentDirectory) then []
      else let no_ext = RemoveExtension path in
      if extension = [] \<or> extension = [kExtensionSeparator] then no_ext
      else FilePath (no_ext @ (if extension ! 0 \<noteq> kExtensionSeparator then [kExtensionSeparator] else []) @ extension))"

text \<open>\<open>strcasecmp\<close> of two C strings, in the C locale: the sign of the difference of the first two bytes
  that differ after folding.\<close>

fun strcasecmp :: "string \<Rightarrow> string \<Rightarrow> int" where
  "strcasecmp (a # as) (b # bs) =
     (if ascii_tolower a \<noteq> ascii_tolower b then int (uc (ascii_tolower a)) - int (uc (ascii_tolower b))
      else if a = kStringTerminator then 0 else strcasecmp as bs)"
| "strcasecmp [] (b # bs) = - int (uc (ascii_tolower b))"
| "strcasecmp (a # as) [] = int (uc (ascii_tolower a))"
| "strcasecmp [] [] = 0"

definition CompareIgnoreCase :: "string \<Rightarrow> string \<Rightarrow> int" where
  "CompareIgnoreCase string1 string2 =
     (let comparison = strcasecmp string1 string2 in
      if comparison < 0 then - 1 else if comparison > 0 then 1 else 0)"

definition CompareEqualIgnoreCase :: "string \<Rightarrow> string \<Rightarrow> bool" where
  "CompareEqualIgnoreCase s1 s2 = (CompareIgnoreCase s1 s2 = 0)"

definition CompareLessIgnoreCase :: "string \<Rightarrow> string \<Rightarrow> bool" where
  "CompareLessIgnoreCase s1 s2 = (CompareIgnoreCase s1 s2 < 0)"

definition MatchesExtension :: "file_path \<Rightarrow> string \<Rightarrow> bool option" where
  "MatchesExtension path extension =
     (if extension = [] \<or> extension ! 0 = kExtensionSeparator
      then let current_extension = Extension path in
           Some (length current_extension = length extension \<and> CompareEqualIgnoreCase extension current_extension)
      else None)"
subsection \<open>Lemmas: splitting a path at its last separator\<close>

definition plain :: "string \<Rightarrow> bool" where
  "plain c \<longleftrightarrow> c \<noteq> [] \<and> CHR ''/'' \<notin> set c \<and> kStringTerminator \<notin> set c"

lemma FilePath_id: "kStringTerminator \<notin> set p \<Longrightarrow> FilePath p = p"
  by (simp add: FilePath_def takeWhile_eq_all_conv) blast

lemma FilePath_no_nul: "kStringTerminator \<notin> set (FilePath p)"
  by (auto simp: FilePath_def dest: set_takeWhileD)

lemma strip_id: "p = [] \<or> last p \<noteq> CHR ''/'' \<or> p = ''/'' \<Longrightarrow> StripTrailingSeparatorsInternal p = p"
  unfolding StripTrailingSeparatorsInternal_eq strip_spec_def
  by (cases p rule: rev_cases) (auto simp: Let_def)

lemma plain_last: "plain c \<Longrightarrow> last (a @ c) \<noteq> CHR ''/''"
  using last_in_set by (fastforce simp: plain_def)

lemma drive_letter [simp]: "FindDriveLetter p = npos" "size_add npos 1 = 0" "size_add npos 2 = 1" "size_add npos 3 = 2"
  "size_add npos (Suc 0) = 0"
  by (simp_all add: FindDriveLetter_def size_add_def npos_def size_max_def)

lemma last_separator_plain: "plain c \<Longrightarrow> last_where IsSeparator c npos = npos"
  by (rule last_where_none) (auto simp: plain_def)

lemma last_separator_split:
  "plain c \<Longrightarrow> length (a @ ''/'' @ c) < npos \<Longrightarrow> last_where IsSeparator (a @ ''/'' @ c) npos = length a"
  using last_where_split [of IsSeparator "CHR ''/''" c a] by (auto simp: plain_def)

lemma DirName_plain: "plain c \<Longrightarrow> DirName c = kCurrentDirectory"
  using plain_last [of c "[]"]
  by (simp add: DirName_def FilePath_id strip_id last_separator_plain) (simp add: plain_def FilePath_id strip_id last_separator_plain)

lemma BaseName_plain: "plain c \<Longrightarrow> BaseName c = c"
  using plain_last [of c "[]"]
  by (simp add: BaseName_def strip_id last_separator_plain FilePath_id plain_def)

lemma root_names [simp]: "DirName ''/'' = ''/''" "BaseName ''/'' = ''/''"
  "DirName ''.'' = ''.''" "BaseName ''.'' = ''.''"
proof -
  have root: "FilePath ''/'' = ''/''" "last_where IsSeparator ''/'' npos = 0" "(0::nat) \<noteq> npos"
    by (simp_all add: FilePath_def kStringTerminator_def last_where_def npos_def size_max_def)
  then show "DirName ''/'' = ''/''" by (simp add: DirName_def strip_id)
  show "BaseName ''/'' = ''/''" by (simp add: BaseName_def strip_id root size_sub_def size_max_def)
  have dot: "plain ''.''" by (simp add: plain_def kStringTerminator_def)
  show "DirName ''.'' = ''.''" using DirName_plain [OF dot] by (simp add: kCurrentDirectory_def)
  show "BaseName ''.'' = ''.''" by (rule BaseName_plain [OF dot])
qed

lemma split_path:
  assumes "plain c" and "a = [] \<or> last a \<noteq> CHR ''/''" and "kStringTerminator \<notin> set a"
    and "length (a @ ''/'' @ c) < npos"
  shows DirName_split: "DirName (a @ ''/'' @ c) = (if a = [] then ''/'' else a)"
    and BaseName_split: "BaseName (a @ ''/'' @ c) = c"
proof -
  let ?p = "a @ ''/'' @ c"
  have p: "FilePath ?p = ?p" "StripTrailingSeparatorsInternal ?p = ?p"
    using assms(1,3) plain_last [of c "a @ ''/''"]
    by (auto intro!: FilePath_id strip_id simp: plain_def kStringTerminator_def)
  have sep: "last_where IsSeparator ?p npos = length a"
    using assms(1,4) by (rule last_separator_split)
  have ne: "length a \<noteq> npos" using assms(4) by simp
  have "c \<noteq> []" using assms(1) by (simp add: plain_def)
  then show "BaseName ?p = c"
    using sep ne assms(4) unfolding BaseName_def p by (simp add: size_sub_def npos_def)
  show "DirName ?p = (if a = [] then ''/'' else a)"
    using assms(2) sep ne unfolding DirName_def p
    by (cases a; cases "tl a") (auto simp: strip_id Let_def)
qed
subsection \<open>Lemmas: joining and splitting names\<close>

fun join_names :: "string list \<Rightarrow> string" where
  "join_names [] = []"
| "join_names [c] = c"
| "join_names (c # d # cs) = c @ ''/'' @ join_names (d # cs)"

lemma join_names_snoc: "cs \<noteq> [] \<Longrightarrow> join_names (cs @ [c]) = join_names cs @ ''/'' @ c"
  by (induction cs rule: join_names.induct) auto

lemma join_names_Cons: "cs \<noteq> [] \<Longrightarrow> join_names (c # cs) = c @ ''/'' @ join_names cs"
  by (cases cs) auto

definition names_ok :: "string list \<Rightarrow> bool" where
  "names_ok cs \<longleftrightarrow> cs \<noteq> [] \<and> list_all plain cs \<and> hd cs \<noteq> kCurrentDirectory"

lemma names_ok_snoc: "names_ok (cs @ [c]) \<longleftrightarrow> plain c \<and> (if cs = [] then c \<noteq> kCurrentDirectory else names_ok cs)"
  by (auto simp: names_ok_def)

lemma names_ok_single [simp]: "names_ok [c] \<longleftrightarrow> plain c \<and> c \<noteq> kCurrentDirectory"
  by (simp add: names_ok_def)

lemma names_ok_append: "names_ok (xs @ ys) \<Longrightarrow> xs \<noteq> [] \<Longrightarrow> names_ok xs \<and> list_all plain ys"
  by (simp add: names_ok_def)

lemma join_names_ok:
  "names_ok cs \<Longrightarrow> join_names cs \<noteq> [] \<and> last (join_names cs) \<noteq> CHR ''/'' \<and>
     kStringTerminator \<notin> set (join_names cs) \<and> join_names cs \<noteq> kCurrentDirectory \<and> hd (join_names cs) \<noteq> CHR ''/''"
proof (induction cs rule: rev_induct)
  case (snoc c cs)
  then have c: "plain c" by (simp add: names_ok_snoc)
  then have "c \<noteq> []" by (simp add: plain_def)
  show ?case
  proof (cases "cs = []")
    case True
    from c \<open>c \<noteq> []\<close> have "hd c \<noteq> CHR ''/''" by (metis hd_in_set plain_def)
    with True snoc.prems c plain_last [of c "[]"] show ?thesis by (auto simp: plain_def)
  next
    case False
    with snoc c have "names_ok cs" by (simp add: names_ok_snoc)
    from snoc.IH [OF this] False c \<open>c \<noteq> []\<close> plain_last [of c "join_names cs @ ''/''"] show ?thesis
      by (auto simp: join_names_snoc plain_def kStringTerminator_def kCurrentDirectory_def append_eq_Cons_conv)
  qed
qed (simp add: names_ok_def)

lemma length_join_snoc: "length (join_names cs) \<le> length (join_names (cs @ [c]))"
  by (cases "cs = []") (simp_all add: join_names_snoc)

lemma length_join_prefix: "length (join_names xs) \<le> length (join_names (xs @ ys))"
proof (induction ys rule: rev_induct)
  case (snoc y ys)
  then show ?case using length_join_snoc [of "xs @ ys" y] by simp
qed simp

lemma AreAllSeparators_plain: "plain c \<Longrightarrow> \<not> AreAllSeparators c"
  by (cases c) (auto simp: AreAllSeparators_def plain_def)

lemma kCurrentDirectory_plain: "plain kCurrentDirectory"
  by (simp add: plain_def kCurrentDirectory_def kStringTerminator_def)

text \<open>The loop takes a joined path apart from its end: down to the current directory, or to the root.\<close>

lemma components_loop_join:
  assumes "names_ok cs" and "length (join_names cs) < npos"
  shows "components_loop (join_names cs) acc = (acc @ rev cs, kCurrentDirectory)"
  using assms
proof (induction cs arbitrary: acc rule: rev_induct)
  case (snoc c cs)
  have c: "plain c" using snoc.prems by (simp add: names_ok_snoc)
  have stop: "components_loop kCurrentDirectory acc' = (acc', kCurrentDirectory)" for acc'
    by (subst components_loop.simps) (simp add: kCurrentDirectory_def)
  show ?case
  proof (cases "cs = []")
    case True
    with c snoc.prems show ?thesis
      by (subst components_loop.simps)
        (simp add: names_ok_snoc DirName_plain BaseName_plain AreAllSeparators_plain stop)
  next
    case False
    with snoc.prems have ok: "names_ok cs" and len: "length (join_names cs @ ''/'' @ c) < npos"
      by (simp_all add: names_ok_snoc join_names_snoc)
    note j = join_names_ok [OF ok]
    from c j len have "DirName (join_names cs @ ''/'' @ c) = join_names cs" "BaseName (join_names cs @ ''/'' @ c) = c"
      using split_path [of c "join_names cs"] by simp_all
    with False ok len c snoc.IH [OF ok, of "acc @ [c]"] show ?thesis
      by (subst components_loop.simps) (simp add: join_names_snoc AreAllSeparators_plain)
  qed
qed (simp add: names_ok_def)

lemma components_loop_root:
  assumes "names_ok cs" and "Suc (length (join_names cs)) < npos"
  shows "components_loop (''/'' @ join_names cs) acc = (acc @ rev cs, ''/'')"
  using assms
proof (induction cs arbitrary: acc rule: rev_induct)
  case (snoc c cs)
  have c: "plain c" using snoc.prems by (simp add: names_ok_snoc)
  then have c0: "c \<noteq> []" by (simp add: plain_def)
  have stop: "components_loop ''/'' acc' = (acc', ''/'')" for acc'
    by (subst components_loop.simps) simp
  show ?case
  proof (cases "cs = []")
    case True
    with c snoc.prems split_path [of c "[]"] c0 show ?thesis
      by (subst components_loop.simps) (simp add: AreAllSeparators_plain stop)
  next
    case False
    with snoc.prems have ok: "names_ok cs" and len: "length ((''/'' @ join_names cs) @ ''/'' @ c) < npos"
      by (simp_all add: names_ok_snoc join_names_snoc)
    note j = join_names_ok [OF ok]
    from c j len have "DirName ((''/'' @ join_names cs) @ ''/'' @ c) = ''/'' @ join_names cs"
      "BaseName ((''/'' @ join_names cs) @ ''/'' @ c) = c"
      using split_path [of c "''/'' @ join_names cs"] by (simp_all add: kStringTerminator_def)
    with False ok len c snoc.IH [OF ok, of "acc @ [c]"] show ?thesis
      by (subst components_loop.simps) (simp add: join_names_snoc AreAllSeparators_plain)
  qed
qed (simp add: names_ok_def)

lemma GetComponents_join:
  assumes "names_ok cs" and "Suc (length (join_names cs)) < npos"
  shows "GetComponents (join_names cs) = cs" and "GetComponents (''/'' @ join_names cs) = ''/'' # cs"
  using components_loop_join [of cs "[]"] components_loop_root [of cs "[]"] assms join_names_ok [of cs]
  by (simp_all add: GetComponents_def Let_def) (simp_all add: kCurrentDirectory_def)
lemma plain_appended:
  "plain c \<Longrightarrow> takeWhile (\<lambda>c. c \<noteq> kStringTerminator) c = c \<and> \<not> IsPathAbsolute c \<and> FilePath c = c"
  by (cases c) (auto simp: plain_def IsPathAbsolute_def FilePath_id takeWhile_eq_all_conv)

lemma Append_plain:
  assumes "plain c"
  shows "Append kCurrentDirectory c = Some c" and "Append ''/'' c = Some (''/'' @ c)"
    and "\<lbrakk>p \<noteq> kCurrentDirectory; p \<noteq> []; last p \<noteq> CHR ''/''; kStringTerminator \<notin> set p\<rbrakk> \<Longrightarrow>
      Append p c = Some (p @ ''/'' @ c)"
proof -
  note c = plain_appended [OF assms]
  have c0: "c \<noteq> []" using assms by (simp add: plain_def)
  show "Append kCurrentDirectory c = Some c" unfolding Append_def by (simp add: c)
  have "FilePath ''/'' = ''/''" "''/'' \<noteq> kCurrentDirectory"
    by (simp_all add: FilePath_id kStringTerminator_def kCurrentDirectory_def)
  then show "Append ''/'' c = Some (''/'' @ c)" unfolding Append_def by (simp add: c strip_id)
  assume p: "p \<noteq> kCurrentDirectory" "p \<noteq> []" "last p \<noteq> CHR ''/''" "kStringTerminator \<notin> set p"
  then show "Append p c = Some (p @ ''/'' @ c)"
    unfolding Append_def by (simp add: c c0 FilePath_id strip_id kSeparators_def)
qed

lemma append_all_append:
  "append_all p (xs @ ys) = (case append_all p xs of None \<Rightarrow> None | Some q \<Rightarrow> append_all q ys)"
  by (induction xs arbitrary: p) (auto split: option.splits)

lemma append_all_join:
  "names_ok cs \<Longrightarrow> append_all kCurrentDirectory cs = Some (join_names cs) \<and>
     append_all ''/'' cs = Some (''/'' @ join_names cs)"
proof (induction cs rule: rev_induct)
  case (snoc c cs)
  then have c: "plain c" by (simp add: names_ok_snoc)
  show ?case
  proof (cases "cs = []")
    case True
    with c show ?thesis by (simp add: Append_plain)
  next
    case False
    with snoc have ok: "names_ok cs" by (simp add: names_ok_snoc)
    from join_names_ok [OF this] have "Append (join_names cs) c = Some (join_names cs @ ''/'' @ c)"
      "Append (''/'' @ join_names cs) c = Some ((''/'' @ join_names cs) @ ''/'' @ c)"
      using Append_plain(3) [OF c, of "join_names cs"] Append_plain(3) [OF c, of "''/'' @ join_names cs"]
      by (simp_all add: kCurrentDirectory_def kStringTerminator_def)
    with snoc.IH [OF ok] False show ?thesis by (simp add: append_all_append join_names_snoc)
  qed
qed (simp add: names_ok_def)

lemma match_components_append: "match_components xs (xs @ ys) = Some ys"
  by (induction xs) auto

lemma components_loop_steps:
  "\<exists>n\<le>components_measure path. snd (components_loop path acc) = (DirName ^^ n) path \<and>
     DirName (snd (components_loop path acc)) = snd (components_loop path acc)"
proof (induction path acc rule: components_loop.induct)
  case (1 path acc)
  show ?case
  proof (cases "path = DirName path")
    case True
    then have "snd (components_loop path acc) = path" by (subst components_loop.simps) simp
    with True show ?thesis by (intro exI [of _ 0]) simp
  next
    case False
    define acc' where "acc' = (if \<not> AreAllSeparators (BaseName path) then acc @ [BaseName path] else acc)"
    from False have step: "components_loop path acc = components_loop (DirName path) acc'"
      unfolding acc'_def Let_def by (subst components_loop.simps) simp
    from "1.IH" [OF False refl] obtain n where n: "n \<le> components_measure (DirName path)"
        "snd (components_loop (DirName path) acc') = (DirName ^^ n) (DirName path)"
        "DirName (snd (components_loop (DirName path) acc')) = snd (components_loop (DirName path) acc')"
      unfolding acc'_def by blast
    from n(1) DirName_decreases [OF False] have "Suc n \<le> components_measure path" by simp
    with n(2,3) show ?thesis unfolding step by (intro exI [of _ "Suc n"]) (simp add: funpow_Suc_right del: funpow.simps)
  qed
qed

subsection \<open>Properties\<close>

text \<open>C16: Building a path from names and taking it apart again are inverse: appending the names of \<open>cs\<close>
  one after the other to \<open>.\<close>, or to \<open>/\<close>, never fails, gives the joined path, and the components of the
  result are the names, after \<open>/\<close> for the absolute path; \<open>AppendRelativePath\<close> from any of its proper
  parents gives the path back, so it is their child.\<close>

theorem components_roundtrip:
  assumes "names_ok (xs @ ys)" and "xs \<noteq> []" and "ys \<noteq> []" and "Suc (length (join_names (xs @ ys))) < npos"
  shows "append_all kCurrentDirectory (xs @ ys) = Some (join_names (xs @ ys)) \<and>
    GetComponents (join_names (xs @ ys)) = xs @ ys \<and>
    append_all ''/'' (xs @ ys) = Some (''/'' @ join_names (xs @ ys)) \<and>
    GetComponents (''/'' @ join_names (xs @ ys)) = ''/'' # xs @ ys \<and>
    AppendRelativePath (join_names xs) (join_names (xs @ ys)) (Some (join_names xs)) =
      Some (True, Some (join_names (xs @ ys))) \<and>
    AppendRelativePath (''/'' @ join_names xs) (''/'' @ join_names (xs @ ys)) (Some (''/'' @ join_names xs)) =
      Some (True, Some (''/'' @ join_names (xs @ ys)))"
proof -
  have xs: "names_ok xs" using names_ok_append assms(1,2) by blast
  have len: "Suc (length (join_names xs)) < npos" using length_join_prefix [of xs ys] assms(4) by linarith
  note all = append_all_join [OF assms(1)] and part = append_all_join [OF xs]
  have rest: "append_all (join_names xs) ys = Some (join_names (xs @ ys))"
    "append_all (''/'' @ join_names xs) ys = Some (''/'' @ join_names (xs @ ys))"
    using all part by (simp_all add: append_all_append)
  note comps = GetComponents_join [OF assms(1) assms(4)] GetComponents_join [OF xs len]
  show ?thesis
    using all comps rest assms(2,3) unfolding AppendRelativePath_def comps
    by (simp add: match_components_append)
qed

theorem components_roundtrip_witness:
  "GetComponents ''/usr/lib'' = [''/'', ''usr'', ''lib''] \<and>
   AppendRelativePath ''usr'' ''usr/lib'' (Some ''usr'') = Some (True, Some ''usr/lib'')"
  using components_roundtrip [of "[''usr'']" "[''lib'']"]
  by (simp add: names_ok_def plain_def kStringTerminator_def kCurrentDirectory_def npos_def size_max_def)

text \<open>The loop of \<open>GetComponents\<close> ends for every path, also one with repeated separators, with \<open>..\<close> or
  empty: after at most one step more than the path has characters it is at a path that is its own
  directory name.\<close>

theorem GetComponents_terminates:
  "\<exists>n\<le>Suc (length path). snd (components_loop path ret_val) = (DirName ^^ n) path \<and>
     DirName (snd (components_loop path ret_val)) = snd (components_loop path ret_val)"
proof -
  have "components_measure path \<le> Suc (length path)" by (simp add: components_measure_def)
  with components_loop_steps [of path ret_val] show ?thesis using order_trans by blast
qed

end
