(* ===== verification/Status.thy ===== *)
theory Status
  imports Numbers
begin

text \<open>
  \<^verbatim>\<open>base/status.h\<close> and \<^verbatim>\<open>base/status.cc\<close>: the status that the server and the handlers return. A status is
  no state (success) or a code and a message.
\<close>

datatype Code =
    OK | CANCELLED | UNKNOWN | INVALID_ARGUMENT | DEADLINE_EXCEEDED | NOT_FOUND | ALREADY_EXISTS
  | PERMISSION_DENIED | UNAUTHENTICATED | RESOURCE_EXHAUSTED | FAILED_PRECONDITION | ABORTED
  | OUT_OF_RANGE | UNIMPLEMENTED | INTERNAL | UNAVAILABLE | DATA_LOSS | DO_NOT_USE

fun code_number :: "Code \<Rightarrow> nat" where
  "code_number OK = 0"
| "code_number CANCELLED = 1"
| "code_number UNKNOWN = 2"
| "code_number INVALID_ARGUMENT = 3"
| "code_number DEADLINE_EXCEEDED = 4"
| "code_number NOT_FOUND = 5"
| "code_number ALREADY_EXISTS = 6"
| "code_number PERMISSION_DENIED = 7"
| "code_number UNAUTHENTICATED = 16"
| "code_number RESOURCE_EXHAUSTED = 8"
| "code_number FAILED_PRECONDITION = 9"
| "code_number ABORTED = 10"
| "code_number OUT_OF_RANGE = 11"
| "code_number UNIMPLEMENTED = 12"
| "code_number INTERNAL = 13"
| "code_number UNAVAILABLE = 14"
| "code_number DATA_LOSS = 15"
| "code_number DO_NOT_USE = 20"

record status_state =
  state_code :: Code
  state_msg :: string

type_synonym status = "status_state option"

definition Status :: "Code \<Rightarrow> string \<Rightarrow> status option" where
  "Status c m = (if c \<noteq> OK then Some (Some \<lparr>state_code = c, state_msg = m\<rparr>) else None)"

definition Status_OK :: status where "Status_OK = None"

definition status_ok :: "status \<Rightarrow> bool" where "status_ok s = (s = None)"

definition status_code :: "status \<Rightarrow> Code" where
  "status_code s = (case s of None \<Rightarrow> OK | Some st \<Rightarrow> state_code st)"

definition error_message :: "status \<Rightarrow> string" where
  "error_message s = (case s of None \<Rightarrow> [] | Some st \<Rightarrow> state_msg st)"

text \<open>Copying and assigning a status copy its state; \<open>Update\<close> assigns only to a good one.\<close>

definition Update :: "status \<Rightarrow> status \<Rightarrow> status" where
  "Update s new_status = (if status_ok s then new_status else s)"

fun code_type :: "Code \<Rightarrow> string" where
  "code_type CANCELLED = ''Cancelled''"
| "code_type UNKNOWN = ''Unknown''"
| "code_type INVALID_ARGUMENT = ''Invalid argument''"
| "code_type DEADLINE_EXCEEDED = ''Deadline exceeded''"
| "code_type NOT_FOUND = ''Not found''"
| "code_type ALREADY_EXISTS = ''Already exists''"
| "code_type PERMISSION_DENIED = ''Permission denied''"
| "code_type UNAUTHENTICATED = ''Unauthenticated''"
| "code_type RESOURCE_EXHAUSTED = ''Resource exhausted''"
| "code_type FAILED_PRECONDITION = ''Failed precondition''"
| "code_type ABORTED = ''Aborted''"
| "code_type OUT_OF_RANGE = ''Out of range''"
| "code_type UNIMPLEMENTED = ''Unimplemented''"
| "code_type INTERNAL = ''Internal''"
| "code_type UNAVAILABLE = ''Unavailable''"
| "code_type DATA_LOSS = ''Data loss''"
| "code_type c = ''Unknown code('' @ show_int (int (code_number c)) @ '')''"

definition ToString :: "status \<Rightarrow> string" where
  "ToString s =
     (case s of None \<Rightarrow> ''OK'' | Some st \<Rightarrow> code_type (state_code st) @ '': '' @ state_msg st)"

definition Status_eq :: "status \<Rightarrow> status \<Rightarrow> bool" where
  "Status_eq s x = (s = None \<and> x = None \<or> ToString s = ToString x)"

definition Status_neq :: "status \<Rightarrow> status \<Rightarrow> bool" where
  "Status_neq s x = (\<not> Status_eq s x)"

subsection \<open>Lemmas\<close>

lemma show_defaults: "show_int 0 = ''0''" "show_int 20 = ''20''"
  by code_simp+

lemma code_type_no_colon: "takeWhile (\<lambda>x. x \<noteq> CHR '':'') (code_type c @ '': '' @ m) = code_type c"
  by (cases c) (simp_all add: show_defaults)

lemma code_type_inject: "code_type c = code_type d \<longleftrightarrow> c = d"
  by (cases c; cases d; simp add: show_defaults)

lemma code_type_not_OK: "code_type c @ CHR '':'' # CHR '' '' # m \<noteq> ''OK''"
  by (cases c) (simp_all add: show_defaults)

lemma Status_simps [simp]: "Status_OK = None" "status_ok s \<longleftrightarrow> s = None"
  by (simp_all add: Status_OK_def status_ok_def)

lemma ToString_inject: "ToString s = ToString t \<longleftrightarrow> s = t"
proof (cases s; cases t)
  fix a b assume s: "s = Some a" and t: "t = Some b"
  show ?thesis
  proof
    assume "ToString s = ToString t"
    then have eq: "code_type (state_code a) @ '': '' @ state_msg a = code_type (state_code b) @ '': '' @ state_msg b"
      by (simp add: ToString_def s t)
    then have "code_type (state_code a) = code_type (state_code b)"
      using code_type_no_colon by metis
    with eq have "state_code a = state_code b \<and> state_msg a = state_msg b" by (simp add: code_type_inject)
    then show "s = t" by (simp add: s t)
  qed simp
qed (use code_type_not_OK in \<open>auto simp: ToString_def dest: sym\<close>)

text \<open>What a sequence of updates leaves: the first error.\<close>

lemma Update_fold: "foldl Update s ts = (case filter (\<lambda>t. t \<noteq> None) (s # ts) of [] \<Rightarrow> None | t # _ \<Rightarrow> t)"
  by (induction ts arbitrary: s) (auto simp: Update_def)

lemma Status_errors: "c \<noteq> OK \<Longrightarrow> \<exists>s. Status c m = Some s \<and> \<not> status_ok s \<and> status_code s = c \<and> error_message s = m"
  by (simp add: Status_def status_code_def error_message_def)

lemma Status_eq_iff: "Status_eq s x \<longleftrightarrow> s = x"
  by (auto simp: Status_eq_def ToString_inject)

end
