(* ===== verification/Amqp_Server.thy ===== *)
theory Amqp_Server
  imports Status String_Piece
begin

text \<open>
  The server of \<^verbatim>\<open>server/server_interface.cc\<close> and \<^verbatim>\<open>server/amqp/amqp_server.h\<close>/\<^verbatim>\<open>.cc\<close>: the registry of
  server factories, the life cycle of \<open>AmqpServer\<close> with the threads that run its services, and what
  the program of \<^verbatim>\<open>server/amqp/amqp_consumer_server.cc\<close> does with it. One step is one critical section of
  \<open>mu_\<close> or of the monitor; \<open>Join\<close> waits in the monitor with \<open>mu_\<close> held. \<open>None\<close> is undefined behaviour.
\<close>

subsection \<open>The registry of factories\<close>

text \<open>A factory is what its server definition test and its construction do; the unordered map is the
  list of its entries in the order of iteration, and a new entry may come anywhere.\<close>

record 's server_factory =
  AcceptsOptions :: "string \<Rightarrow> bool"
  NewServer_of :: "string \<Rightarrow> status \<times> 's option"

definition ServerFactory_Register ::
    "nat \<Rightarrow> string \<Rightarrow> 's server_factory \<Rightarrow> (string \<times> 's server_factory) list \<Rightarrow> (string \<times> 's server_factory) list" where
  "ServerFactory_Register position server_type f fs =
     (if list_ex (\<lambda>x. fst x = server_type) fs then fs
      else take position fs @ (server_type, f) # drop position fs)"

fun ServerFactory_GetFactory ::
    "string \<Rightarrow> (string \<times> 's server_factory) list \<Rightarrow> status \<times> 's server_factory option" where
  "ServerFactory_GetFactory server_def [] =
     (Some \<lparr>state_code = NOT_FOUND,
            state_msg = ''No server factory registered for the given server_def:'' @ server_def\<rparr>, None)"
| "ServerFactory_GetFactory server_def ((name, f) # fs) =
     (if AcceptsOptions f server_def then (Status_OK, Some f) else ServerFactory_GetFactory server_def fs)"

definition NewServer :: "string \<Rightarrow> (string \<times> 's server_factory) list \<Rightarrow> status \<times> 's option" where
  "NewServer server_def fs =
     (case ServerFactory_GetFactory server_def fs of
        (_, Some factory) \<Rightarrow> NewServer_of factory server_def
      | (status, None) \<Rightarrow> (status, None))"

subsection \<open>The server\<close>

datatype server_state = NEW | STARTED | STOPPED

text \<open>An entry of \<open>service_executor_list_\<close> is a service (its pointer) and where its thread is: none started
  yet, in \<open>HandleLoop\<close>, or through the decrement after it. \<open>joining\<close> is a call of \<open>Join\<close> that waits,
  \<open>notified\<close> that the monitor has been notified since it began to wait.\<close>

datatype phase = Pending | Looping | Finished

record amqp_server =
  server_state :: server_state
  executors :: "(nat \<times> phase) list"
  total_tasks :: int
  joining :: bool
  notified :: bool

definition AmqpServer :: amqp_server where
  "AmqpServer = \<lparr>server_state = NEW, executors = [], total_tasks = 0, joining = False, notified = False\<rparr>"

definition Init :: "amqp_server \<Rightarrow> status \<times> amqp_server" where
  "Init s = (Status_OK, s)"

definition Create :: "string \<Rightarrow> status \<times> amqp_server option" where
  "Create server_def =
     (let (st, s) = Init AmqpServer in if \<not> status_ok st then (st, None) else (Status_OK, Some s))"

definition Start :: "amqp_server \<Rightarrow> status \<times> amqp_server" where
  "Start s =
     (case server_state s of
        NEW \<Rightarrow> (Status_OK, s\<lparr>executors := map (\<lambda>x. (fst x, Looping)) (executors s), server_state := STARTED\<rparr>)
      | STARTED \<Rightarrow> (Status_OK, s)
      | STOPPED \<Rightarrow> (Some \<lparr>state_code = FAILED_PRECONDITION, state_msg = ''Server has stopped''\<rparr>, s))"

definition Stop :: "amqp_server \<Rightarrow> status \<times> amqp_server" where
  "Stop s =
     (case server_state s of
        NEW \<Rightarrow> (Status_OK, s\<lparr>server_state := STOPPED\<rparr>)
      | STARTED \<Rightarrow> (Status_OK, s\<lparr>server_state := STOPPED\<rparr>)
      | STOPPED \<Rightarrow> (Status_OK, s))"

text \<open>\<open>Join\<close> up to its return or its wait; no status while it waits.\<close>

definition Join :: "amqp_server \<Rightarrow> status option \<times> amqp_server" where
  "Join s =
     (case server_state s of
        NEW \<Rightarrow> (Some Status_OK, s\<lparr>server_state := STOPPED\<rparr>)
      | _ \<Rightarrow> if total_tasks s > 0 then (None, s\<lparr>joining := True, notified := False\<rparr>) else (Some Status_OK, s))"

text \<open>The waiting \<open>Join\<close> is woken, tests again and returns or waits again.\<close>

definition Join_wakes :: "amqp_server \<Rightarrow> amqp_server option" where
  "Join_wakes s =
     (if joining s \<and> notified s
      then Some (if total_tasks s > 0 then s\<lparr>notified := False\<rparr> else s\<lparr>joining := False, notified := False\<rparr>)
      else None)"

definition InsertAsyncService :: "nat \<Rightarrow> amqp_server \<Rightarrow> status \<times> amqp_server" where
  "InsertAsyncService service s =
     (if list_ex (\<lambda>x. fst x = service) (executors s)
      then (Some \<lparr>state_code = ALREADY_EXISTS, state_msg = ''service already existed''\<rparr>, s)
      else (Status_OK, s\<lparr>executors := executors s @ [(service, Pending)], total_tasks := total_tasks s + 1\<rparr>))"

text \<open>After \<open>erase\<close> the loop increments the iterator it erased.\<close>

definition RemoveAsyncService :: "nat \<Rightarrow> amqp_server \<Rightarrow> (status \<times> amqp_server) option" where
  "RemoveAsyncService service s =
     (if list_ex (\<lambda>x. fst x = service) (executors s) then None else Some (Status_OK, s))"

text \<open>\<open>ServiceExecutor::Run\<close>, after \<open>HandleLoop\<close> of the service has returned.\<close>

definition Run_done :: "nat \<Rightarrow> amqp_server \<Rightarrow> amqp_server option" where
  "Run_done i s =
     (if i < length (executors s) \<and> snd (executors s ! i) = Looping
      then let s = s\<lparr>executors := (executors s)[i := (fst (executors s ! i), Finished)],
                     total_tasks := total_tasks s - 1\<rparr>
           in Some (if total_tasks s = 0 then s\<lparr>notified := joining s\<rparr> else s)
      else None)"

definition amqp_AcceptsOptions :: "string \<Rightarrow> bool" where
  "amqp_AcceptsOptions server_def = (std_find server_def ''amqp:'' 0 \<noteq> npos)"

definition AmqpServerFactory :: "amqp_server server_factory" where
  "AmqpServerFactory = \<lparr>AcceptsOptions = amqp_AcceptsOptions, NewServer_of = Create\<rparr>"

subsection \<open>Runs\<close>

text \<open>The calls of the server's user need \<open>mu_\<close>, so they cannot begin while a call of \<open>Join\<close> waits.\<close>

datatype server_action = DoStart | DoStop | DoJoin | DoInsert nat | DoRemove nat | DoDone nat | DoWake

fun server_step :: "server_action \<Rightarrow> amqp_server \<Rightarrow> amqp_server option" where
  "server_step DoStart s = (if joining s then None else Some (snd (Start s)))"
| "server_step DoStop s = (if joining s then None else Some (snd (Stop s)))"
| "server_step DoJoin s = (if joining s then None else Some (snd (Join s)))"
| "server_step (DoInsert v) s = (if joining s then None else Some (snd (InsertAsyncService v s)))"
| "server_step (DoRemove v) s = (if joining s then None else map_option snd (RemoveAsyncService v s))"
| "server_step (DoDone i) s = Run_done i s"
| "server_step DoWake s = Join_wakes s"

fun server_run :: "server_action list \<Rightarrow> amqp_server \<Rightarrow> amqp_server option" where
  "server_run [] s = Some s"
| "server_run (a # as) s = do { s \<leftarrow> server_step a s; server_run as s }"

inductive server_reachable :: "amqp_server \<Rightarrow> bool" where
  created: "server_reachable AmqpServer"
| step: "server_reachable s \<Longrightarrow> server_step a s = Some s' \<Longrightarrow> server_reachable s'"

inductive_cases server_stepE: "server_reachable s"

definition unfinished :: "amqp_server \<Rightarrow> nat" where
  "unfinished s = length (filter (\<lambda>x. snd x \<noteq> Finished) (executors s))"

definition server_ok :: "amqp_server \<Rightarrow> bool" where
  "server_ok s \<longleftrightarrow> total_tasks s = int (unfinished s) \<and> distinct (map fst (executors s)) \<and>
     (server_state s = NEW \<longrightarrow> (\<forall>x\<in>set (executors s). snd x = Pending) \<and> \<not> joining s) \<and>
     (joining s \<and> \<not> notified s \<longrightarrow> unfinished s > 0) \<and> (notified s \<longrightarrow> joining s \<and> unfinished s = 0)"
subsection \<open>Lemmas\<close>

lemma unfinished_add [simp]:
  "unfinished (s\<lparr>executors := executors s @ [(v, Pending)], total_tasks := t\<rparr>) = Suc (unfinished s)"
  by (simp add: unfinished_def)

lemma unfinished_executors: "executors s = executors s' \<Longrightarrow> unfinished s = unfinished s'"
  by (simp add: unfinished_def)

lemma filter_update:
  "i < length xs \<Longrightarrow> P (xs ! i) \<Longrightarrow> \<not> P y \<Longrightarrow>
   length (filter P xs) = Suc (length (filter P (xs[i := y])))"
proof (induction xs arbitrary: i)
  case (Cons x xs)
  then show ?case by (cases i) auto
qed simp

lemma unfinished_pos: "unfinished s > 0 \<longleftrightarrow> (\<exists>x\<in>set (executors s). snd x \<noteq> Finished)"
  by (auto simp: unfinished_def filter_empty_conv)

lemma Run_done_cases:
  assumes "Run_done i s = Some s'"
  obtains s1 where "i < length (executors s)" "snd (executors s ! i) = Looping"
    "executors s1 = (executors s)[i := (fst (executors s ! i), Finished)]"
    "total_tasks s1 = total_tasks s - 1" "server_state s1 = server_state s"
    "joining s1 = joining s" "notified s1 = notified s"
    "s' = (if total_tasks s1 = 0 then s1\<lparr>notified := joining s1\<rparr> else s1)"
proof
  let ?s1 = "s\<lparr>executors := (executors s)[i := (fst (executors s ! i), Finished)], total_tasks := total_tasks s - 1\<rparr>"
  show "i < length (executors s)" "snd (executors s ! i) = Looping"
    using assms by (auto simp: Run_done_def split: if_splits)
  then show "s' = (if total_tasks ?s1 = 0 then ?s1\<lparr>notified := joining ?s1\<rparr> else ?s1)"
    using assms by (simp add: Run_done_def Let_def split: if_splits)
qed simp_all

lemma AmqpServer_ok: "server_ok AmqpServer"
  by (simp add: server_ok_def AmqpServer_def unfinished_def)

lemma Start_ok: "server_ok s \<Longrightarrow> server_ok (snd (Start s))"
proof -
  have "length (filter (\<lambda>x. snd x \<noteq> Finished) (map (\<lambda>x. (fst x, Looping)) xs)) =
      length (filter (\<lambda>x. snd x \<noteq> Finished) xs)" if "\<forall>x\<in>set xs. snd x = Pending" for xs :: "(nat \<times> phase) list"
    using that by (induction xs) auto
  then show "server_ok s \<Longrightarrow> server_ok (snd (Start s))"
    by (auto simp: server_ok_def Start_def unfinished_def comp_def split: server_state.split)
qed

lemma Stop_ok: "server_ok s \<Longrightarrow> server_ok (snd (Stop s))"
  by (auto simp: server_ok_def Stop_def unfinished_def split: server_state.split)

lemma Join_ok: "server_ok s \<Longrightarrow> \<not> joining s \<Longrightarrow> server_ok (snd (Join s))"
  by (auto simp: server_ok_def Join_def unfinished_def split: server_state.split)

lemma Insert_ok: "server_ok s \<Longrightarrow> \<not> joining s \<Longrightarrow> server_ok (snd (InsertAsyncService v s))"
  by (auto simp: server_ok_def InsertAsyncService_def list_ex_iff unfinished_def)

lemma Run_done_ok:
  assumes ok: "server_ok s" and r: "Run_done i s = Some s'"
  shows "server_ok s'"
  using r
proof (rule Run_done_cases)
  fix s1
  assume i: "i < length (executors s)" "snd (executors s ! i) = Looping"
    and s1: "executors s1 = (executors s)[i := (fst (executors s ! i), Finished)]"
      "total_tasks s1 = total_tasks s - 1" "server_state s1 = server_state s"
      "joining s1 = joining s" "notified s1 = notified s"
    and s': "s' = (if total_tasks s1 = 0 then s1\<lparr>notified := joining s1\<rparr> else s1)"
  have fewer: "unfinished s = Suc (unfinished s1)"
    using i filter_update [of i "executors s" "\<lambda>x. snd x \<noteq> Finished" "(fst (executors s ! i), Finished)"]
    by (simp add: unfinished_def s1)
  have names: "map fst (executors s1) = map fst (executors s)"
    using i by (simp add: s1 map_update) (metis list_update_id nth_map)
  have started: "server_state s \<noteq> NEW" using ok i by (auto simp: server_ok_def dest: nth_mem)
  have un: "unfinished s' = unfinished s1" by (simp add: s' unfinished_def)
  have "\<not> notified s" using ok fewer by (auto simp: server_ok_def)
  moreover have "total_tasks s' = int (unfinished s')" "distinct (map fst (executors s'))"
    using ok fewer names un by (simp_all add: server_ok_def s' s1)
  moreover have "notified s' = (joining s' \<and> unfinished s' = 0)" "server_state s' \<noteq> NEW"
    using calculation started un by (auto simp: s' s1)
  ultimately show "server_ok s'" by (auto simp: server_ok_def)
qed

lemma Join_wakes_ok: "server_ok s \<Longrightarrow> Join_wakes s = Some s' \<Longrightarrow> server_ok s'"
  by (auto simp: server_ok_def Join_wakes_def unfinished_def split: if_splits)

lemma server_step_ok: "server_ok s \<Longrightarrow> server_step a s = Some s' \<Longrightarrow> server_ok s'"
  by (cases a)
    (fastforce split: if_splits simp: RemoveAsyncService_def
      intro: Start_ok Stop_ok Join_ok Insert_ok Run_done_ok Join_wakes_ok)+

lemma server_reachable_ok: "server_reachable s \<Longrightarrow> server_ok s"
  by (induction rule: server_reachable.induct) (auto simp: AmqpServer_ok intro: server_step_ok)

lemma server_run_reachable: "server_reachable s \<Longrightarrow> server_run as s = Some s' \<Longrightarrow> server_reachable s'"
proof (induction as arbitrary: s)
  case (Cons a as)
  then show ?case by (cases "server_step a s") (auto intro: server_reachable.step)
qed simp

lemma server_run_append:
  "server_run (as @ bs) s = (case server_run as s of None \<Rightarrow> None | Some s' \<Rightarrow> server_run bs s')"
proof (induction as arbitrary: s)
  case (Cons a as)
  then show ?case by (cases "server_step a s") auto
qed simp

text \<open>An executor that was not started when the server left \<open>NEW\<close> stays so.\<close>

lemma pending_step:
  assumes ok: "server_ok s" and p: "server_state s \<noteq> NEW" "(v, Pending) \<in> set (executors s)"
    and step: "server_step a s = Some s'"
  shows "server_state s' \<noteq> NEW \<and> (v, Pending) \<in> set (executors s') \<and> (joining s \<longrightarrow> joining s')"
proof -
  have un: "unfinished s > 0" using p(2) by (force simp: unfinished_pos)
  show ?thesis
  proof (cases a)
    case (DoDone i)
    with step have "Run_done i s = Some s'" by simp
    then show ?thesis
    proof (rule Run_done_cases)
      fix s1
      assume i: "i < length (executors s)" "snd (executors s ! i) = Looping"
        and s1: "executors s1 = (executors s)[i := (fst (executors s ! i), Finished)]"
          "server_state s1 = server_state s" "joining s1 = joining s"
        and s': "s' = (if total_tasks s1 = 0 then s1\<lparr>notified := joining s1\<rparr> else s1)"
      obtain j where j: "j < length (executors s)" "executors s ! j = (v, Pending)"
        using p(2) by (auto simp: in_set_conv_nth)
      with i have "j \<noteq> i" by auto
      with j have "(v, Pending) \<in> set (executors s1)"
        unfolding s1(1) by (metis length_list_update nth_list_update_neq nth_mem)
      with p(1) s1 show ?thesis by (simp add: s')
    qed
  next
    case DoWake
    with step ok un show ?thesis by (auto simp: Join_wakes_def server_ok_def split: if_splits)
  qed (use step p in \<open>auto simp: Start_def Stop_def Join_def InsertAsyncService_def RemoveAsyncService_def
      split: server_state.splits if_splits\<close>)
qed

lemma pending_run:
  assumes "server_reachable s" and "server_state s \<noteq> NEW" and "(v, Pending) \<in> set (executors s)"
    and "server_run as s = Some s'"
  shows "server_state s' \<noteq> NEW \<and> (v, Pending) \<in> set (executors s') \<and> (joining s \<longrightarrow> joining s')"
  using assms
proof (induction as arbitrary: s)
  case (Cons a as)
  then obtain t where t: "server_step a s = Some t" "server_run as t = Some s'"
    by (cases "server_step a s") auto
  from pending_step [OF server_reachable_ok [OF Cons.prems(1)] Cons.prems(2,3) t(1)]
  show ?case using Cons.IH [OF server_reachable.step [OF Cons.prems(1) t(1)] _ _ t(2)] by blast
qed simp

lemma joined_or_stuck:
  assumes "server_reachable s" and "joining s" and "(v, Pending) \<in> set (executors s)"
    and "server_run as s = Some s'"
  shows "joining s'"
  using pending_run [OF assms(1) _ assms(3,4)] server_reachable_ok [OF assms(1)] assms(2)
  by (auto simp: server_ok_def)

text \<open>The program of \<^verbatim>\<open>amqp_consumer_server.cc\<close>: two services, started and joined; when both loops have
  returned, in either order, the destructor's \<open>Stop\<close> and \<open>Join\<close> return at once.\<close>

definition main_calls :: "nat \<Rightarrow> nat \<Rightarrow> server_action list" where
  "main_calls epub_info_service transcoder_service =
     [DoInsert epub_info_service, DoInsert transcoder_service, DoStart, DoJoin]"

lemma main_returns:
  assumes "a \<noteq> b" and "ds = [DoDone 0, DoDone 1] \<or> ds = [DoDone 1, DoDone 0]"
  shows "map_option joining (server_run (main_calls a b) AmqpServer) = Some True \<and>
    map_option (\<lambda>s. (joining s, server_state s)) (server_run (main_calls a b @ ds @ [DoWake, DoStop, DoJoin]) AmqpServer)
      = Some (False, STOPPED)"
  using assms
  by (elim disjE) (simp_all add: main_calls_def AmqpServer_def InsertAsyncService_def Start_def Join_def Run_done_def
      Join_wakes_def Stop_def Let_def)

text \<open>With only this factory registered, \<open>NewServer\<close> makes a server for the definitions that have
  \<open>amqp:\<close> anywhere and answers \<open>NOT_FOUND\<close> for the others.\<close>

lemma NewServer_amqp:
  "NewServer server_def (ServerFactory_Register n ''AMQP_SERVER'' AmqpServerFactory []) =
     (if amqp_AcceptsOptions server_def then (None, Some AmqpServer)
      else (Some \<lparr>state_code = NOT_FOUND,
              state_msg = ''No server factory registered for the given server_def:'' @ server_def\<rparr>, None))"
  by (simp add: NewServer_def ServerFactory_Register_def AmqpServerFactory_def Create_def Init_def)

lemma second_registration_ignored:
  "ServerFactory_Register n name g (ServerFactory_Register m name f fs) = ServerFactory_Register m name f fs"
  by (simp add: ServerFactory_Register_def list_ex_iff)

subsection \<open>Properties\<close>





text \<open>Destroying a server that was never started but has a service never ends: the destructor's
  \<open>Stop\<close> makes it \<open>STOPPED\<close> and its \<open>Join\<close> then waits for a service that nothing can start any more.\<close>

theorem unstarted_destructor_hangs:
  assumes "server_reachable s" and "server_state s = NEW" and "executors s \<noteq> []"
  shows "\<exists>s'. server_run [DoStop, DoJoin] s = Some s' \<and> joining s' \<and>
    (\<forall>as s''. server_run as s' = Some s'' \<longrightarrow> joining s'')"
proof -
  have inv: "total_tasks s = int (unfinished s)" "\<forall>x\<in>set (executors s). snd x = Pending" "\<not> joining s"
    using server_reachable_ok [OF assms(1)] assms(2) by (auto simp: server_ok_def)
  have "\<exists>v. (v, Pending) \<in> set (executors s)" using inv(2) assms(3) by (cases "executors s") auto
  then obtain v where v: "(v, Pending) \<in> set (executors s)" ..
  then have "unfinished s > 0" by (force simp: unfinished_pos)
  with inv assms(2) obtain s' where s': "server_run [DoStop, DoJoin] s = Some s'" "joining s'"
      "executors s' = executors s"
    by (simp add: Stop_def Join_def)
  moreover have "joining s''" if "server_run as s' = Some s''" for as s''
    using joined_or_stuck [OF server_run_reachable [OF assms(1) s'(1)] s'(2) _ that] v s'(3) by auto
  ultimately show ?thesis by blast
qed

theorem unstarted_destructor_hangs_witness:
  "\<exists>s'. server_run [DoInsert 7, DoStop, DoJoin] AmqpServer = Some s' \<and> joining s' \<and>
    (\<forall>as s''. server_run as s' = Some s'' \<longrightarrow> joining s'')"
proof -
  obtain s where s: "server_run [DoInsert 7] AmqpServer = Some s" "server_state s = NEW" "executors s \<noteq> []"
    by (simp add: AmqpServer_def InsertAsyncService_def)
  from unstarted_destructor_hangs [OF server_run_reachable [OF server_reachable.created s(1)] s(2,3)]
  show ?thesis using server_run_append [of "[DoInsert 7]" "[DoStop, DoJoin]" AmqpServer] s(1) by simp
qed

end
