(* ===== verification/Mysql_Result.thy ===== *)
theory Mysql_Result
  imports Numbers Time_Base
begin

text \<open>
  \<^verbatim>\<open>db/backend/db_result.cc\<close> and the results of the MySQL driver, \<^verbatim>\<open>mysql_direct_result.h\<close>/\<^verbatim>\<open>.cc\<close> and
  \<^verbatim>\<open>mysql_prepared_result.h\<close>/\<^verbatim>\<open>.cc\<close>. A cell of a result set is a text or NULL. What the client library
  answers is an argument: the rows it hands out one after the other, and how it fills the buffers that
  are bound to a column. \<open>None\<close> is a failed \<open>DCHECK\<close> or an invalid memory access.
\<close>

type_synonym cell = "string option"

datatype next_row_status = kLastRowReached | kNextRowExists | kNextRowUnknown

definition in_columns :: "int \<Rightarrow> nat \<Rightarrow> bool" where
  "in_columns col n = (0 \<le> col \<and> col < int n)"

text \<open>The text of a fetched cell as a number: whether it was one, and the value stored.\<close>

definition fetch_number :: "int_type \<Rightarrow> cell \<Rightarrow> (bool \<times> int option) option" where
  "fetch_number T c =
     (case c of None \<Rightarrow> Some (False, None) | Some str \<Rightarrow> map_option (\<lambda>(ret, v). (ret, Some v)) (StringAsValue T str))"

text \<open>\<open>strptime\<close> in the local time zone followed by \<open>mktime\<close> is the argument \<open>to_seconds\<close>.\<close>

definition ParseTimeString :: "(string \<Rightarrow> int option) \<Rightarrow> string \<Rightarrow> Time option option" where
  "ParseTimeString to_seconds str =
     (if str = [] \<or> hd str = chr_of 0 then Some None
      else case to_seconds (takeWhile (\<lambda>c. c \<noteq> chr_of 0) str) of
             None \<Rightarrow> Some None
           | Some sec \<Rightarrow> map_option Some (FromTimeval \<lparr>val_sec = sec, val_usec = 0\<rparr>))"

subsection \<open>The result of a direct statement\<close>

record direct_result =
  native_result :: "(string list \<times> cell list list) option"
  dr_columns :: nat
  dr_current_row :: nat
  dr_cursor :: "cell list list"
  native_row :: "cell list option"

definition MysqlDirectResult :: "(string list \<times> cell list list) option \<Rightarrow> nat \<Rightarrow> direct_result option" where
  "MysqlDirectResult stored field_count =
     (case stored of
        None \<Rightarrow> if field_count \<noteq> 0
                then Some \<lparr>native_result = None, dr_columns = field_count, dr_current_row = 0, dr_cursor = [],
                           native_row = None\<rparr>
                else None
      | Some (names, rows) \<Rightarrow>
          Some \<lparr>native_result = stored, dr_columns = length names, dr_current_row = 0, dr_cursor = rows,
                native_row = None\<rparr>)"

definition direct_At :: "int \<Rightarrow> direct_result \<Rightarrow> cell option" where
  "direct_At col r =
     (if native_result r \<noteq> None \<and> in_columns col (dr_columns r)
      then map_option (\<lambda>row. row ! nat col) (native_row r) else None)"

definition direct_At_len :: "int \<Rightarrow> direct_result \<Rightarrow> cell option" where
  "direct_At_len col r =
     (if native_result r \<noteq> None \<and> col > 0 \<and> col < int (dr_columns r)
      then map_option (\<lambda>row. row ! nat col) (native_row r) else None)"

definition direct_DoFetch :: "int_type \<Rightarrow> int \<Rightarrow> direct_result \<Rightarrow> (bool \<times> int option) option" where
  "direct_DoFetch T col r = do { c \<leftarrow> direct_At_len col r; fetch_number T c }"

definition direct_HasNext :: "direct_result \<Rightarrow> next_row_status" where
  "direct_HasNext r =
     (case native_result r of None \<Rightarrow> kLastRowReached
      | Some (names, rows) \<Rightarrow> if dr_current_row r \<ge> length rows then kLastRowReached else kNextRowExists)"

definition direct_Next :: "direct_result \<Rightarrow> (bool \<times> direct_result) option" where
  "direct_Next r =
     (if native_result r = None then Some (False, r)
      else let r = r\<lparr>dr_current_row := (dr_current_row r + 1) mod 2 ^ 32\<rparr> in
           Some (case dr_cursor r of
                   [] \<Rightarrow> (False, r\<lparr>native_row := None\<rparr>)
                 | row # rows \<Rightarrow> (True, r\<lparr>native_row := Some row, dr_cursor := rows\<rparr>)))"

definition direct_Fetch :: "int \<Rightarrow> direct_result \<Rightarrow> cell option" where
  "direct_Fetch col r = direct_At_len col r"

definition direct_Fetch_time :: "(string \<Rightarrow> int option) \<Rightarrow> int \<Rightarrow> direct_result \<Rightarrow> Time option option" where
  "direct_Fetch_time to_seconds col r =
     do { c \<leftarrow> direct_At_len col r;
          (case c of None \<Rightarrow> Some None | Some str \<Rightarrow> ParseTimeString to_seconds str) }"

definition direct_IsNull :: "int \<Rightarrow> direct_result \<Rightarrow> bool option" where
  "direct_IsNull col r = map_option (\<lambda>c. c = None) (direct_At col r)"

definition direct_Columns :: "direct_result \<Rightarrow> int" where
  "direct_Columns r = int (dr_columns r)"

fun name_index :: "int \<Rightarrow> string list \<Rightarrow> string \<Rightarrow> int" where
  "name_index i [] name = - 1"
| "name_index i (f # names) name = (if name = f then i else name_index (i + 1) names name)"

definition direct_ColumnToName :: "int \<Rightarrow> direct_result \<Rightarrow> string option" where
  "direct_ColumnToName col r =
     (case native_result r of None \<Rightarrow> None
      | Some (names, rows) \<Rightarrow>
          if 0 \<le> col \<and> col \<le> int (dr_columns r)
          then if nat col < length names then Some (names ! nat col) else None
          else None)"

definition direct_NameToColumn :: "string \<Rightarrow> direct_result \<Rightarrow> int option" where
  "direct_NameToColumn name r =
     (case native_result r of None \<Rightarrow> None | Some (names, rows) \<Rightarrow> Some (name_index 0 names name))"

subsection \<open>The result of a prepared statement\<close>

definition kBindDataBufferLength :: nat where "kBindDataBufferLength = 128"

datatype bind_ptr = NoBuffer | FixedBuffer | VectorBuffer

record bind_data =
  buf :: string
  vbuf :: string
  ptr :: bind_ptr
  bd_length :: nat
  bd_is_null :: bool
  bd_error :: bool

text \<open>How the library fills a buffer of a given size: its content, the length of the value, whether it
  is NULL and whether it was truncated.\<close>

type_synonym fill = "cell \<Rightarrow> nat \<Rightarrow> string \<times> nat \<times> bool \<times> bool"

text \<open>The rows to come, where \<open>None\<close> stands for a fetch that reports an error.\<close>

record prepared_result =
  pr_columns :: nat
  pr_names :: "string list"
  pr_num_rows :: nat
  pr_current_row :: nat
  pr_cursor :: "cell list option list"
  bind_data :: "bind_data list"

definition MysqlPreparedResult :: "string list \<Rightarrow> cell list option list \<Rightarrow> prepared_result" where
  "MysqlPreparedResult names rows =
     \<lparr>pr_columns = length names, pr_names = names, pr_num_rows = length rows, pr_current_row = 0,
      pr_cursor = rows, bind_data = []\<rparr>"

definition BindData :: bind_data where
  "BindData = \<lparr>buf = replicate kBindDataBufferLength (chr_of 0), vbuf = [], ptr = NoBuffer, bd_length = 0,
     bd_is_null = False, bd_error = False\<rparr>"

definition result_Reset :: "prepared_result \<Rightarrow> prepared_result" where
  "result_Reset r = r\<lparr>bind_data := replicate (pr_columns r) (BindData\<lparr>ptr := FixedBuffer\<rparr>)\<rparr>"

definition prepared_At :: "int \<Rightarrow> prepared_result \<Rightarrow> bind_data option" where
  "prepared_At col r =
     (if in_columns col (pr_columns r) \<and> bind_data r \<noteq> [] then Some (bind_data r ! nat col) else None)"

text \<open>The bytes a fetch copies out of the buffer.\<close>

definition bound_text :: "bind_data \<Rightarrow> string option" where
  "bound_text b =
     (case ptr b of
        NoBuffer \<Rightarrow> None
      | FixedBuffer \<Rightarrow> if bd_length b \<le> length (buf b) then Some (take (bd_length b) (buf b)) else None
      | VectorBuffer \<Rightarrow> if bd_length b \<le> length (vbuf b) then Some (take (bd_length b) (vbuf b)) else None)"

definition prepared_Fetch :: "int \<Rightarrow> prepared_result \<Rightarrow> cell option" where
  "prepared_Fetch col r =
     do { b \<leftarrow> prepared_At col r; if bd_is_null b then Some None else map_option Some (bound_text b) }"

definition prepared_DoFetch :: "int_type \<Rightarrow> int \<Rightarrow> prepared_result \<Rightarrow> (bool \<times> int option) option" where
  "prepared_DoFetch T col r =
     do { b \<leftarrow> prepared_At col r;
          if bd_is_null b then Some (False, None)
          else do { str \<leftarrow> bound_text b; fetch_number T (Some str) } }"

definition prepared_HasNext :: "prepared_result \<Rightarrow> next_row_status" where
  "prepared_HasNext r = (if pr_current_row r \<ge> pr_num_rows r then kLastRowReached else kNextRowExists)"

text \<open>\<open>mysql_stmt_fetch\<close> into the fixed buffers, then \<open>mysql_stmt_fetch_column\<close> into a vector of the
  value's length for each column that was truncated.\<close>

definition fill_fixed :: "fill \<Rightarrow> cell \<Rightarrow> bind_data \<Rightarrow> bind_data" where
  "fill_fixed fill c b =
     (case fill c (length (buf b)) of (content, len, null, err) \<Rightarrow>
        b\<lparr>buf := content, bd_length := len, bd_is_null := null, bd_error := err\<rparr>)"

definition refetch :: "fill \<Rightarrow> cell \<Rightarrow> bind_data \<Rightarrow> bind_data" where
  "refetch fill c b =
     (if bd_error b \<and> \<not> bd_is_null b \<and> bd_length b \<ge> kBindDataBufferLength
      then (case fill c (bd_length b) of (content, len, null, err) \<Rightarrow>
              b\<lparr>vbuf := content, bd_length := len, bd_is_null := null, bd_error := err, ptr := VectorBuffer\<rparr>)
      else b)"

definition prepared_Next :: "fill \<Rightarrow> prepared_result \<Rightarrow> (bool \<times> prepared_result) option" where
  "prepared_Next fill r =
     (let r = result_Reset (r\<lparr>pr_current_row := (pr_current_row r + 1) mod 2 ^ 32\<rparr>) in
      Some (case pr_cursor r of
              [] \<Rightarrow> (False, r)
            | None # rows \<Rightarrow> (True, r\<lparr>pr_cursor := rows\<rparr>)
            | Some row # rows \<Rightarrow>
                let bs = map2 (fill_fixed fill) row (bind_data r);
                    bs = (if list_ex bd_error bs then map2 (refetch fill) row bs else bs)
                in (True, r\<lparr>pr_cursor := rows, bind_data := bs\<rparr>)))"

definition prepared_Fetch_time :: "(string \<Rightarrow> int option) \<Rightarrow> int \<Rightarrow> prepared_result \<Rightarrow> Time option option" where
  "prepared_Fetch_time to_seconds col r =
     do { c \<leftarrow> prepared_Fetch col r;
          (case c of None \<Rightarrow> Some None | Some str \<Rightarrow> ParseTimeString to_seconds str) }"

definition prepared_IsNull :: "int \<Rightarrow> prepared_result \<Rightarrow> bool option" where
  "prepared_IsNull col r = map_option bd_is_null (prepared_At col r)"

definition prepared_Columns :: "prepared_result \<Rightarrow> int" where
  "prepared_Columns r = int (pr_columns r)"

definition prepared_ColumnToName :: "int \<Rightarrow> prepared_result \<Rightarrow> string option" where
  "prepared_ColumnToName col r =
     (if in_columns col (pr_columns r) then Some (pr_names r ! nat col) else None)"

definition prepared_NameToColumn :: "string \<Rightarrow> prepared_result \<Rightarrow> int" where
  "prepared_NameToColumn name r = name_index 0 (pr_names r) name"

subsection \<open>The contract of a result\<close>

text \<open>What the frontend relies on: the rows come one after the other, \<open>HasNext\<close> knows whether one is left,
  and the readable columns of the current row are fetched as they are.\<close>

locale row_source =
  fixes nxt :: "'r \<Rightarrow> (bool \<times> 'r) option"
    and has_nxt :: "'r \<Rightarrow> next_row_status"
    and get_cell :: "int \<Rightarrow> 'r \<Rightarrow> cell option"
    and columns :: "'r \<Rightarrow> int"
    and pending :: "'r \<Rightarrow> cell list list"
    and ok :: "'r \<Rightarrow> bool"
    and readable :: "int \<Rightarrow> bool"
  assumes nxt_row: "\<lbrakk>ok r; pending r = row # rows\<rbrakk> \<Longrightarrow>
      \<exists>r'. nxt r = Some (True, r') \<and> ok r' \<and> pending r' = rows \<and> columns r' = columns r \<and>
        (\<forall>c. in_columns c (nat (columns r)) \<longrightarrow> readable c \<longrightarrow> get_cell c r' = Some (row ! nat c))"
    and nxt_end: "\<lbrakk>ok r; pending r = []\<rbrakk> \<Longrightarrow> \<exists>r'. nxt r = Some (False, r')"
    and has_nxt_iff: "ok r \<Longrightarrow> has_nxt r = (if pending r = [] then kLastRowReached else kNextRowExists)"
begin

lemma has_nxt_after:
  assumes "ok r" and "pending r = row # rows"
  obtains r' where "nxt r = Some (True, r')" "ok r'" "pending r' = rows" "columns r' = columns r"
    "\<And>c. \<lbrakk>in_columns c (nat (columns r)); readable c\<rbrakk> \<Longrightarrow> get_cell c r' = Some (row ! nat c)"
    "has_nxt r' = (if rows = [] then kLastRowReached else kNextRowExists)"
  using nxt_row [OF assms] has_nxt_iff by metis

end

subsection \<open>Both results keep it\<close>

definition direct_ok :: "direct_result \<Rightarrow> bool" where
  "direct_ok r \<longleftrightarrow>
     (\<exists>names rows. native_result r = Some (names, rows) \<and> dr_columns r = length names \<and> length rows < 2 ^ 32 \<and>
        dr_current_row r + length (dr_cursor r) = length rows \<and> (\<forall>row\<in>set (dr_cursor r). length row = length names))"

interpretation direct_rows: row_source direct_Next direct_HasNext direct_Fetch direct_Columns dr_cursor direct_ok "\<lambda>c. c > 0"
proof
  fix r row rows
  assume ok: "direct_ok r" and c: "dr_cursor r = row # rows"
  then obtain names all where r: "native_result r = Some (names, all)" "dr_columns r = length names"
    "dr_current_row r + length (dr_cursor r) = length all" "length all < 2 ^ 32"
    "\<forall>row\<in>set (dr_cursor r). length row = length names"
    by (auto simp: direct_ok_def)
  let ?r = "r\<lparr>dr_current_row := dr_current_row r + 1, native_row := Some row, dr_cursor := rows\<rparr>"
  have "(dr_current_row r + 1) mod 2 ^ 32 = dr_current_row r + 1" using r(3,4) c by simp
  then have "direct_Next r = Some (True, ?r)" using r(1) c by (simp add: direct_Next_def Let_def)
  moreover have "direct_ok ?r" using r c by (auto simp: direct_ok_def)
  moreover have "get = Some (row ! nat col)"
    if "in_columns col (nat (direct_Columns r))" "col > 0" "get = direct_Fetch col ?r" for col get
    using that r by (simp add: direct_Fetch_def direct_At_len_def in_columns_def direct_Columns_def)
  ultimately show "\<exists>r'. direct_Next r = Some (True, r') \<and> direct_ok r' \<and> dr_cursor r' = rows \<and>
      direct_Columns r' = direct_Columns r \<and>
      (\<forall>c. in_columns c (nat (direct_Columns r)) \<longrightarrow> c > 0 \<longrightarrow> direct_Fetch c r' = Some (row ! nat c))"
    by (intro exI [of _ ?r]) (simp add: direct_Columns_def)
next
  fix r assume "direct_ok r" "dr_cursor r = []"
  then show "\<exists>r'. direct_Next r = Some (False, r')" by (auto simp: direct_ok_def direct_Next_def Let_def)
next
  fix r assume "direct_ok r"
  then show "direct_HasNext r = (if dr_cursor r = [] then kLastRowReached else kNextRowExists)"
    by (cases "dr_cursor r") (auto simp: direct_ok_def direct_HasNext_def)
qed

text \<open>The documented behaviour of the client library's fetch into a buffer of \<open>n\<close> bytes.\<close>

definition fills_buffers :: "fill \<Rightarrow> bool" where
  "fills_buffers fill \<longleftrightarrow> (\<forall>c n. case fill c n of (content, len, null, err) \<Rightarrow>
     length content = n \<and>
     (case c of None \<Rightarrow> null
      | Some s \<Rightarrow> \<not> null \<and> len = length s \<and> (err \<longleftrightarrow> n < length s) \<and> take (length s) content = take n s))"

definition prepared_ok :: "prepared_result \<Rightarrow> bool" where
  "prepared_ok r \<longleftrightarrow> None \<notin> set (pr_cursor r) \<and> pr_num_rows r < 2 ^ 32 \<and>
     pr_current_row r + length (pr_cursor r) = pr_num_rows r \<and>
     (\<forall>row. Some row \<in> set (pr_cursor r) \<longrightarrow> length row = pr_columns r)"

definition filled :: "fill \<Rightarrow> bool \<Rightarrow> cell \<Rightarrow> bind_data \<Rightarrow> bind_data" where
  "filled fill again c b = (let b = fill_fixed fill c b in if again then refetch fill c b else b)"

lemma fills_buffersD:
  assumes "fills_buffers fill" and "fill c n = (content, len, null, err)"
  shows "length content = n \<and>
     (case c of None \<Rightarrow> null
      | Some s \<Rightarrow> \<not> null \<and> len = length s \<and> (err \<longleftrightarrow> n < length s) \<and> take (length s) content = take n s)"
  using assms unfolding fills_buffers_def by (auto dest!: spec [where x = c] spec [where x = n])

lemma filled_text:
  assumes fill: "fills_buffers fill" and b: "ptr b = FixedBuffer" "length (buf b) = kBindDataBufferLength"
    and again: "bd_error (fill_fixed fill c b) \<longrightarrow> again"
  shows "(if bd_is_null (filled fill again c b) then Some None else map_option Some (bound_text (filled fill again c b))) = Some c"
proof -
  obtain content len null err where f: "fill c kBindDataBufferLength = (content, len, null, err)"
    by (metis prod_cases4)
  note d = fills_buffersD [OF fill f]
  show ?thesis
  proof (cases c)
    case None
    with d f b show ?thesis by (simp add: filled_def Let_def fill_fixed_def refetch_def)
  next
    case (Some s)
    show ?thesis
    proof (cases err)
      case False
      with d f b Some show ?thesis by (simp add: filled_def Let_def fill_fixed_def refetch_def bound_text_def)
    next
      case True
      obtain content' len' null' err' where g: "fill c (length s) = (content', len', null', err')"
        by (metis prod_cases4)
      have "length content' = length s" "\<not> null'" "len' = length s" "take (length s) content' = s"
        using fills_buffersD [OF fill g] Some by simp_all
      with d f b Some True again g show ?thesis
        by (simp add: filled_def Let_def fill_fixed_def refetch_def bound_text_def)
    qed
  qed
qed

lemma prepared_Next_row:
  assumes fill: "fills_buffers fill" and row: "length row = pr_columns r"
    and c: "pr_cursor r = Some row # rows" "pr_current_row r + 1 < 2 ^ 32"
  shows "\<exists>r'. prepared_Next fill r = Some (True, r') \<and> pr_columns r' = pr_columns r \<and>
    pr_num_rows r' = pr_num_rows r \<and> pr_current_row r' = pr_current_row r + 1 \<and> pr_cursor r' = rows \<and>
    (\<forall>col. in_columns col (pr_columns r) \<longrightarrow> prepared_Fetch col r' = Some (row ! nat col))"
proof -
  let ?b = "BindData\<lparr>ptr := FixedBuffer\<rparr>"
  define r1 where "r1 = result_Reset (r\<lparr>pr_current_row := pr_current_row r + 1\<rparr>)"
  have r1: "bind_data r1 = replicate (pr_columns r) ?b" "pr_cursor r1 = Some row # rows"
      "pr_columns r1 = pr_columns r" "pr_num_rows r1 = pr_num_rows r" "pr_current_row r1 = pr_current_row r + 1"
    using c by (simp_all add: r1_def result_Reset_def)
  define bs where "bs = map2 (fill_fixed fill) row (bind_data r1)"
  define again where "again = list_ex bd_error bs"
  define bs' where "bs' = (if again then map2 (refetch fill) row bs else bs)"
  have nth: "bs' ! i = filled fill again (row ! i) ?b \<and> (bd_error (fill_fixed fill (row ! i) ?b) \<longrightarrow> again)"
    if "i < pr_columns r" for i
  proof -
    have "bs ! i = fill_fixed fill (row ! i) ?b" "i < length bs" using that row by (simp_all add: bs_def r1)
    moreover from this have "bd_error (fill_fixed fill (row ! i) ?b) \<longrightarrow> again"
      unfolding again_def by (metis list_ex_length)
    ultimately show ?thesis using that row by (simp add: bs'_def filled_def Let_def bs_def r1)
  qed
  have ne: "bs' \<noteq> []" if "in_columns col (pr_columns r)" for col
    using that row by (auto simp: bs'_def bs_def r1 in_columns_def zip_eq_Nil_iff)
  let ?r' = "r1\<lparr>pr_cursor := rows, bind_data := bs'\<rparr>"
  have "(pr_current_row r + 1) mod 2 ^ 32 = pr_current_row r + 1" using c(2) by simp
  then have reset: "result_Reset (r\<lparr>pr_current_row := (pr_current_row r + 1) mod 2 ^ 32\<rparr>) = r1"
    by (simp only: r1_def)
  have "prepared_Next fill r = Some (True, ?r')"
    unfolding prepared_Next_def reset Let_def r1(2) bs'_def again_def bs_def by simp
  moreover have "prepared_Fetch col ?r' = Some (row ! nat col)" if col: "in_columns col (pr_columns r)" for col
  proof -
    have i: "nat col < pr_columns r" using col by (auto simp: in_columns_def)
    have "prepared_At col ?r' = Some (bs' ! nat col)" using col ne [OF col] by (simp add: prepared_At_def r1)
    moreover have "ptr ?b = FixedBuffer" "length (buf ?b) = kBindDataBufferLength"
      by (simp_all add: BindData_def)
    ultimately show ?thesis
      using filled_text [OF fill, of ?b "row ! nat col" again] nth [OF i] by (simp add: prepared_Fetch_def)
  qed
  ultimately show ?thesis using r1 by (intro exI [of _ ?r']) simp
qed

interpretation prepared_rows: row_source "prepared_Next fill" prepared_HasNext prepared_Fetch prepared_Columns
    "\<lambda>r. map the (pr_cursor r)" "\<lambda>r. fills_buffers fill \<and> prepared_ok r" "\<lambda>_. True" for fill
proof
  fix r row rows
  assume ok: "fills_buffers fill \<and> prepared_ok r" and p: "map the (pr_cursor r) = row # rows"
  then obtain cur where cur: "pr_cursor r = Some row # cur" "rows = map the cur"
    by (cases "pr_cursor r") (auto simp: prepared_ok_def)
  with ok have len: "length row = pr_columns r" "pr_current_row r + 1 < 2 ^ 32"
    by (auto simp: prepared_ok_def)
  from prepared_Next_row [OF _ len(1) cur(1) len(2)] ok obtain r' where r':
    "prepared_Next fill r = Some (True, r')" "pr_columns r' = pr_columns r" "pr_num_rows r' = pr_num_rows r"
    "pr_current_row r' = pr_current_row r + 1" "pr_cursor r' = cur"
    "\<forall>col. in_columns col (pr_columns r) \<longrightarrow> prepared_Fetch col r' = Some (row ! nat col)" by blast
  moreover have "prepared_ok r'" using ok r' cur by (auto simp: prepared_ok_def)
  ultimately show "\<exists>r'. prepared_Next fill r = Some (True, r') \<and> (fills_buffers fill \<and> prepared_ok r') \<and>
      map the (pr_cursor r') = rows \<and> prepared_Columns r' = prepared_Columns r \<and>
      (\<forall>c. in_columns c (nat (prepared_Columns r)) \<longrightarrow> True \<longrightarrow> prepared_Fetch c r' = Some (row ! nat c))"
    using ok cur by (simp add: prepared_Columns_def)
next
  fix r assume "fills_buffers fill \<and> prepared_ok r" "map the (pr_cursor r) = []"
  then show "\<exists>r'. prepared_Next fill r = Some (False, r')"
    by (simp add: prepared_Next_def Let_def result_Reset_def)
next
  fix r assume "fills_buffers fill \<and> prepared_ok r"
  then show "prepared_HasNext r = (if map the (pr_cursor r) = [] then kLastRowReached else kNextRowExists)"
    by (cases "pr_cursor r") (auto simp: prepared_ok_def prepared_HasNext_def)
qed

text \<open>The quirks: the first column of a direct result cannot be fetched, and a failed fetch of a prepared
  result is a row of empty texts.\<close>

lemma direct_first_column: "direct_Fetch 0 r = None" "direct_DoFetch T 0 r = None"
  by (simp_all add: direct_Fetch_def direct_At_len_def direct_DoFetch_def)

lemma failed_fetch_is_a_row:
  assumes "pr_cursor r = None # rows" and "in_columns col (pr_columns r)"
  shows "\<exists>r'. prepared_Next fill r = Some (True, r') \<and> prepared_Fetch col r' = Some (Some [])"
  using assms
  by (auto simp: prepared_Next_def Let_def result_Reset_def prepared_Fetch_def prepared_At_def bound_text_def
      BindData_def in_columns_def)

end
