(* ===== verification/Frontend.thy ===== *)
theory Frontend
  imports Mysql_Result Stmt_Cache
begin

text \<open>
  The database frontend, \<^verbatim>\<open>db/frontend/\<close>: \<open>Result\<close>, \<open>Statement\<close>, \<open>Session\<close> and \<open>Transaction\<close> over a backend
  result, statement and connection, whose operations are arguments. A backend operation that throws is
  \<open>None\<close> (or \<open>Inl\<close> where the code's own exceptions matter); a call through a null pointer is \<open>None\<close> of the
  outermost option. Copies share the backend objects through reference counts; here each object is used
  through one handle.
\<close>

datatype db_error = InvalidColumn | EmptyRowAccess | MultipleRowsQuery | NullValueFetch | BackendError

subsection \<open>Result\<close>

record 'r result =
  eof :: bool
  fetched :: bool
  current_column :: int
  db_result :: "'r option"

definition Result :: "'r option \<Rightarrow> 'r result" where
  "Result d = \<lparr>eof = False, fetched = False, current_column = 0, db_result = d\<rparr>"

definition Result_Columns :: "('r \<Rightarrow> int) \<Rightarrow> 'r result \<Rightarrow> int option" where
  "Result_Columns columns r = map_option columns (db_result r)"

definition Result_Next :: "('r \<Rightarrow> (bool \<times> 'r) option) \<Rightarrow> 'r result \<Rightarrow> (bool \<times> 'r result) option" where
  "Result_Next nxt r =
     (if eof r then Some (False, r)
      else do {
        d \<leftarrow> db_result r;
        (b, d) \<leftarrow> nxt d;
        Some (b, r\<lparr>fetched := True, eof := \<not> b, current_column := 0, db_result := Some d\<rparr>) })"

text \<open>\<open>Index\<close> makes the exception for a name that is no column but does not throw it.\<close>

definition Index :: "(string \<Rightarrow> 'r \<Rightarrow> int) \<Rightarrow> string \<Rightarrow> 'r result \<Rightarrow> int option" where
  "Index name_to_column name r = map_option (name_to_column name) (db_result r)"

definition Name_of :: "('r \<Rightarrow> int) \<Rightarrow> (int \<Rightarrow> 'r \<Rightarrow> string option) \<Rightarrow> int \<Rightarrow> 'r result \<Rightarrow> (db_error + string) option" where
  "Name_of columns column_to_name col r =
     do { n \<leftarrow> Result_Columns columns r;
          if col < 0 \<or> col \<ge> n then Some (Inl InvalidColumn)
          else do { d \<leftarrow> db_result r; map_option Inr (column_to_name col d) } }"

definition FindColumn :: "(string \<Rightarrow> 'r \<Rightarrow> int) \<Rightarrow> string \<Rightarrow> 'r result \<Rightarrow> int option" where
  "FindColumn name_to_column name r =
     map_option (\<lambda>d. let c = name_to_column name d in if c < 0 then - 1 else c) (db_result r)"

definition RewindColumn :: "'r result \<Rightarrow> 'r result" where
  "RewindColumn r = r\<lparr>current_column := 0\<rparr>"

definition Result_Empty :: "'r result \<Rightarrow> bool" where
  "Result_Empty r = (if db_result r = None then True else eof r \<or> \<not> fetched r)"

definition Result_Clear :: "'r result \<Rightarrow> 'r result" where
  "Result_Clear r = r\<lparr>eof := True, fetched := True, db_result := None\<rparr>"

definition Check :: "'r result \<Rightarrow> db_error + unit" where
  "Check r = (if Result_Empty r then Inl EmptyRowAccess else Inr ())"

definition Fetch_col :: "(int \<Rightarrow> 'r \<Rightarrow> 'v option) \<Rightarrow> int \<Rightarrow> 'r result \<Rightarrow> 'v option" where
  "Fetch_col fetch col r = do { d \<leftarrow> db_result r; fetch col d }"

definition Fetch_name ::
    "(string \<Rightarrow> 'r \<Rightarrow> int) \<Rightarrow> (int \<Rightarrow> 'r \<Rightarrow> 'v option) \<Rightarrow> string \<Rightarrow> 'r result \<Rightarrow> 'v option" where
  "Fetch_name name_to_column fetch name r = do { i \<leftarrow> Index name_to_column name r; Fetch_col fetch i r }"

definition Fetch_next :: "(int \<Rightarrow> 'r \<Rightarrow> 'v option) \<Rightarrow> 'r result \<Rightarrow> ('v \<times> 'r result) option" where
  "Fetch_next fetch r =
     do { d \<leftarrow> db_result r; v \<leftarrow> fetch (current_column r) d;
          Some (v, r\<lparr>current_column := current_column r + 1\<rparr>) }"

text \<open>\<open>get\<close> by name, without and with a default, and \<open>>> Into(value, tag)\<close>, for a column fetched as a cell.\<close>

definition get_name ::
    "(string \<Rightarrow> 'r \<Rightarrow> int) \<Rightarrow> (int \<Rightarrow> 'r \<Rightarrow> cell option) \<Rightarrow> string \<Rightarrow> 'r result \<Rightarrow> (db_error + string) option" where
  "get_name name_to_column fetch name r =
     map_option (\<lambda>c. case c of None \<Rightarrow> Inl NullValueFetch | Some v \<Rightarrow> Inr v)
       (Fetch_name name_to_column fetch name r)"

definition get_name_default ::
    "(string \<Rightarrow> 'r \<Rightarrow> int) \<Rightarrow> (int \<Rightarrow> 'r \<Rightarrow> cell option) \<Rightarrow> string \<Rightarrow> string \<Rightarrow> 'r result \<Rightarrow> string option" where
  "get_name_default name_to_column fetch name def r =
     map_option (\<lambda>c. case c of None \<Rightarrow> def | Some v \<Rightarrow> v) (Fetch_name name_to_column fetch name r)"

definition into_tag ::
    "(int \<Rightarrow> 'r \<Rightarrow> cell option) \<Rightarrow> string \<Rightarrow> 'r result \<Rightarrow> ((string \<times> bool) \<times> 'r result) option" where
  "into_tag fetch value r =
     map_option (\<lambda>(c, r). (case c of None \<Rightarrow> (value, False) | Some v \<Rightarrow> (v, True), r)) (Fetch_next fetch r)"

subsection \<open>Statement\<close>

record 'd statement =
  placeholder :: int
  stmt_ptr :: "'d option"

definition Statement :: "'d option \<Rightarrow> 'd statement" where
  "Statement d = \<lparr>placeholder = 1, stmt_ptr = d\<rparr>"

text \<open>The negation is missing.\<close>

definition Statement_Empty :: "'d statement \<Rightarrow> bool" where
  "Statement_Empty st = (stmt_ptr st \<noteq> None)"

definition Statement_Clear :: "'d statement \<Rightarrow> 'd statement" where
  "Statement_Clear st = st\<lparr>stmt_ptr := None\<rparr>"

definition Statement_Reset :: "('d \<Rightarrow> 'd) \<Rightarrow> 'd statement \<Rightarrow> 'd statement option" where
  "Statement_Reset reset st =
     map_option (\<lambda>d. st\<lparr>placeholder := 1, stmt_ptr := Some (reset d)\<rparr>) (stmt_ptr st)"

text \<open>Every \<open>Bind\<close> at the next placeholder, which advances also if the backend throws; the flag says
  whether it returned.\<close>

definition Bind_next :: "(int \<Rightarrow> 'd \<Rightarrow> 'd option) \<Rightarrow> 'd statement \<Rightarrow> (bool \<times> 'd statement) option" where
  "Bind_next put st =
     (case stmt_ptr st of None \<Rightarrow> None
      | Some d \<Rightarrow>
          let st = st\<lparr>placeholder := placeholder st + 1\<rparr> in
          Some (case put (placeholder st - 1) d of
                  None \<Rightarrow> (False, st)
                | Some d \<Rightarrow> (True, st\<lparr>stmt_ptr := Some d\<rparr>)))"

definition Bind_at :: "(int \<Rightarrow> 'd \<Rightarrow> 'd option) \<Rightarrow> int \<Rightarrow> 'd statement \<Rightarrow> (bool \<times> 'd statement) option" where
  "Bind_at put col st =
     (case stmt_ptr st of None \<Rightarrow> None
      | Some d \<Rightarrow> Some (case put col d of None \<Rightarrow> (False, st) | Some d \<Rightarrow> (True, st\<lparr>stmt_ptr := Some d\<rparr>)))"

text \<open>\<open><< Use(value, tag)\<close>.\<close>

definition use_tag ::
    "(int \<Rightarrow> 'd \<Rightarrow> 'd option) \<Rightarrow> (int \<Rightarrow> 'd \<Rightarrow> 'd option) \<Rightarrow> bool \<Rightarrow> 'd statement \<Rightarrow> (bool \<times> 'd statement) option" where
  "use_tag put_null put not_null st = (if \<not> not_null then Bind_next put_null st else Bind_next put st)"

text \<open>A guard that is destroyed while an exception passes makes the connection unfit for the pool.\<close>

definition guard :: "'s db_connection \<Rightarrow> (db_error + 'a) \<Rightarrow> (db_error + 'a) \<times> 's db_connection" where
  "guard conn x = (x, case x of Inl e \<Rightarrow> conn\<lparr>recyclable := False\<rparr> | Inr v \<Rightarrow> conn)"

definition throws :: "'a option \<Rightarrow> db_error + 'a" where
  "throws x = (case x of None \<Rightarrow> Inl BackendError | Some v \<Rightarrow> Inr v)"

definition Statement_Query ::
    "('d \<Rightarrow> 'r option) \<Rightarrow> 'd statement \<Rightarrow> 's db_connection \<Rightarrow>
       ((db_error + 'r result) \<times> 's db_connection) option" where
  "Statement_Query q st conn =
     map_option (\<lambda>d. guard conn (throws (map_option (\<lambda>r. Result (Some r)) (q d)))) (stmt_ptr st)"

definition Statement_Execute ::
    "('d \<Rightarrow> 'e option) \<Rightarrow> 'd statement \<Rightarrow> 's db_connection \<Rightarrow> ((db_error + 'e) \<times> 's db_connection) option" where
  "Statement_Execute execute st conn = map_option (\<lambda>d. guard conn (throws (execute d))) (stmt_ptr st)"

text \<open>The guard of \<open>Row\<close> is released before the exception for a second row.\<close>

definition Row ::
    "('r \<Rightarrow> (bool \<times> 'r) option) \<Rightarrow> ('r \<Rightarrow> next_row_status) \<Rightarrow> ('d \<Rightarrow> 'r option) \<Rightarrow> 'd statement \<Rightarrow>
       's db_connection \<Rightarrow> ((db_error + 'r result) \<times> 's db_connection) option" where
  "Row nxt has_nxt q st conn =
     do { d \<leftarrow> stmt_ptr st;
          (case q d of None \<Rightarrow> Some (guard conn (Inl BackendError))
           | Some res \<Rightarrow> do {
               (b, r) \<leftarrow> Result_Next nxt (Result (Some res));
               if b \<and> map_option has_nxt (db_result r) = Some kNextRowExists
               then Some (Inl MultipleRowsQuery, conn) else Some (guard conn (Inr r)) }) }"

subsection \<open>Session\<close>

type_synonym 's session = "'s db_connection option"

definition Session_IsOpen :: "'s session \<Rightarrow> bool" where
  "Session_IsOpen s = (s \<noteq> None)"

definition Session_Close :: "'s session \<Rightarrow> 's session" where
  "Session_Close s = None"

definition new_statement ::
    "('s db_connection \<Rightarrow> ('s \<times> 's db_connection) option) \<Rightarrow> 's session \<Rightarrow>
       ((db_error + 's statement) \<times> 's session) option" where
  "new_statement build s =
     map_option (\<lambda>conn. case build conn of
         None \<Rightarrow> (Inl BackendError, Some (conn\<lparr>recyclable := False\<rparr>))
       | Some (d, conn) \<Rightarrow> (Inr (Statement (Some d)), Some conn)) s"

definition Session_Prepare ::
    "(string \<Rightarrow> 's option) \<Rightarrow> (string \<Rightarrow> 's option) \<Rightarrow> string \<Rightarrow> 's session \<Rightarrow>
       ((db_error + 's statement) \<times> 's session) option" where
  "Session_Prepare new_prepared new_direct q s = new_statement (Prepare new_prepared new_direct q) s"

definition NewDirectStatement ::
    "(string \<Rightarrow> 's option) \<Rightarrow> string \<Rightarrow> 's session \<Rightarrow> ((db_error + 's statement) \<times> 's session) option" where
  "NewDirectStatement new_direct q s = new_statement (GetDirectStatement new_direct q) s"

definition NewPreparedStatement ::
    "(string \<Rightarrow> 's option) \<Rightarrow> string \<Rightarrow> 's session \<Rightarrow> ((db_error + 's statement) \<times> 's session) option" where
  "NewPreparedStatement new_prepared q s = new_statement (GetPreparedStatement new_prepared q) s"

definition NewPreparedUncachedStatement ::
    "(string \<Rightarrow> 's option) \<Rightarrow> string \<Rightarrow> 's session \<Rightarrow> ((db_error + 's statement) \<times> 's session) option" where
  "NewPreparedUncachedStatement new_prepared q s = new_statement (GetPreparedUncachedStatement new_prepared q) s"

definition Once :: "('s db_connection \<Rightarrow> 's db_connection) \<Rightarrow> 's session \<Rightarrow> 's session option" where
  "Once f s = map_option (\<lambda>conn. Some (if \<not> once_called conn then (f conn)\<lparr>once_called := True\<rparr> else conn)) s"

subsection \<open>Transaction\<close>

text \<open>The statements of the MySQL connection go to the server, whose answer \<open>accepts\<close> a \<open>DCHECK\<close> wants; the
  log is what was sent.\<close>

definition Execute_sql :: "(string \<Rightarrow> bool) \<Rightarrow> string \<Rightarrow> string list \<Rightarrow> string list option" where
  "Execute_sql accepts str log = (if accepts str then Some (log @ [str]) else None)"

definition Session_Begin :: "(string \<Rightarrow> bool) \<Rightarrow> string list \<Rightarrow> string list option" where
  "Session_Begin accepts log = Execute_sql accepts ''BEGIN'' log"

definition Session_Commit :: "(string \<Rightarrow> bool) \<Rightarrow> string list \<Rightarrow> string list option" where
  "Session_Commit accepts log = Execute_sql accepts ''COMMIT'' log"

definition Session_Rollback :: "(string \<Rightarrow> bool) \<Rightarrow> string list \<Rightarrow> string list option" where
  "Session_Rollback accepts log = Execute_sql accepts ''ROLLBACK'' log"

type_synonym transaction = "bool \<times> string list"

definition Transaction :: "(string \<Rightarrow> bool) \<Rightarrow> string list \<Rightarrow> transaction option" where
  "Transaction accepts log = map_option (Pair False) (Session_Begin accepts log)"

definition Transaction_Commit :: "(string \<Rightarrow> bool) \<Rightarrow> transaction \<Rightarrow> transaction option" where
  "Transaction_Commit accepts t = map_option (Pair True) (Session_Commit accepts (snd t))"

definition Transaction_Rollback :: "(string \<Rightarrow> bool) \<Rightarrow> transaction \<Rightarrow> transaction option" where
  "Transaction_Rollback accepts t =
     map_option (Pair True) (if \<not> fst t then Session_Rollback accepts (snd t) else Some (snd t))"

text \<open>The destructor rolls back.\<close>

definition Transaction_end :: "(string \<Rightarrow> bool) \<Rightarrow> transaction \<Rightarrow> transaction option" where
  "Transaction_end accepts t = Transaction_Rollback accepts t"

subsection \<open>Reading a result\<close>

text \<open>What a client does with \<open>>>\<close>: \<open>n\<close> columns of the current row, and \<open>while (result.Next())\<close> over at most
  \<open>k\<close> rows.\<close>

fun fetch_columns :: "(int \<Rightarrow> 'r \<Rightarrow> 'v option) \<Rightarrow> nat \<Rightarrow> 'r result \<Rightarrow> ('v list \<times> 'r result) option" where
  "fetch_columns fetch 0 r = Some ([], r)"
| "fetch_columns fetch (Suc n) r =
     do { (v, r) \<leftarrow> Fetch_next fetch r; (vs, r) \<leftarrow> fetch_columns fetch n r; Some (v # vs, r) }"

fun read_rows ::
    "('r \<Rightarrow> (bool \<times> 'r) option) \<Rightarrow> (int \<Rightarrow> 'r \<Rightarrow> 'v option) \<Rightarrow> nat \<Rightarrow> nat \<Rightarrow> 'r result \<Rightarrow>
       ('v list list \<times> 'r result) option" where
  "read_rows nxt fetch n 0 r = Some ([], r)"
| "read_rows nxt fetch n (Suc k) r =
     do { (b, r) \<leftarrow> Result_Next nxt r;
          if \<not> b then Some ([], r)
          else do { (vs, r) \<leftarrow> fetch_columns fetch n r; (rows, r) \<leftarrow> read_rows nxt fetch n k r;
                    Some (vs # rows, r) } }"

lemma fetch_columns_row:
  assumes "db_result r = Some d" and "\<And>c. int j \<le> c \<Longrightarrow> c < int (length row) \<Longrightarrow> fetch c d = Some (row ! nat c)"
    and "current_column r = int j" and "j \<le> length row"
  shows "fetch_columns fetch (length row - j) r =
    Some (drop j row, r\<lparr>current_column := int (length row)\<rparr>)"
  using assms
proof (induction "length row - j" arbitrary: j r)
  case 0
  then show ?case by simp
next
  case (Suc n)
  then have j: "j < length row" and n: "n = length row - Suc j" by simp_all
  have "Fetch_next fetch r = Some (row ! j, r\<lparr>current_column := int (Suc j)\<rparr>)"
    using Suc.prems j by (simp add: Fetch_next_def)
  moreover have "fetch_columns fetch (length row - Suc j) (r\<lparr>current_column := int (Suc j)\<rparr>) =
      Some (drop (Suc j) row, r\<lparr>current_column := int (length row)\<rparr>)"
    using Suc.hyps(1) [OF n, of "r\<lparr>current_column := int (Suc j)\<rparr>"] Suc.prems j by simp
  ultimately show ?case
    using j unfolding Suc.hyps(2) [symmetric] n by (simp add: Cons_nth_drop_Suc)
qed

context row_source
begin

lemma Result_Next_row:
  assumes "ok d" and "pending d = row # rows" and "\<not> eof r" and "db_result r = Some d"
    and "length row = nat (columns d)" and "\<forall>c. readable c"
  shows "\<exists>d'. Result_Next nxt r = Some (True, r\<lparr>fetched := True, eof := False, current_column := 0, db_result := Some d'\<rparr>) \<and>
    ok d' \<and> pending d' = rows \<and> columns d' = columns d \<and>
    has_nxt d' = (if rows = [] then kLastRowReached else kNextRowExists) \<and>
    fetch_columns get_cell (length row) (r\<lparr>fetched := True, eof := False, current_column := 0, db_result := Some d'\<rparr>) =
      Some (row, r\<lparr>fetched := True, eof := False, current_column := int (length row), db_result := Some d'\<rparr>)"
proof -
  obtain d' where d': "nxt d = Some (True, d')" "ok d'" "pending d' = rows" "columns d' = columns d"
    "\<And>c. \<lbrakk>in_columns c (nat (columns d)); readable c\<rbrakk> \<Longrightarrow> get_cell c d' = Some (row ! nat c)"
    "has_nxt d' = (if rows = [] then kLastRowReached else kNextRowExists)"
    using has_nxt_after [OF assms(1,2)] by blast
  let ?r = "r\<lparr>fetched := True, eof := False, current_column := 0, db_result := Some d'\<rparr>"
  have "get_cell c d' = Some (row ! nat c)" if "int 0 \<le> c" "c < int (length row)" for c
    using d'(5) [of c] that assms(5,6) by (simp add: in_columns_def)
  then have "fetch_columns get_cell (length row - 0) ?r = Some (drop 0 row, ?r\<lparr>current_column := int (length row)\<rparr>)"
    by (intro fetch_columns_row) simp_all
  with d' assms(3,4) show ?thesis by (intro exI [of _ d']) (simp add: Result_Next_def)
qed

lemma Result_Next_end:
  assumes "ok d" and "pending d = []" and "\<not> eof r" and "db_result r = Some d"
  shows "\<exists>d'. Result_Next nxt r = Some (False, r\<lparr>fetched := True, eof := True, current_column := 0, db_result := Some d'\<rparr>)"
  using nxt_end [OF assms(1,2)] assms(3,4) by (auto simp: Result_Next_def)

lemma read_rows_all:
  assumes "ok d" and "\<not> eof r" and "db_result r = Some d" and "\<forall>c. readable c"
    and "\<forall>row\<in>set (pending d). length row = n" and "n = nat (columns d)" and "length (pending d) < k"
  shows "\<exists>r'. read_rows nxt get_cell n k r = Some (pending d, r') \<and> eof r' \<and> Result_Next nxt r' = Some (False, r')"
  using assms
proof (induction "pending d" arbitrary: d r k)
  case Nil
  then obtain d' where "Result_Next nxt r =
      Some (False, r\<lparr>fetched := True, eof := True, current_column := 0, db_result := Some d'\<rparr>)"
    using Result_Next_end by metis
  with Nil show ?case by (cases k) (auto simp: Result_Next_def)
next
  case (Cons row rows)
  define k' where "k' = k - 1"
  have "length (pending d) = Suc (length rows)" by (simp add: Cons.hyps(2) [symmetric])
  then have k: "k = Suc k'" "length rows < k'" using Cons.prems(7) by (simp_all add: k'_def)
  have row: "length row = n" using Cons.prems(5) Cons.hyps(2) by (metis list.set_intros(1))
  from Result_Next_row [OF Cons.prems(1) Cons.hyps(2) [symmetric] Cons.prems(2,3)] row Cons.prems(4,6)
  obtain d' where d': "Result_Next nxt r = Some (True, r\<lparr>fetched := True, eof := False, current_column := 0, db_result := Some d'\<rparr>)"
      "ok d'" "pending d' = rows" "columns d' = columns d"
      "fetch_columns get_cell n (r\<lparr>fetched := True, eof := False, current_column := 0, db_result := Some d'\<rparr>) =
        Some (row, r\<lparr>fetched := True, eof := False, current_column := int (length row), db_result := Some d'\<rparr>)"
    by auto
  let ?r = "r\<lparr>fetched := True, eof := False, current_column := int (length row), db_result := Some d'\<rparr>"
  have sub: "\<forall>row\<in>set (pending d'). length row = n"
    using Cons.prems(5) Cons.hyps(2) d'(3) by (metis list.set_intros(2))
  have "\<exists>r'. read_rows nxt get_cell n k' ?r = Some (pending d', r') \<and> eof r' \<and> Result_Next nxt r' = Some (False, r')"
    using Cons.prems(4,6) k(2) by (intro Cons.hyps(1)) (simp_all add: d' sub)
  with d' Cons.hyps(2) show ?case by (auto simp: k(1))
qed

lemma Row_cases:
  assumes "ok d" and "pending d = rows" and "\<forall>row\<in>set rows. length row = nat (columns d)" and "\<forall>c. readable c"
    and "stmt_ptr st = Some s" and "q s = Some d"
  shows "case rows of
      [] \<Rightarrow> \<exists>r. Row nxt has_nxt q st conn = Some (Inr r, conn) \<and> Result_Empty r
    | [row] \<Rightarrow> \<exists>r r'. Row nxt has_nxt q st conn = Some (Inr r, conn) \<and> \<not> Result_Empty r \<and>
        fetch_columns get_cell (length row) r = Some (row, r')
    | _ \<Rightarrow> Row nxt has_nxt q st conn = Some (Inl MultipleRowsQuery, conn)"
proof (cases rows)
  case Nil
  have "\<exists>d'. Result_Next nxt (Result (Some d)) =
      Some (False, (Result (Some d))\<lparr>fetched := True, eof := True, current_column := 0, db_result := Some d'\<rparr>)"
    using Result_Next_end [of d "Result (Some d)"] assms(1,2) Nil by (simp add: Result_def)
  with Nil assms(5,6) show ?thesis by (auto simp: Row_def guard_def Result_Empty_def)
next
  case (Cons row rest)
  have p: "pending d = row # rest" using assms(2) Cons by simp
  have row: "length row = nat (columns d)" using assms(3) Cons by simp
  obtain d' where d': "Result_Next nxt (Result (Some d)) =
        Some (True, (Result (Some d))\<lparr>fetched := True, eof := False, current_column := 0, db_result := Some d'\<rparr>)"
      "has_nxt d' = (if rest = [] then kLastRowReached else kNextRowExists)"
      "\<exists>r'. fetch_columns get_cell (length row) ((Result (Some d))\<lparr>fetched := True, eof := False, current_column := 0,
        db_result := Some d'\<rparr>) = Some (row, r')"
    using Result_Next_row [OF assms(1) p, of "Result (Some d)"] row assms(4) by (auto simp: Result_def)
  then show ?thesis
    using assms(5,6) Cons by (cases rest) (auto simp: Row_def guard_def Result_Empty_def)
qed

end

lemma MysqlPreparedResult_ok:
  assumes "\<forall>row\<in>set rows. length row = length names" and "length rows < 2 ^ 32"
  shows "prepared_ok (MysqlPreparedResult names (map Some rows))"
    and "map the (pr_cursor (MysqlPreparedResult names (map Some rows))) = rows"
    and "nat (prepared_Columns (MysqlPreparedResult names (map Some rows))) = length names"
  using assms by (auto simp: MysqlPreparedResult_def prepared_ok_def prepared_Columns_def comp_def)

subsection \<open>Binding a statement\<close>

text \<open>A sequence of \<open><<\<close>, which ends with the first exception.\<close>

fun bind_values :: "(int \<Rightarrow> 'd \<Rightarrow> 'd option) list \<Rightarrow> 'd statement \<Rightarrow> (bool \<times> 'd statement) option" where
  "bind_values [] st = Some (True, st)"
| "bind_values (f # fs) st =
     do { (b, st) \<leftarrow> Bind_next f st; if b then bind_values fs st else Some (False, st) }"

lemma bind_prepared_values:
  assumes "length (prepared_params d) = params_count d" and "j + length fs \<le> params_count d"
    and "stmt_ptr st = Some d" and "placeholder st = int (Suc j)"
  shows "\<exists>st'. bind_values (map (\<lambda>f col. prepared_At col f) fs) st = Some (True, st') \<and>
    stmt_ptr st' = Some (d\<lparr>prepared_params := take j (prepared_params d) @
        map2 (\<lambda>f p. f p) fs (drop j (prepared_params d)) @ drop (j + length fs) (prepared_params d)\<rparr>) \<and>
    placeholder st' = int (Suc (j + length fs))"
  using assms
proof (induction fs arbitrary: j d st)
  case (Cons f fs)
  let ?ps = "prepared_params d"
  have j: "j < length ?ps" using Cons.prems by simp
  define d1 where "d1 = d\<lparr>prepared_params := ?ps[j := f (?ps ! j)]\<rparr>"
  let ?st = "st\<lparr>placeholder := int (Suc (Suc j)), stmt_ptr := Some d1\<rparr>"
  have b: "Bind_next (\<lambda>col. prepared_At col f) st = Some (True, ?st)"
    using Cons.prems j by (simp add: Bind_next_def prepared_At_def d1_def Let_def)
  have ps: "take (Suc j) (prepared_params d1) = take j ?ps @ [f (?ps ! j)]"
    "drop (Suc j) (prepared_params d1) = drop (Suc j) ?ps"
    "drop (Suc j + length fs) (prepared_params d1) = drop (Suc j + length fs) ?ps"
    using j by (simp_all add: d1_def take_Suc_conv_app_nth)
  have "drop j ?ps = ?ps ! j # drop (Suc j) ?ps" using j by (simp add: Cons_nth_drop_Suc)
  then have split: "map2 (\<lambda>f p. f p) (f # fs) (drop j ?ps) = f (?ps ! j) # map2 (\<lambda>f p. f p) fs (drop (Suc j) ?ps)"
    by simp
  have "length (prepared_params d1) = params_count d1" "Suc j + length fs \<le> params_count d1"
    using Cons.prems by (simp_all add: d1_def)
  from Cons.IH [OF this, of ?st] show ?case
    using b unfolding split ps by (simp add: d1_def)
qed (auto simp: Cons_nth_drop_Suc)

subsection \<open>Transactions\<close>

datatype transaction_op = TCommit | TRollback

fun transaction_run :: "(string \<Rightarrow> bool) \<Rightarrow> transaction_op list \<Rightarrow> transaction \<Rightarrow> transaction option" where
  "transaction_run accepts [] t = Transaction_end accepts t"
| "transaction_run accepts (TCommit # ops) t =
     do { t \<leftarrow> Transaction_Commit accepts t; transaction_run accepts ops t }"
| "transaction_run accepts (TRollback # ops) t =
     do { t \<leftarrow> Transaction_Rollback accepts t; transaction_run accepts ops t }"

lemmas transaction_defs = Transaction_def Transaction_Commit_def Transaction_Rollback_def Transaction_end_def
  Session_Begin_def Session_Commit_def Session_Rollback_def Execute_sql_def

lemma ended_transaction:
  "transaction_run (\<lambda>_. True) ops (True, log) =
     Some (True, log @ replicate (length (filter (\<lambda>x. x = TCommit) ops)) ''COMMIT'')"
proof (induction ops arbitrary: log)
  case (Cons x ops)
  then show ?case by (cases x) (simp_all add: transaction_defs)
qed (simp add: transaction_defs)
subsection \<open>Properties\<close>

text \<open>A client library that behaves as documented.\<close>

definition library_fill :: fill where
  "library_fill c n =
     (case c of None \<Rightarrow> (replicate n (chr_of 0), 0, True, False)
      | Some s \<Rightarrow> (take n s @ replicate (n - length s) (chr_of 0), length s, False, n < length s))"

lemma library_fill_documented: "fills_buffers library_fill"
  by (auto simp: fills_buffers_def library_fill_def min_def split: option.split)

text \<open>C15: Whatever the lengths of the values (in the fixed buffers or fetched again) and wherever NULLs
  are, a client that calls \<open>Next\<close> until it is false and reads every column with \<open>>>\<close> gets exactly the rows
  of a prepared query's result, in order; then the result is empty and \<open>Next\<close> stays false.\<close>

theorem prepared_result_read:
  assumes "fills_buffers fill" and "\<forall>row\<in>set rows. length row = length names" and "length rows < 2 ^ 32"
    and "length rows < k"
  shows "\<exists>r. read_rows (prepared_Next fill) prepared_Fetch (length names) k
      (Result (Some (MysqlPreparedResult names (map Some rows)))) = Some (rows, r) \<and>
    Result_Empty r \<and> Result_Next (prepared_Next fill) r = Some (False, r)"
proof -
  let ?d = "MysqlPreparedResult names (map Some rows)"
  note new = MysqlPreparedResult_ok [OF assms(2,3)]
  have "\<exists>r'. read_rows (prepared_Next fill) prepared_Fetch (length names) k (Result (Some ?d)) =
      Some (map the (pr_cursor ?d), r') \<and> eof r' \<and> Result_Next (prepared_Next fill) r' = Some (False, r')"
    using assms(1,2,4) new by (intro prepared_rows.read_rows_all) (simp_all add: Result_def)
  then show ?thesis using new(2) by (auto simp: Result_Empty_def)
qed

theorem prepared_result_read_witness:
  "\<exists>r. read_rows (prepared_Next library_fill) prepared_Fetch 2 5
      (Result (Some (MysqlPreparedResult [''id'', ''name'']
        [Some [Some ''1'', Some (replicate 300 (CHR ''x''))], Some [Some ''2'', None]]))) =
      Some ([[Some ''1'', Some (replicate 300 (CHR ''x''))], [Some ''2'', None]], r) \<and> Result_Empty r"
  using prepared_result_read [OF library_fill_documented, of
      "[[Some ''1'', Some (replicate 300 (CHR ''x''))], [Some ''2'', None]]" "[''id'', ''name'']" 5]
  by (simp add: numeral_2_eq_2 [symmetric]) blast

text \<open>\<open>Row\<close> on a prepared query that finds one row leaves the result on it, ready to be read; if there
  is none the result is empty, and if there are more it throws \<open>MultipleRowsQuery\<close> without making the
  connection unfit for its pool.\<close>

theorem row_of_query:
  assumes "fills_buffers fill" and "\<forall>row\<in>set rows. length row = length names" and "length rows < 2 ^ 32"
    and "stmt_ptr st = Some d" and "q d = Some (MysqlPreparedResult names (map Some rows))"
  shows "case rows of
      [] \<Rightarrow> \<exists>r. Row (prepared_Next fill) prepared_HasNext q st conn = Some (Inr r, conn) \<and> Result_Empty r
    | [row] \<Rightarrow> \<exists>r r'. Row (prepared_Next fill) prepared_HasNext q st conn = Some (Inr r, conn) \<and>
        \<not> Result_Empty r \<and> fetch_columns prepared_Fetch (length row) r = Some (row, r')
    | _ \<Rightarrow> Row (prepared_Next fill) prepared_HasNext q st conn = Some (Inl MultipleRowsQuery, conn)"
  using assms MysqlPreparedResult_ok [OF assms(2,3)]
  by (intro prepared_rows.Row_cases [where s = d]) simp_all

theorem row_of_query_witness:
  "\<forall>conn :: unit db_connection. Row (prepared_Next library_fill) prepared_HasNext
     (\<lambda>d. Some (MysqlPreparedResult [''n''] [Some [Some ''1''], Some [None]])) (Statement (Some ())) conn =
     Some (Inl MultipleRowsQuery, conn)"
proof
  fix conn :: "unit db_connection"
  show "Row (prepared_Next library_fill) prepared_HasNext
     (\<lambda>d. Some (MysqlPreparedResult [''n''] [Some [Some ''1''], Some [None]])) (Statement (Some ())) conn =
     Some (Inl MultipleRowsQuery, conn)"
    using row_of_query [OF library_fill_documented, of "[[Some ''1''], [None]]" "[''n'']" "Statement (Some ())" "()"
      "\<lambda>d. Some (MysqlPreparedResult [''n''] [Some [Some ''1''], Some [None]])" conn]
    by (simp add: Statement_def)
qed

text \<open>What a transaction sends to the server from its construction to its destructor: \<open>BEGIN\<close>; then
  \<open>ROLLBACK\<close> exactly once, unless the first call on it was \<open>Commit\<close>, in which case never; and a \<open>COMMIT\<close> for
  every call of \<open>Commit\<close>, also after the rollback.\<close>

theorem transaction_statements:
  "map_option snd (do { t \<leftarrow> Transaction (\<lambda>_. True) log; transaction_run (\<lambda>_. True) ops t }) =
     Some (log @ ''BEGIN'' #
       (case ops of TCommit # _ \<Rightarrow> [] | _ \<Rightarrow> [''ROLLBACK'']) @
       replicate (length (filter (\<lambda>x. x = TCommit) ops)) ''COMMIT'')"
proof (cases ops)
  case (Cons x rest)
  then show ?thesis by (cases x) (simp_all add: transaction_defs ended_transaction)
qed (simp add: transaction_defs)

end
