(* ===== verification/Sql_Update.thy ===== *)
theory Sql_Update
  imports Frontend Status
begin

text \<open>
  What the message handlers of \<^verbatim>\<open>service/\<close> share: the members they take from the JSON text of a message,
  and the update they send to the database through the frontend. The JSON library is not part of the
  sources: its parser is an argument, and what the code relies on is that a member is looked up by
  its name, and that asking for the text of something else, or for a member of something that is no object,
  fails an assertion (\<open>None\<close>).
\<close>

subsection \<open>JSON\<close>

datatype jvalue = JString string | JNotString

datatype json = JObject "string \<rightharpoonup> jvalue" | JNotObject

type_synonym json_parser = "string \<Rightarrow> json option"

definition c_str :: "string \<Rightarrow> string" where
  "c_str s = takeWhile (\<lambda>c. c \<noteq> CHR 0x00) s"

definition HasMember :: "json \<Rightarrow> string \<Rightarrow> bool option" where
  "HasMember d name = (case d of JObject m \<Rightarrow> Some (m name \<noteq> None) | JNotObject \<Rightarrow> None)"

text \<open>\<open>d[name].GetString()\<close>, made a \<open>std::string\<close>.\<close>

definition member_string :: "json \<Rightarrow> string \<Rightarrow> string option" where
  "member_string d name =
     (case d of JObject m \<Rightarrow> (case m name of Some (JString s) \<Rightarrow> Some (c_str s) | _ \<Rightarrow> None) | JNotObject \<Rightarrow> None)"

fun member_strings :: "json \<Rightarrow> string list \<Rightarrow> string list option" where
  "member_strings d [] = Some []"
| "member_strings d (n # ns) = do { s \<leftarrow> member_string d n; ss \<leftarrow> member_strings d ns; Some (s # ss) }"

lemma c_str_no_nul [simp]: "CHR 0x00 \<notin> set (c_str s)"
  by (auto simp: c_str_def dest: set_takeWhileD)

lemma c_str_id: "CHR 0x00 \<notin> set s \<Longrightarrow> c_str s = s"
  by (simp add: c_str_def takeWhile_eq_all_conv) blast

subsection \<open>An update\<close>

datatype sql_value = SqlText string | SqlInt int

text \<open>The driver: a session's connection, the statements it makes, their binds, and an execution that gives
  the number of rows or throws, with the state of the server.\<close>

record ('s, 'w) db_calls =
  db_connect :: "string \<Rightarrow> 'w \<Rightarrow> (db_error + 's db_connection) \<times> 'w"
  db_new_prepared :: "string \<Rightarrow> 's option"
  db_new_direct :: "string \<Rightarrow> 's option"
  db_bind_text :: "int \<Rightarrow> string \<Rightarrow> 's \<Rightarrow> 's option"
  db_bind_int :: "int \<Rightarrow> int \<Rightarrow> 's \<Rightarrow> 's option"
  db_execute :: "'s \<Rightarrow> 'w \<Rightarrow> int option \<times> 'w"

definition bind_value :: "('s, 'w) db_calls \<Rightarrow> sql_value \<Rightarrow> int \<Rightarrow> 's \<Rightarrow> 's option" where
  "bind_value db v col d = (case v of SqlText s \<Rightarrow> db_bind_text db col s d | SqlInt n \<Rightarrow> db_bind_int db col n d)"

text \<open>\<open>sql << query << v1 << \<dots>; statement.Execute()\<close> on a new session; \<open>Inl\<close> is the exception.\<close>

definition run_update ::
    "('s, 'w) db_calls \<Rightarrow> string \<Rightarrow> string \<Rightarrow> sql_value list \<Rightarrow> 'w \<Rightarrow> ((db_error + int) \<times> 'w) option" where
  "run_update db info q vs w =
     (case db_connect db info w of
        (Inl e, w) \<Rightarrow> Some (Inl e, w)
      | (Inr conn, w) \<Rightarrow> do {
          (st, session) \<leftarrow> Session_Prepare (db_new_prepared db) (db_new_direct db) q (Some conn);
          (case st of
             Inl e \<Rightarrow> Some (Inl e, w)
           | Inr st \<Rightarrow> do {
               (bound, st) \<leftarrow> bind_values (map (bind_value db) vs) st;
               if \<not> bound then Some (Inl BackendError, w)
               else do {
                 d \<leftarrow> stmt_ptr st;
                 conn \<leftarrow> session;
                 (r, conn) \<leftarrow> Statement_Execute (\<lambda>d. fst (db_execute db d w)) st conn;
                 Some (r, snd (db_execute db d w)) } }) })"

subsection \<open>The update on MySQL\<close>

text \<open>Prepared statements on a server that takes the query \<open>q\<close> with \<open>n\<close> markers. Texts are bound by their address;
  \<open>place\<close> says where a text is, and the memory holds it there until the statement runs. The world is the list of what was
  executed, and the server answers it with a number of rows or an error.\<close>

definition mysql_calls ::
    "(string \<Rightarrow> nat) \<Rightarrow> (nat \<rightharpoonup> char) \<Rightarrow> (string \<rightharpoonup> nat) \<Rightarrow> (string \<Rightarrow> sent_value list \<Rightarrow> int option) \<Rightarrow>
       (prepared_statement, (string \<times> sent_value list) list) db_calls" where
  "mysql_calls place mem prepare answer =
     \<lparr>db_connect = (\<lambda>info log. (Inr \<lparr>cache = Some Data, default_is_prepared = True, once_called = False,
                                      recyclable = False\<rparr>, log)),
      db_new_prepared = MysqlPreparedStatement prepare,
      db_new_direct = (\<lambda>q. None),
      db_bind_text = (\<lambda>col s. prepared_Bind_range col (place s) (place s + length s)),
      db_bind_int = prepared_Bind_int,
      db_execute = (\<lambda>d log.
        case prepared_Execute (\<lambda>vs. answer (prepared_query d) vs \<noteq> None) True False mem d of
          None \<Rightarrow> (None, log)
        | Some vs \<Rightarrow> (answer (prepared_query d) vs, log @ [(prepared_query d, vs)]))\<rparr>"

definition sent_value :: "sql_value \<Rightarrow> sent_value" where
  "sent_value v = (case v of SqlText s \<Rightarrow> Sent False s | SqlInt n \<Rightarrow> Sent False (show_int n))"

definition holds_texts :: "(string \<Rightarrow> nat) \<Rightarrow> (nat \<rightharpoonup> char) \<Rightarrow> sql_value list \<Rightarrow> bool" where
  "holds_texts place mem vs \<longleftrightarrow>
     (\<forall>v\<in>set vs. \<forall>s. v = SqlText s \<longrightarrow> read_memory mem (place s) (length s) = Some s)"

fun value_setter :: "(string \<Rightarrow> nat) \<Rightarrow> sql_value \<Rightarrow> param \<Rightarrow> param" where
  "value_setter place (SqlText s) = Set_range (place s) (place s + length s) False"
| "value_setter place (SqlInt n) = SetString (show_int n)"

lemma bind_value_mysql:
  "bind_value (mysql_calls place mem prepare answer) v = (\<lambda>col. prepared_At col (value_setter place v))"
  by (cases v) (simp_all add: bind_value_def mysql_calls_def prepared_Bind_range_def prepared_Bind_int_def fun_eq_iff)

lemma bind_value_setter:
  assumes "holds_texts place mem [v]"
  shows "BindIt mem (value_setter place v Param) = Some (sent_value v)"
  using assms by (cases v) (auto simp: holds_texts_def BindIt_def Set_range_def SetString_def Param_def sent_value_def)

lemma bind_params_setters:
  "holds_texts place mem vs \<Longrightarrow>
     bind_params mem (map2 (\<lambda>f p. f p) (map (value_setter place) vs) (replicate (length vs) Param)) =
       Some (map sent_value vs)"
proof (induction vs)
  case (Cons v vs)
  then have "holds_texts place mem [v]" "holds_texts place mem vs" by (simp_all add: holds_texts_def)
  with Cons.IH show ?case by (simp add: bind_value_setter)
qed simp

lemma run_update_mysql:
  assumes "prepare q = Some (length vs)" and "holds_texts place mem vs"
  shows "run_update (mysql_calls place mem prepare answer) info q vs log =
    (case answer q (map sent_value vs) of
       Some n \<Rightarrow> Some (Inr n, log @ [(q, map sent_value vs)])
     | None \<Rightarrow> Some (Inl BackendError, log))"
proof -
  define d where "d = \<lparr>prepared_query = q, prepared_params = replicate (length vs) Param, params_count = length vs\<rparr>"
  let ?conn = "\<lparr>cache = Some (Data :: prepared_statement cache_data), default_is_prepared = True, once_called = False,
      recyclable = False\<rparr>"
  let ?db = "mysql_calls place mem prepare answer"
  have new: "MysqlPreparedStatement prepare q = Some d"
    using assms(1) by (simp add: MysqlPreparedStatement_def ResetData_def d_def)
  have prep: "Session_Prepare (MysqlPreparedStatement prepare) (\<lambda>q. None) q (Some ?conn) =
      Some (Inr (Statement (Some d)), Some ?conn)"
    using unused_prepared [of ?conn "MysqlPreparedStatement prepare" q]
    by (simp add: Session_Prepare_def new_statement_def Prepare_def cache_unused_def new)
  define d' where "d' = d\<lparr>prepared_params := map2 (\<lambda>f p. f p) (map (value_setter place) vs) (replicate (length vs) Param)\<rparr>"
  obtain st where st: "bind_values (map (\<lambda>f col. prepared_At col f) (map (value_setter place) vs)) (Statement (Some d)) = Some (True, st)"
      "stmt_ptr st = Some d'"
    using bind_prepared_values [of d 0 "map (value_setter place) vs" "Statement (Some d)"]
    by (auto simp: d_def d'_def Statement_def)
  have "bind_value ?db = (\<lambda>v col. Mysql_Statement.prepared_At col (value_setter place v))"
    by (rule ext) (rule bind_value_mysql)
  with st(1) have bound: "bind_values (map (bind_value ?db) vs) (Statement (Some d)) = Some (True, st)"
    by (simp add: comp_def)
  have sent: "prepared_BindAll mem d' = Some (map sent_value vs)"
    using bind_params_setters [OF assms(2)] by (simp add: prepared_BindAll_def d'_def)
  have q: "prepared_query d' = q" by (simp add: d'_def d_def)
  have exec: "db_execute ?db d' log = (case answer q (map sent_value vs) of
       Some n \<Rightarrow> (Some n, log @ [(q, map sent_value vs)]) | None \<Rightarrow> (None, log))"
    by (simp add: mysql_calls_def prepared_Execute_def sent q split: option.split)
  have "db_connect ?db info log = (Inr ?conn, log)" "db_new_prepared ?db = MysqlPreparedStatement prepare"
    "db_new_direct ?db = (\<lambda>q. None)" by (simp_all add: mysql_calls_def)
  then show ?thesis
    by (simp add: run_update_def prep bound st(2) Statement_Execute_def guard_def throws_def exec split: option.split)
qed

text \<open>C33: An update on a server that knows the query with as many markers as there are values executes exactly
  once, with the values in their order: texts as they are in memory, numbers in decimal. Its answer
  is what the handler gets, an error as an exception.\<close>

theorem update_sends_values:
  assumes "prepare q = Some (length vs)" and "holds_texts place mem vs"
  shows "run_update (mysql_calls place mem prepare answer) info q vs log =
    (case answer q (map sent_value vs) of
       Some n \<Rightarrow> Some (Inr n, log @ [(q, map sent_value vs)])
     | None \<Rightarrow> Some (Inl BackendError, log))"
  using assms by (rule run_update_mysql)

theorem update_sends_values_witness:
  "run_update (mysql_calls (\<lambda>s. 10) (\<lambda>a. if a = 10 then Some (CHR ''x'') else None) [''a=? b=?'' \<mapsto> 2] (\<lambda>q vs. Some 1))
     ''mysql:'' ''a=? b=?'' [SqlText ''x'', SqlInt 7] [] =
   Some (Inr 1, [(''a=? b=?'', [Sent False ''x'', Sent False ''7''])])"
proof -
  have "show_int 7 = ''7''" by code_simp
  moreover have "holds_texts (\<lambda>s. 10) (\<lambda>a. if a = 10 then Some (CHR ''x'') else None) [SqlText ''x'', SqlInt 7]"
    by (simp add: holds_texts_def read_memory_def)
  ultimately show ?thesis
    using update_sends_values [of "[''a=? b=?'' \<mapsto> 2]" "''a=? b=?''" "[SqlText ''x'', SqlInt 7]" "\<lambda>s. 10"
        "\<lambda>a. if a = 10 then Some (CHR ''x'') else None" "\<lambda>q vs. Some 1" "''mysql:''" "[]"]
    by (simp add: sent_value_def)
qed

end
