(* ===== verification/File_Io.thy ===== *)
theory File_Io
  imports File_Path Time_Base
begin

text \<open>
  \<^verbatim>\<open>base/file.h\<close> and \<^verbatim>\<open>base/file.cc\<close>: the class \<open>File\<close> over the system calls, which are arguments with their
  own state. \<open>OS_POSIX\<close> is never defined in the build, so \<open>HANDLE_EINTR\<close> is the call itself. \<open>None\<close> is a
  failed \<open>DCHECK\<close>. The constants of the system headers are those of Linux.
\<close>

unbundle bit_operations_syntax

subsection \<open>Errors\<close>

datatype file_error =
    FILE_OK | FILE_ERROR_FAILED | FILE_ERROR_IN_USE | FILE_ERROR_EXISTS | FILE_ERROR_NOT_FOUND
  | FILE_ERROR_ACCESS_DENIED | FILE_ERROR_TOO_MANY_OPENED | FILE_ERROR_NO_MEMORY | FILE_ERROR_NO_SPACE
  | FILE_ERROR_NOT_A_DIRECTORY | FILE_ERROR_INVALID_OPERATION | FILE_ERROR_SECURITY | FILE_ERROR_ABORT
  | FILE_ERROR_NOT_A_FILE | FILE_ERROR_NOT_EMPTY | FILE_ERROR_INVALID_URL | FILE_ERROR_IO | FILE_ERROR_MAX

datatype errno = EPERM | ENOENT | EIO | ENOMEM | EACCES | EBUSY | EEXIST | ENOTDIR | EISDIR | EMFILE
  | ETXTBSY | ENOSPC | EROFS | EOPNOTSUPP | EINTR | Other_errno nat

fun OSErrorToFileError :: "errno \<Rightarrow> file_error" where
  "OSErrorToFileError EACCES = FILE_ERROR_ACCESS_DENIED"
| "OSErrorToFileError EISDIR = FILE_ERROR_ACCESS_DENIED"
| "OSErrorToFileError EROFS = FILE_ERROR_ACCESS_DENIED"
| "OSErrorToFileError EPERM = FILE_ERROR_ACCESS_DENIED"
| "OSErrorToFileError EBUSY = FILE_ERROR_IN_USE"
| "OSErrorToFileError ETXTBSY = FILE_ERROR_IN_USE"
| "OSErrorToFileError EEXIST = FILE_ERROR_EXISTS"
| "OSErrorToFileError EIO = FILE_ERROR_IO"
| "OSErrorToFileError ENOENT = FILE_ERROR_NOT_FOUND"
| "OSErrorToFileError EMFILE = FILE_ERROR_TOO_MANY_OPENED"
| "OSErrorToFileError ENOMEM = FILE_ERROR_NO_MEMORY"
| "OSErrorToFileError ENOSPC = FILE_ERROR_NO_SPACE"
| "OSErrorToFileError ENOTDIR = FILE_ERROR_NOT_A_DIRECTORY"
| "OSErrorToFileError e = FILE_ERROR_FAILED"

fun ErrorToString :: "file_error \<Rightarrow> string" where
  "ErrorToString FILE_OK = ''FILE_OK''"
| "ErrorToString FILE_ERROR_FAILED = ''FILE_ERROR_FAILED''"
| "ErrorToString FILE_ERROR_IN_USE = ''FILE_ERROR_IN_USE''"
| "ErrorToString FILE_ERROR_EXISTS = ''FILE_ERROR_EXISTS''"
| "ErrorToString FILE_ERROR_NOT_FOUND = ''FILE_ERROR_NOT_FOUND''"
| "ErrorToString FILE_ERROR_ACCESS_DENIED = ''FILE_ERROR_ACCESS_DENIED''"
| "ErrorToString FILE_ERROR_TOO_MANY_OPENED = ''FILE_ERROR_TOO_MANY_OPENED''"
| "ErrorToString FILE_ERROR_NO_MEMORY = ''FILE_ERROR_NO_MEMORY''"
| "ErrorToString FILE_ERROR_NO_SPACE = ''FILE_ERROR_NO_SPACE''"
| "ErrorToString FILE_ERROR_NOT_A_DIRECTORY = ''FILE_ERROR_NOT_A_DIRECTORY''"
| "ErrorToString FILE_ERROR_INVALID_OPERATION = ''FILE_ERROR_INVALID_OPERATION''"
| "ErrorToString FILE_ERROR_SECURITY = ''FILE_ERROR_SECURITY''"
| "ErrorToString FILE_ERROR_ABORT = ''FILE_ERROR_ABORT''"
| "ErrorToString FILE_ERROR_NOT_A_FILE = ''FILE_ERROR_NOT_A_FILE''"
| "ErrorToString FILE_ERROR_NOT_EMPTY = ''FILE_ERROR_NOT_EMPTY''"
| "ErrorToString FILE_ERROR_INVALID_URL = ''FILE_ERROR_INVALID_URL''"
| "ErrorToString FILE_ERROR_IO = ''FILE_ERROR_IO''"
| "ErrorToString FILE_ERROR_MAX = ''''"

subsection \<open>Opening\<close>

datatype file_flag = FLAG_OPEN | FLAG_CREATE | FLAG_OPEN_ALWAYS | FLAG_CREATE_ALWAYS | FLAG_OPEN_TRUNCATED
  | FLAG_READ | FLAG_WRITE | FLAG_APPEND | FLAG_EXCLUSIVE_READ | FLAG_EXCLUSIVE_WRITE | FLAG_ASYNC
  | FLAG_TEMPORARY | FLAG_HIDDEN | FLAG_DELETE_ON_CLOSE | FLAG_WRITE_ATTRIBUTES | FLAG_SHARE_DELETE
  | FLAG_TERMINAL_DEVICE | FLAG_BACKUP_SEMANTICS | FLAG_EXECUTE | FLAG_SEQUENTIAL_SCAN

fun flag_bit :: "file_flag \<Rightarrow> nat" where
  "flag_bit FLAG_OPEN = 0" | "flag_bit FLAG_CREATE = 1" | "flag_bit FLAG_OPEN_ALWAYS = 2"
| "flag_bit FLAG_CREATE_ALWAYS = 3" | "flag_bit FLAG_OPEN_TRUNCATED = 4" | "flag_bit FLAG_READ = 5"
| "flag_bit FLAG_WRITE = 6" | "flag_bit FLAG_APPEND = 7" | "flag_bit FLAG_EXCLUSIVE_READ = 8"
| "flag_bit FLAG_EXCLUSIVE_WRITE = 9" | "flag_bit FLAG_ASYNC = 10" | "flag_bit FLAG_TEMPORARY = 11"
| "flag_bit FLAG_HIDDEN = 12" | "flag_bit FLAG_DELETE_ON_CLOSE = 13" | "flag_bit FLAG_WRITE_ATTRIBUTES = 14"
| "flag_bit FLAG_SHARE_DELETE = 15" | "flag_bit FLAG_TERMINAL_DEVICE = 16"
| "flag_bit FLAG_BACKUP_SEMANTICS = 17" | "flag_bit FLAG_EXECUTE = 18" | "flag_bit FLAG_SEQUENTIAL_SCAN = 19"

definition flag :: "file_flag \<Rightarrow> u32" where "flag f = push_bit (flag_bit f) 1"

definition has :: "u32 \<Rightarrow> file_flag \<Rightarrow> bool" where "has flags f = (flags AND flag f \<noteq> 0)"

definition O_RDONLY :: u32 where "O_RDONLY = 0"
definition O_WRONLY :: u32 where "O_WRONLY = 1"
definition O_RDWR :: u32 where "O_RDWR = 2"
definition O_CREAT :: u32 where "O_CREAT = 64"
definition O_EXCL :: u32 where "O_EXCL = 128"
definition O_NOCTTY :: u32 where "O_NOCTTY = 256"
definition O_TRUNC :: u32 where "O_TRUNC = 512"
definition O_APPEND :: u32 where "O_APPEND = 1024"
definition O_NDELAY :: u32 where "O_NDELAY = 2048"

record file_object =
  file_fd :: int
  error_details :: file_error
  created :: bool
  async :: bool

definition IsValid :: "file_object \<Rightarrow> bool" where "IsValid f = (file_fd f \<noteq> - 1)"

text \<open>The flags for \<open>open\<close>, before the second attempt; \<open>Inl\<close> is the rejected combination.\<close>

definition open_flags_of :: "u32 \<Rightarrow> (unit + u32) option" where
  "open_flags_of flags = do {
     let fl = (if has flags FLAG_CREATE then O_CREAT OR O_EXCL else 0);
     fl \<leftarrow> (if has flags FLAG_CREATE_ALWAYS
           then do { CHECK (fl = 0); CHECK (has flags FLAG_WRITE); Some (O_CREAT OR O_TRUNC) } else Some fl);
     fl \<leftarrow> (if has flags FLAG_OPEN_TRUNCATED
           then do { CHECK (fl = 0); CHECK (has flags FLAG_WRITE); Some (O_CREAT OR O_TRUNC) } else Some fl);
     if fl = 0 \<and> \<not> has flags FLAG_OPEN \<and> \<not> has flags FLAG_OPEN_ALWAYS then Some (Inl ())
     else do {
       let fl = (if has flags FLAG_WRITE \<and> has flags FLAG_READ then fl OR O_RDWR
                 else if has flags FLAG_WRITE then fl OR O_WRONLY else fl);
       let fl = (if has flags FLAG_TERMINAL_DEVICE then fl OR (O_NOCTTY OR O_NDELAY) else fl);
       let fl = (if has flags FLAG_APPEND \<and> has flags FLAG_READ then fl OR (O_APPEND OR O_RDWR)
                 else if has flags FLAG_APPEND then fl OR (O_APPEND OR O_WRONLY) else fl);
       Some (Inr fl) } }"

text \<open>\<open>open_file\<close> answers a descriptor, or what went wrong; the second call is the one that
  creates. The paths returned with the object are those unlinked.\<close>

definition DoInitialize ::
    "(bool \<Rightarrow> string \<Rightarrow> u32 \<Rightarrow> errno + int) \<Rightarrow> file_path \<Rightarrow> u32 \<Rightarrow> file_object \<Rightarrow> (file_object \<times> string list) option" where
  "DoInitialize open_file path flags f = do {
     CHECK (\<not> IsValid f);
     r \<leftarrow> open_flags_of flags;
     (case r of
        Inl _ \<Rightarrow> Some (f\<lparr>created := False, error_details := FILE_ERROR_FAILED\<rparr>, [])
      | Inr fl \<Rightarrow>
          let f = f\<lparr>created := False\<rparr>;
              d = open_file False path fl;
              (d, made) =
                (case d of
                   Inl e \<Rightarrow>
                     if has flags FLAG_OPEN_ALWAYS
                     then let fl = fl OR O_CREAT;
                              fl = (if has flags FLAG_EXCLUSIVE_READ \<or> has flags FLAG_EXCLUSIVE_WRITE
                                    then fl OR O_EXCL else fl);
                              d = open_file True path fl
                          in (d, case d of Inl _ \<Rightarrow> False | Inr _ \<Rightarrow> True)
                     else (d, False)
                 | Inr _ \<Rightarrow> (d, False))
          in Some (case d of
               Inl e \<Rightarrow> (f\<lparr>error_details := OSErrorToFileError e\<rparr>, [])
             | Inr fd \<Rightarrow> (f\<lparr>created := made \<or> has flags FLAG_CREATE_ALWAYS \<or> has flags FLAG_CREATE,
                            async := has flags FLAG_ASYNC, error_details := FILE_OK, file_fd := fd\<rparr>,
                         if has flags FLAG_DELETE_ON_CLOSE then [path] else []))) }"

definition Initialize ::
    "(bool \<Rightarrow> string \<Rightarrow> u32 \<Rightarrow> errno + int) \<Rightarrow> file_path \<Rightarrow> u32 \<Rightarrow> file_object \<Rightarrow> (file_object \<times> string list) option" where
  "Initialize open_file path flags f =
     (if ReferencesParent path then Some (f\<lparr>error_details := FILE_ERROR_ACCESS_DENIED\<rparr>, [])
      else DoInitialize open_file path flags f)"

definition File :: "(bool \<Rightarrow> string \<Rightarrow> u32 \<Rightarrow> errno + int) \<Rightarrow> file_path \<Rightarrow> u32 \<Rightarrow> (file_object \<times> string list) option" where
  "File open_file path flags =
     Initialize open_file path flags \<lparr>file_fd = - 1, error_details = FILE_OK, created = False, async = False\<rparr>"

definition File_fd :: "int \<Rightarrow> file_object option" where
  "File_fd fd = (if fd \<ge> - 1 then Some \<lparr>file_fd = fd, error_details = FILE_OK, created = False, async = False\<rparr>
                 else None)"

definition File_error :: "file_error \<Rightarrow> file_object" where
  "File_error e = \<lparr>file_fd = - 1, error_details = e, created = False, async = False\<rparr>"

definition TakePlatformFile :: "file_object \<Rightarrow> int \<times> file_object" where
  "TakePlatformFile f = (file_fd f, f\<lparr>file_fd := - 1\<rparr>)"

definition Duplicate :: "(int \<Rightarrow> errno + int) \<Rightarrow> file_object \<Rightarrow> file_object option" where
  "Duplicate dup f =
     (if \<not> IsValid f then Some (File_error FILE_ERROR_FAILED)
      else case dup (file_fd f) of
             Inl e \<Rightarrow> Some (File_error (OSErrorToFileError e))
           | Inr fd \<Rightarrow> map_option (\<lambda>g. if async f then g\<lparr>async := True\<rparr> else g) (File_fd fd))"

definition Lock :: "bool \<Rightarrow> (bool \<Rightarrow> errno option) \<Rightarrow> file_error" where
  "Lock do_lock fcntl = (case fcntl do_lock of None \<Rightarrow> FILE_OK | Some e \<Rightarrow> OSErrorToFileError e)"

subsection \<open>Reading and writing\<close>

text \<open>What a reading system call answers: an error, or the bytes it moved (none is the end).\<close>

datatype io = IoError errno | Io string

definition io_result :: "io \<Rightarrow> int" where
  "io_result r = (case r of IoError _ \<Rightarrow> - 1 | Io bytes \<Rightarrow> int (length bytes))"

text \<open>The call gets the number of bytes already moved and the number still wanted.\<close>

function read_loop :: "(nat \<Rightarrow> nat \<Rightarrow> 's \<Rightarrow> io \<times> 's) \<Rightarrow> nat \<Rightarrow> string \<Rightarrow> 's \<Rightarrow> int \<times> string \<times> 's" where
  "read_loop rd len acc s =
     (case rd (length acc) (len - length acc) s of
        (IoError e, s) \<Rightarrow> (if acc \<noteq> [] then int (length acc) else - 1, acc, s)
      | (Io bytes, s) \<Rightarrow>
          if bytes = [] then (int (length acc), acc, s)
          else if length (acc @ bytes) < len then read_loop rd len (acc @ bytes) s
          else (int (length (acc @ bytes)), acc @ bytes, s))"
  by pat_completeness auto
termination
  by (relation "measure (\<lambda>(rd, len, acc, s). len - length acc)") (auto intro!: diff_less_mono2)

declare read_loop.simps [simp del]

definition Read ::
    "(nat \<Rightarrow> nat \<Rightarrow> 's \<Rightarrow> io \<times> 's) \<Rightarrow> nat \<Rightarrow> int \<Rightarrow> file_object \<Rightarrow> 's \<Rightarrow> (int \<times> string \<times> 's) option" where
  "Read pread offset len f s =
     (if \<not> IsValid f then None
      else if len < 0 then Some (- 1, [], s)
      else Some (read_loop (\<lambda>moved n. pread (offset + moved) n) (nat len) [] s))"

definition ReadAtCurrentPos ::
    "(nat \<Rightarrow> 's \<Rightarrow> io \<times> 's) \<Rightarrow> int \<Rightarrow> file_object \<Rightarrow> 's \<Rightarrow> (int \<times> string \<times> 's) option" where
  "ReadAtCurrentPos rd len f s =
     (if \<not> IsValid f then None
      else if len < 0 then Some (- 1, [], s)
      else Some (read_loop (\<lambda>moved n. rd n) (nat len) [] s))"

definition ReadAtCurrentPosNoBestEffort ::
    "(nat \<Rightarrow> 's \<Rightarrow> io \<times> 's) \<Rightarrow> int \<Rightarrow> file_object \<Rightarrow> 's \<Rightarrow> (int \<times> string \<times> 's) option" where
  "ReadAtCurrentPosNoBestEffort rd len f s =
     (if \<not> IsValid f then None
      else if len < 0 then Some (- 1, [], s)
      else case rd (nat len) s of (r, s) \<Rightarrow> Some (io_result r, case r of Io bytes \<Rightarrow> bytes | _ \<Rightarrow> [], s))"

text \<open>A writing call gets the bytes already moved and the rest of the data; its answer is negative for an
  error.\<close>

function write_loop :: "(nat \<Rightarrow> string \<Rightarrow> 's \<Rightarrow> int \<times> 's) \<Rightarrow> string \<Rightarrow> nat \<Rightarrow> 's \<Rightarrow> int \<times> 's" where
  "write_loop wr data moved s =
     (case wr moved (drop moved data) s of
        (rv, s) \<Rightarrow>
          if rv \<le> 0 then (if moved \<noteq> 0 then int moved else rv, s)
          else if moved + nat rv < length data then write_loop wr data (moved + nat rv) s
          else (int (moved + nat rv), s))"
  by pat_completeness auto
termination
  by (relation "measure (\<lambda>(wr, data, moved, s). length data - moved)") auto

declare write_loop.simps [simp del]

definition WriteAtCurrentPos ::
    "(string \<Rightarrow> 's \<Rightarrow> int \<times> 's) \<Rightarrow> string \<Rightarrow> file_object \<Rightarrow> 's \<Rightarrow> (int \<times> 's) option" where
  "WriteAtCurrentPos wr data f s =
     (if \<not> IsValid f then None else Some (write_loop (\<lambda>moved. wr) data 0 s))"

definition Write ::
    "bool \<Rightarrow> (string \<Rightarrow> 's \<Rightarrow> int \<times> 's) \<Rightarrow> (nat \<Rightarrow> string \<Rightarrow> 's \<Rightarrow> int \<times> 's) \<Rightarrow> nat \<Rightarrow> string \<Rightarrow> file_object \<Rightarrow> 's \<Rightarrow>
       (int \<times> 's) option" where
  "Write open_append wr pwrite offset data f s =
     (if open_append then WriteAtCurrentPos wr data f s
      else if \<not> IsValid f then None
      else Some (write_loop (\<lambda>moved. pwrite (offset + moved)) data 0 s))"

definition GetLength :: "(int \<Rightarrow> int option) \<Rightarrow> file_object \<Rightarrow> int option" where
  "GetLength fstat_size f =
     (if \<not> IsValid f then None else Some (case fstat_size (file_fd f) of None \<Rightarrow> 0 | Some n \<Rightarrow> n))"

definition SetTimes :: "(timeval \<Rightarrow> timeval \<Rightarrow> bool) \<Rightarrow> Time \<Rightarrow> Time \<Rightarrow> file_object \<Rightarrow> bool option" where
  "SetTimes futimes last_access_time last_modified_time f =
     (if \<not> IsValid f then None else Some (futimes (ToTimeval last_access_time) (ToTimeval last_modified_time)))"

definition ReadNoBestEffort ::
    "(nat \<Rightarrow> nat \<Rightarrow> 's \<Rightarrow> io \<times> 's) \<Rightarrow> nat \<Rightarrow> nat \<Rightarrow> file_object \<Rightarrow> 's \<Rightarrow> (int \<times> string \<times> 's) option" where
  "ReadNoBestEffort pread offset len f s =
     (if \<not> IsValid f then None
      else case pread offset len s of (r, s) \<Rightarrow> Some (io_result r, case r of Io bytes \<Rightarrow> bytes | _ \<Rightarrow> [], s))"

definition WriteAtCurrentPosNoBestEffort ::
    "(string \<Rightarrow> 's \<Rightarrow> int \<times> 's) \<Rightarrow> string \<Rightarrow> file_object \<Rightarrow> 's \<Rightarrow> (int \<times> 's) option" where
  "WriteAtCurrentPosNoBestEffort wr data f s = (if \<not> IsValid f then None else Some (wr data s))"

definition SetLength :: "(int \<Rightarrow> int \<Rightarrow> 's \<Rightarrow> int \<times> 's) \<Rightarrow> int \<Rightarrow> file_object \<Rightarrow> 's \<Rightarrow> (bool \<times> 's) option" where
  "SetLength ftruncate len f s =
     (if \<not> IsValid f then None else case ftruncate (file_fd f) len s of (r, s) \<Rightarrow> Some (r = 0, s))"

definition Flush :: "(int \<Rightarrow> 's \<Rightarrow> int \<times> 's) \<Rightarrow> file_object \<Rightarrow> 's \<Rightarrow> (bool \<times> 's) option" where
  "Flush fdatasync f s = (if \<not> IsValid f then None else case fdatasync (file_fd f) s of (r, s) \<Rightarrow> Some (r = 0, s))"

text \<open>Closing and moving; the list holds the descriptors that are closed.\<close>

definition Close :: "file_object \<Rightarrow> file_object \<times> int list" where
  "Close f = (if IsValid f then (f\<lparr>file_fd := - 1\<rparr>, [file_fd f]) else (f, []))"

definition SetPlatformFile :: "int \<Rightarrow> file_object \<Rightarrow> file_object option" where
  "SetPlatformFile fd f = (if IsValid f then None else Some (f\<lparr>file_fd := fd\<rparr>))"

definition File_move :: "file_object \<Rightarrow> file_object \<times> file_object" where
  "File_move other =
     (case TakePlatformFile other of
        (fd, other) \<Rightarrow> (\<lparr>file_fd = fd, error_details = error_details other, created = created other,
                         async = async other\<rparr>, other))"

definition File_assign :: "file_object \<Rightarrow> file_object \<Rightarrow> (file_object \<times> file_object \<times> int list) option" where
  "File_assign this other =
     (case Close this of (this, closed) \<Rightarrow>
      case TakePlatformFile other of (fd, other) \<Rightarrow>
        map_option (\<lambda>this. (this\<lparr>error_details := error_details other, created := created other,
                                async := async other\<rparr>, other, closed)) (SetPlatformFile fd this))"

definition CreateForAsyncHandle :: "int \<Rightarrow> file_object option" where
  "CreateForAsyncHandle fd = map_option (\<lambda>f. f\<lparr>async := True\<rparr>) (File_fd fd)"

lemma Close_not_valid [simp]: "\<not> IsValid (fst (Close f))"
  by (simp add: Close_def IsValid_def)

text \<open>The descriptor changes its owner: the assigned file has it, the other one has none, and the one the
  file had before is closed.\<close>

lemma File_assign_moves:
  "\<exists>this' other'. File_assign this other = Some (this', other', if IsValid this then [file_fd this] else []) \<and>
     this' = other \<and> \<not> IsValid other'"
  by (cases other) (auto simp: File_assign_def Close_def SetPlatformFile_def TakePlatformFile_def IsValid_def)

subsection \<open>Information about a file\<close>

datatype file_kind = Regular | Directory | Symlink | Special

record file_stat =
  st_kind :: file_kind
  st_mode_bits :: u32
  st_size :: int
  st_mtim :: timespec
  st_atim :: timespec
  st_ctim :: timespec

record file_info =
  info_size :: int
  is_directory :: bool
  is_symbolic_link :: bool
  last_modified :: Time
  last_accessed :: Time
  creation_time :: Time

definition stat_time :: "timespec \<Rightarrow> Time option" where
  "stat_time ts = do { t \<leftarrow> FromTimeT (tv_sec ts);
                       time_plus t (TimeDelta (tv_nsec ts sdiv kNanosecondsPerMicrosecond)) }"

definition FromStat :: "file_stat \<Rightarrow> file_info option" where
  "FromStat st = do {
     m \<leftarrow> stat_time (st_mtim st);
     a \<leftarrow> stat_time (st_atim st);
     c \<leftarrow> stat_time (st_ctim st);
     Some \<lparr>info_size = st_size st, is_directory = (st_kind st = Directory), is_symbolic_link = (st_kind st = Symlink),
           last_modified = m, last_accessed = a, creation_time = c\<rparr> }"

definition GetInfo :: "(int \<Rightarrow> file_stat option) \<Rightarrow> file_object \<Rightarrow> file_info option option" where
  "GetInfo fstat f =
     (if \<not> IsValid f then None
      else case fstat (file_fd f) of None \<Rightarrow> Some None | Some st \<Rightarrow> map_option Some (FromStat st))"
subsection \<open>What the loops rely on\<close>

text \<open>A reading call hands out the next bytes and an error consumes none; while the source is steady, it
  hands out at least one byte until the end. A writing call takes a prefix of the data, nonempty while the
  sink is steady.\<close>

locale reading =
  fixes rd :: "nat \<Rightarrow> 's \<Rightarrow> io \<times> 's"
    and unread :: "'s \<Rightarrow> string"
  assumes rd_bytes: "rd n s = (Io bytes, s') \<Longrightarrow> length bytes \<le> n \<and> unread s = bytes @ unread s'"
    and rd_error: "rd n s = (IoError e, s') \<Longrightarrow> unread s' = unread s"
begin

lemma read_loop_prefix:
  "read_loop (\<lambda>moved. rd) len acc s = (rv, got, s') \<Longrightarrow> length acc \<le> len \<Longrightarrow>
     \<exists>new. got = acc @ new \<and> unread s = new @ unread s' \<and> length got \<le> len \<and>
       (rv = int (length got) \<or> rv = - 1 \<and> got = [])"
proof (induction "len - length acc" arbitrary: acc s rule: less_induct)
  case less
  obtain r t where r: "rd (len - length acc) s = (r, t)" by fastforce
  show ?case
  proof (cases r)
    case (IoError e)
    with r rd_error [of _ s] less.prems show ?thesis by (subst (asm) read_loop.simps) (auto split: if_splits)
  next
    case (Io bytes)
    with r have b: "length bytes \<le> len - length acc" "unread s = bytes @ unread t" using rd_bytes by blast+
    show ?thesis
    proof (cases "bytes \<noteq> [] \<and> length (acc @ bytes) < len")
      case True
      then have "len - length (acc @ bytes) < len - length acc" by (auto intro!: diff_less_mono2)
      moreover have "read_loop (\<lambda>moved. rd) len (acc @ bytes) t = (rv, got, s')"
        using less.prems(1) r Io True by (subst (asm) read_loop.simps) simp
      ultimately show ?thesis using less.hyps [of "acc @ bytes" t] True b by auto
    next
      case False
      with less.prems r Io b show ?thesis by (subst (asm) read_loop.simps) (auto split: if_splits)
    qed
  qed
qed

end

locale steady_reading = reading +
  fixes steady :: "'a \<Rightarrow> bool"
  assumes rd_steady: "steady s \<Longrightarrow> rd n s = (r, s') \<Longrightarrow>
      steady s' \<and> (\<exists>bytes. r = Io bytes \<and> (bytes = [] \<longrightarrow> n = 0 \<or> unread s = []))"
begin

lemma read_loop_steady:
  "steady s \<Longrightarrow> read_loop (\<lambda>moved. rd) len acc s = (rv, got, s') \<Longrightarrow> length acc \<le> len \<Longrightarrow>
     steady s' \<and> got = acc @ take (len - length acc) (unread s) \<and> rv = int (length got) \<and>
     unread s' = drop (len - length acc) (unread s)"
proof (induction "len - length acc" arbitrary: acc s rule: less_induct)
  case less
  obtain r t where r: "rd (len - length acc) s = (r, t)" by fastforce
  with rd_steady [OF less.prems(1) r] obtain bytes where b: "r = Io bytes" "steady t"
    "bytes = [] \<longrightarrow> len - length acc = 0 \<or> unread s = []" by blast
  with r have u: "length bytes \<le> len - length acc" "unread s = bytes @ unread t" using rd_bytes by blast+
  show ?case
  proof (cases "bytes \<noteq> [] \<and> length (acc @ bytes) < len")
    case True
    then have "len - length (acc @ bytes) < len - length acc" by (auto intro!: diff_less_mono2)
    moreover have "read_loop (\<lambda>moved. rd) len (acc @ bytes) t = (rv, got, s')"
      using less.prems(2) r b True by (subst (asm) read_loop.simps) simp
    ultimately have "steady s' \<and> got = (acc @ bytes) @ take (len - length (acc @ bytes)) (unread t) \<and>
        rv = int (length got) \<and> unread s' = drop (len - length (acc @ bytes)) (unread t)"
      using less.hyps [of "acc @ bytes" t] b(2) True by simp
    with u True show ?thesis by simp
  next
    case False
    with less.prems r b u show ?thesis by (subst (asm) read_loop.simps) (auto split: if_splits)
  qed
qed

end

locale writing =
  fixes wr :: "string \<Rightarrow> 's \<Rightarrow> int \<times> 's"
    and written :: "'s \<Rightarrow> string"
    and steady :: "'s \<Rightarrow> bool"
  assumes wr_bytes: "wr data s = (rv, s') \<Longrightarrow>
      - 1 \<le> rv \<and> rv \<le> int (length data) \<and> written s' = written s @ take (nat rv) data"
    and wr_steady: "steady s \<Longrightarrow> wr data s = (rv, s') \<Longrightarrow> steady s' \<and> 0 \<le> rv \<and> (data \<noteq> [] \<longrightarrow> 0 < rv)"
begin

lemma write_loop_prefix:
  "write_loop (\<lambda>moved. wr) data moved s = (rv, s') \<Longrightarrow> moved \<le> length data \<Longrightarrow>
     written s' = written s @ take (nat rv - moved) (drop moved data) \<and> rv \<le> int (length data) \<and>
     (int moved \<le> rv \<or> moved = 0 \<and> rv = - 1) \<and>
     (steady s \<longrightarrow> steady s' \<and> rv = int (length data))"
proof (induction "length data - moved" arbitrary: moved s rule: less_induct)
  case less
  obtain n t where n: "wr (drop moved data) s = (n, t)" by fastforce
  note b = wr_bytes [OF n] and st = wr_steady [OF _ n]
  show ?case
  proof (cases "n \<le> 0")
    case True
    with less.prems n have "rv = (if moved \<noteq> 0 then int moved else n)" "s' = t"
      by (subst (asm) write_loop.simps, simp)+
    with b st True less.prems(2) show ?thesis by (auto split: if_splits)
  next
    case False
    define m where "m = moved + nat n"
    have m: "m \<le> length data" "moved < m" using b False less.prems(2) by (auto simp: m_def)
    have w: "written t = written s @ take (m - moved) (drop moved data)" using b by (simp add: m_def)
    show ?thesis
    proof (cases "m < length data")
      case True
      with less.prems n False have "write_loop (\<lambda>moved. wr) data m t = (rv, s')"
        by (subst (asm) write_loop.simps) (simp add: m_def)
      moreover have "length data - m < length data - moved" using True m by simp
      ultimately have IH: "written s' = written t @ take (nat rv - m) (drop m data)" "rv \<le> int (length data)"
          "int m \<le> rv" "steady t \<longrightarrow> steady s' \<and> rv = int (length data)"
        using less.hyps [of m t] m by auto
      have "take (nat rv - moved) (drop moved data) =
          take (m - moved) (drop moved data) @ take (nat rv - m) (drop m data)"
        using IH(3) m take_add [of "m - moved" "nat rv - m" "drop moved data"] by simp
      with IH w st m show ?thesis by auto
    next
      case False
      with less.prems n \<open>\<not> n \<le> 0\<close> have "rv = int m" "s' = t"
        by (subst (asm) write_loop.simps, simp add: m_def)+
      with False m w st show ?thesis by auto
    qed
  qed
qed

end

subsection \<open>A kernel that keeps it\<close>

text \<open>A stream to read and one to write, and what the kernel will do with the next calls: a negative choice
  is an interrupted call, any other limits the bytes moved; without further choices everything is moved.\<close>

record stream =
  unread_bytes :: string
  written_bytes :: string
  choices :: "int list"

definition stream_read :: "nat \<Rightarrow> stream \<Rightarrow> io \<times> stream" where
  "stream_read n s =
     (let c = (case choices s of [] \<Rightarrow> int n | c # _ \<Rightarrow> c); s = s\<lparr>choices := tl (choices s)\<rparr> in
      if c < 0 then (IoError EINTR, s)
      else let k = min n (Suc (nat c)) in (Io (take k (unread_bytes s)), s\<lparr>unread_bytes := drop k (unread_bytes s)\<rparr>))"

definition stream_write :: "string \<Rightarrow> stream \<Rightarrow> int \<times> stream" where
  "stream_write data s =
     (let c = (case choices s of [] \<Rightarrow> int (length data) | c # _ \<Rightarrow> c); s = s\<lparr>choices := tl (choices s)\<rparr> in
      if c < 0 then (- 1, s)
      else let k = min (length data) (Suc (nat c)) in (int k, s\<lparr>written_bytes := written_bytes s @ take k data\<rparr>))"

definition steady_stream :: "stream \<Rightarrow> bool" where
  "steady_stream s \<longleftrightarrow> (\<forall>c\<in>set (choices s). 0 \<le> c)"

lemma steady_tl: "\<forall>c\<in>set cs. P c \<Longrightarrow> \<forall>c\<in>set (tl cs). P c"
  by (cases cs) auto

interpretation stream_in: steady_reading stream_read unread_bytes steady_stream
proof
  fix n s bytes s'
  assume "stream_read n s = (Io bytes, s')"
  then show "length bytes \<le> n \<and> unread_bytes s = bytes @ unread_bytes s'"
    by (auto simp: stream_read_def Let_def split: if_splits)
next
  fix n s e s'
  assume "stream_read n s = (IoError e, s')"
  then show "unread_bytes s' = unread_bytes s" by (auto simp: stream_read_def Let_def split: if_splits)
next
  fix s n r s'
  assume st: "steady_stream s" and r: "stream_read n s = (r, s')"
  have "0 \<le> (case choices s of [] \<Rightarrow> int n | c # _ \<Rightarrow> c)"
    using st by (cases "choices s") (auto simp: steady_stream_def)
  with r show "steady_stream s' \<and> (\<exists>bytes. r = Io bytes \<and> (bytes = [] \<longrightarrow> n = 0 \<or> unread_bytes s = []))"
    using steady_tl [OF st [unfolded steady_stream_def]]
    by (auto simp: stream_read_def steady_stream_def Let_def split: if_splits)
qed

interpretation stream_out: writing stream_write written_bytes steady_stream
proof
  fix data s rv s'
  assume "stream_write data s = (rv, s')"
  then show "- 1 \<le> rv \<and> rv \<le> int (length data) \<and> written_bytes s' = written_bytes s @ take (nat rv) data"
    by (auto simp: stream_write_def Let_def split: if_splits)
next
  fix s data rv s'
  assume st: "steady_stream s" and r: "stream_write data s = (rv, s')"
  have "0 \<le> (case choices s of [] \<Rightarrow> int (length data) | c # _ \<Rightarrow> c)"
    using st by (cases "choices s") (auto simp: steady_stream_def)
  with r show "steady_stream s' \<and> 0 \<le> rv \<and> (data \<noteq> [] \<longrightarrow> 0 < rv)"
    using steady_tl [OF st [unfolded steady_stream_def]]
    by (auto simp: stream_write_def steady_stream_def Let_def split: if_splits)
qed
subsection \<open>Properties\<close>

text \<open>C37: Whatever the kernel does with the single calls (partial transfers, interruptions), reading a valid
  file consumes exactly the bytes it returns, at most as many as asked for, and reports their number, or -1
  if the first call fails; writing has written exactly the prefix of the data whose length it reports. If no
  call fails, reading gives as many bytes as asked for or are left, and writing writes all of the data.\<close>

theorem file_transfers:
  assumes "IsValid f" and "0 \<le> len"
  shows "(\<exists>rv got s'. ReadAtCurrentPos stream_read len f s = Some (rv, got, s') \<and>
      unread_bytes s = got @ unread_bytes s' \<and> length got \<le> nat len \<and>
      (rv = int (length got) \<or> rv = - 1 \<and> got = []) \<and>
      (steady_stream s \<longrightarrow> rv = int (length got) \<and> got = take (nat len) (unread_bytes s))) \<and>
    (\<exists>rv s'. WriteAtCurrentPos stream_write data f s = Some (rv, s') \<and>
      written_bytes s' = written_bytes s @ take (nat rv) data \<and> - 1 \<le> rv \<and> rv \<le> int (length data) \<and>
      (steady_stream s \<longrightarrow> rv = int (length data)))"
proof
  obtain rv got s' where r: "read_loop (\<lambda>moved. stream_read) (nat len) [] s = (rv, got, s')"
    by (metis prod_cases3)
  with stream_in.read_loop_prefix [OF r] stream_in.read_loop_steady [OF _ r] assms
  show "\<exists>rv got s'. ReadAtCurrentPos stream_read len f s = Some (rv, got, s') \<and>
      unread_bytes s = got @ unread_bytes s' \<and> length got \<le> nat len \<and>
      (rv = int (length got) \<or> rv = - 1 \<and> got = []) \<and>
      (steady_stream s \<longrightarrow> rv = int (length got) \<and> got = take (nat len) (unread_bytes s))"
    by (intro exI [of _ rv] exI [of _ got] exI [of _ s']) (auto simp: ReadAtCurrentPos_def)
  obtain n t where w: "write_loop (\<lambda>moved. stream_write) data 0 s = (n, t)" by fastforce
  with stream_out.write_loop_prefix [OF w] assms(1)
  show "\<exists>rv s'. WriteAtCurrentPos stream_write data f s = Some (rv, s') \<and>
      written_bytes s' = written_bytes s @ take (nat rv) data \<and> - 1 \<le> rv \<and> rv \<le> int (length data) \<and>
      (steady_stream s \<longrightarrow> rv = int (length data))"
    by (intro exI [of _ n] exI [of _ t]) (auto simp: WriteAtCurrentPos_def)
qed

theorem file_transfers_witness:
  "\<exists>got s'. ReadAtCurrentPos stream_read 5 \<lparr>file_fd = 3, error_details = FILE_OK, created = False, async = False\<rparr>
      \<lparr>unread_bytes = ''abcdefgh'', written_bytes = [], choices = [1, 0]\<rparr> = Some (5, got, s') \<and>
    got = ''abcde'' \<and> unread_bytes s' = ''fgh''"
  using file_transfers [of "\<lparr>file_fd = 3, error_details = FILE_OK, created = False, async = False\<rparr>" 5
      "\<lparr>unread_bytes = ''abcdefgh'', written_bytes = [], choices = [1, 0]\<rparr>" "[]"]
  by (auto simp: IsValid_def steady_stream_def)
subsection \<open>Quirks\<close>

text \<open>\<open>FLAG_OPEN_TRUNCATED\<close>, which is for an existing file, passes \<open>O_CREAT\<close>; the times of \<open>Info\<close> come
  from \<open>FromTimeT\<close>, which counts from 1601, those that \<open>SetTimes\<close> passes from \<open>ToTimeval\<close>, from 1970.\<close>

lemma open_truncated_creates:
  "open_flags_of (flag FLAG_OPEN_TRUNCATED OR flag FLAG_WRITE) = Some (Inr (O_CREAT OR O_TRUNC OR O_WRONLY))"
  by code_simp

lemma stat_time_epoch:
  "stat_time \<lparr>tv_sec = 1, tv_nsec = 0\<rparr> = Some (Time (kTimeTToMicrosecondsOffset + kMicrosecondsPerSecond))"
  "ToTimeval (Time kMicrosecondsPerSecond) = \<lparr>val_sec = 1, val_usec = 0\<rparr>"
  by code_simp+

end
