(* ===== verification/File_Util.thy ===== *)
theory File_Util
  imports File_Io
begin

text \<open>
  \<^verbatim>\<open>base/file_util.cc\<close>, \<^verbatim>\<open>base/file_enumerator.cc\<close> and \<^verbatim>\<open>base/scoped_temp_dir.cc\<close>. Functions on the contents
  of files get the contents; those that work on paths get the system calls as a record over the state
  \<open>'f\<close> of the file system. \<open>None\<close> is a failed \<open>DCHECK\<close> or a call that does not return.
\<close>

unbundle bit_operations_syntax

subsection \<open>Comparing files\<close>

text \<open>A file that is open has its content left to read; \<open>eof\<close> is set when a read wants more than there is.\<close>

definition contents_buffer :: nat where "contents_buffer = 2056"

lemma contents_buffer_pos [simp]: "0 < contents_buffer"
  by (simp add: contents_buffer_def)

function contents_loop :: "string \<Rightarrow> string \<Rightarrow> bool" where
  "contents_loop c1 c2 =
     (let got1 = take contents_buffer c1; got2 = take contents_buffer c2;
          eof1 = (length c1 < contents_buffer); eof2 = (length c2 < contents_buffer) in
      if eof1 \<noteq> eof2 \<or> length got1 \<noteq> length got2 \<or> got1 \<noteq> got2 then False
      else if \<not> eof1 \<or> \<not> eof2 then contents_loop (drop contents_buffer c1) (drop contents_buffer c2)
      else True)"
  by pat_completeness auto
termination
proof (relation "measure (\<lambda>(c1, c2). length c1)", goal_cases)
  case 1
  show ?case by simp
next
  case prems: (2 c1 c2)
  then have "contents_buffer \<le> length c1" by auto
  then show ?case by (auto simp: contents_buffer_def)
qed

declare contents_loop.simps [simp del]

definition ContentsEqual :: "string option \<Rightarrow> string option \<Rightarrow> bool" where
  "ContentsEqual file1 file2 =
     (case (file1, file2) of (Some c1, Some c2) \<Rightarrow> contents_loop c1 c2 | _ \<Rightarrow> False)"

text \<open>\<open>getline\<close>: the line, the rest and whether the end of the file was met.\<close>

definition get_line :: "string \<Rightarrow> string \<times> string \<times> bool" where
  "get_line s =
     (let line = takeWhile (\<lambda>c. c \<noteq> CHR 0x0A) s; rest = dropWhile (\<lambda>c. c \<noteq> CHR 0x0A) s in
      (line, tl rest, rest = []))"

definition line_end :: "string \<Rightarrow> nat" where
  "line_end line = find_last_not_of line [CHR 0x0D, CHR 0x0A] npos"

text \<open>The second line is cut where the first one ends.\<close>

definition cut_lines :: "string \<Rightarrow> string \<Rightarrow> string \<times> string" where
  "cut_lines line1 line2 =
     (let end1 = line_end line1;
          line1 = (if end1 = npos then [] else if end1 + 1 < length line1 then take (end1 + 1) line1 else line1);
          end2 = line_end line1;
          line2 = (if end2 = npos then [] else if end2 + 1 < length line2 then take (end2 + 1) line2 else line2)
      in (line1, line2))"

function text_loop :: "string \<Rightarrow> string \<Rightarrow> bool" where
  "text_loop c1 c2 =
     (case get_line c1 of (line1, rest1, eof1) \<Rightarrow>
      case get_line c2 of (line2, rest2, eof2) \<Rightarrow>
        if eof1 \<noteq> eof2 then False
        else case cut_lines line1 line2 of (line1, line2) \<Rightarrow>
          if line1 \<noteq> line2 then False
          else if \<not> eof1 \<or> \<not> eof2 then text_loop rest1 rest2 else True)"
  by pat_completeness auto
termination
proof (relation "measure (\<lambda>(c1, c2). length c1)", goal_cases)
  case 1
  show ?case by simp
next
  case prems: (2 c1)
  then have "dropWhile (\<lambda>c. c \<noteq> CHR 0x0A) c1 \<noteq> []"
    by (auto simp: get_line_def Let_def)
  then have "length (tl (dropWhile (\<lambda>c. c \<noteq> CHR 0x0A) c1)) < length (dropWhile (\<lambda>c. c \<noteq> CHR 0x0A) c1)"
    by (cases "dropWhile (\<lambda>c. c \<noteq> CHR 0x0A) c1") auto
  also have "\<dots> \<le> length c1" by (rule length_dropWhile_le)
  finally show ?case using prems by (auto simp: get_line_def Let_def)
qed

declare text_loop.simps [simp del]

definition TextContentsEqual :: "string option \<Rightarrow> string option \<Rightarrow> bool" where
  "TextContentsEqual file1 file2 =
     (case (file1, file2) of (Some c1, Some c2) \<Rightarrow> text_loop c1 c2 | _ \<Rightarrow> False)"
subsection \<open>Lemmas: comparing files\<close>

lemma contents_loop_iff: "contents_loop c1 c2 \<longleftrightarrow> c1 = c2"
proof (induction c1 c2 rule: contents_loop.induct)
  case (1 c1 c2)
  let ?n = contents_buffer
  show ?case
  proof (cases "length c1 < ?n \<or> length c2 < ?n")
    case True
    then show ?thesis by (subst contents_loop.simps) (auto simp: Let_def)
  next
    case False
    have "c1 = c2 \<longleftrightarrow> take ?n c1 = take ?n c2 \<and> drop ?n c1 = drop ?n c2" by (metis append_take_drop_id)
    with False 1 show ?thesis by (subst contents_loop.simps) (auto simp: Let_def)
  qed
qed

text \<open>The lines of a text, and a line without its line ends.\<close>

function lines_of :: "string \<Rightarrow> string list" where
  "lines_of s =
     (case get_line s of (line, rest, at_end) \<Rightarrow> if at_end then [line] else line # lines_of rest)"
  by pat_completeness auto
termination
proof (relation "measure length", goal_cases)
  case 1
  show ?case by simp
next
  case prems: (2 s)
  then have "dropWhile (\<lambda>c. c \<noteq> CHR 0x0A) s \<noteq> []"
    by (auto simp: get_line_def Let_def)
  then have "length (tl (dropWhile (\<lambda>c. c \<noteq> CHR 0x0A) s)) < length (dropWhile (\<lambda>c. c \<noteq> CHR 0x0A) s)"
    by (cases "dropWhile (\<lambda>c. c \<noteq> CHR 0x0A) s") auto
  also have "\<dots> \<le> length s" by (rule length_dropWhile_le)
  finally show ?case using prems by (auto simp: get_line_def Let_def)
qed

declare lines_of.simps [simp del]

definition strip_line :: "string \<Rightarrow> string" where
  "strip_line s = rev (dropWhile (\<lambda>c. c \<in> {CHR 0x0D, CHR 0x0A}) (rev s))"

lemma strip_line_take: "strip_line s = take (length (strip_line s)) s"
proof -
  have "rev s = takeWhile (\<lambda>c. c \<in> {CHR 0x0D, CHR 0x0A}) (rev s) @ dropWhile (\<lambda>c. c \<in> {CHR 0x0D, CHR 0x0A}) (rev s)"
    by (rule takeWhile_dropWhile_id [symmetric])
  then have "s = strip_line s @ rev (takeWhile (\<lambda>c. c \<in> {CHR 0x0D, CHR 0x0A}) (rev s))"
    unfolding strip_line_def by (metis rev_append rev_rev_ident)
  then show ?thesis by (metis append_eq_conv_conj)
qed

lemma strip_line_idem: "strip_line (strip_line s) = strip_line s"
  by (simp add: strip_line_def)

lemma line_end_eq:
  assumes "length s < size_max"
  shows "line_end s = (if strip_line s = [] then npos else length (strip_line s) - 1)"
proof -
  define P where "P = (\<lambda>c. c \<in> set [CHR 0x0D, CHR 0x0A])"
  have len: "length (takeWhile P (rev s)) + length (dropWhile P (rev s)) = length s"
    by (metis length_append length_rev takeWhile_dropWhile_id)
  have strip: "strip_line s = rev (dropWhile P (rev s))" by (simp add: strip_line_def P_def)
  then have empty: "strip_line s = [] \<longleftrightarrow> (\<forall>c\<in>set s. P c)" by simp
  have "line_end s = (if \<forall>c\<in>set s. P c then npos else length s - 1 - length (takeWhile P (rev s)))"
    unfolding line_end_def P_def by (rule searches_from_ends(2) [OF assms])
  moreover have "length s - 1 - length (takeWhile P (rev s)) = length (strip_line s) - 1"
    using len unfolding strip length_rev by linarith
  ultimately show ?thesis unfolding empty by simp
qed

lemma last_not_npos: "0 < n \<Longrightarrow> n < size_max \<Longrightarrow> n - 1 \<noteq> npos"
  unfolding npos_def by linarith

lemma cut_lines_eq:
  assumes "length l1 < size_max" and "length l2 < size_max"
  shows "cut_lines l1 l2 = (strip_line l1, take (length (strip_line l1)) l2)"
proof -
  define t where "t = strip_line l1"
  have t: "t = take (length t) l1" "strip_line t = t" "length t \<le> length l1"
    unfolding t_def using strip_line_take [of l1] strip_line_idem [of l1] by (simp_all add: t_def) (metis length_take min.cobounded1)
  have end1: "line_end l1 = (if t = [] then npos else length t - 1)"
    using line_end_eq [OF assms(1)] by (simp add: t_def)
  have l1: "(if line_end l1 = npos then [] else if line_end l1 + 1 < length l1 then take (line_end l1 + 1) l1 else l1) = t"
  proof (cases "t = []")
    case False
    then have "0 < length t" by simp
    with False have "line_end l1 + 1 = length t" "line_end l1 \<noteq> npos"
      using end1 t(3) assms(1) last_not_npos [of "length t"] by simp_all
    with t(1,3) show ?thesis by (cases "length t = length l1") (auto simp: not_less)
  qed (simp add: end1)
  have end2: "line_end t = (if t = [] then npos else length t - 1)"
    using line_end_eq [of t] t(2,3) assms(1) by simp
  have "(if line_end t = npos then [] else if line_end t + 1 < length l2 then take (line_end t + 1) l2 else l2) =
      take (length t) l2"
  proof (cases "t = []")
    case False
    then have "0 < length t" by simp
    with False have "line_end t + 1 = length t" "line_end t \<noteq> npos"
      using end2 t(3) assms(1) last_not_npos [of "length t"] by simp_all
    then show ?thesis by auto
  next
    case True
    with end2 have "line_end t = npos" by simp
    with True show ?thesis by simp
  qed
  then show ?thesis unfolding cut_lines_def Let_def l1 by (simp add: t_def)
qed

lemma get_line_shorter:
  assumes "get_line s = (line, rest, at_end)"
  shows "length line \<le> length s \<and> length rest \<le> length s"
proof
  let ?P = "\<lambda>c. c \<noteq> CHR 0x0A"
  have l: "line = takeWhile ?P s" and r: "rest = tl (dropWhile ?P s)"
    using assms by (simp_all add: get_line_def Let_def)
  show "length line \<le> length s" unfolding l by (rule length_takeWhile_le)
  have "length rest \<le> length (dropWhile ?P s)" unfolding r length_tl by (rule diff_le_self)
  then show "length rest \<le> length s" using length_dropWhile_le order_trans by blast
qed

lemma take_prefix_iff: "p = take (length p) l \<longleftrightarrow> prefix p l"
proof
  assume p: "p = take (length p) l"
  from take_is_prefix [of "length p" l] show "prefix p l" unfolding p [symmetric] .
qed (auto simp: prefix_def)

lemma text_loop_lines:
  assumes "length c1 < size_max" and "length c2 < size_max"
  shows "text_loop c1 c2 \<longleftrightarrow> list_all2 (\<lambda>l1 l2. prefix (strip_line l1) l2) (lines_of c1) (lines_of c2)"
  using assms
proof (induction c1 c2 rule: text_loop.induct)
  case (1 c1 c2)
  obtain l1 r1 e1 where g1: "get_line c1 = (l1, r1, e1)" by (metis prod_cases3)
  obtain l2 r2 e2 where g2: "get_line c2 = (l2, r2, e2)" by (metis prod_cases3)
  have len: "length l1 < size_max" "length l2 < size_max" "length r1 < size_max" "length r2 < size_max"
    using get_line_shorter [OF g1] get_line_shorter [OF g2] 1(2,3) by auto
  note cut = cut_lines_eq [OF len(1,2)]
  have eq: "strip_line l1 = take (length (strip_line l1)) l2 \<longleftrightarrow> prefix (strip_line l1) l2"
    by (rule take_prefix_iff)
  have ne: "lines_of r \<noteq> []" for r by (subst lines_of.simps) (auto split: prod.split)
  show ?case
  proof (cases "e1 = e2 \<and> prefix (strip_line l1) l2 \<and> \<not> e1")
    case True
    then have "text_loop c1 c2 = text_loop r1 r2"
      by (subst text_loop.simps) (auto simp: g1 g2 cut eq)
    moreover have "text_loop r1 r2 = list_all2 (\<lambda>l1 l2. prefix (strip_line l1) l2) (lines_of r1) (lines_of r2)"
      using True eq len(3,4) by (intro 1(1) [OF g1 [symmetric] refl g2 [symmetric] refl _ cut [symmetric]]) auto
    moreover have "lines_of c1 = l1 # lines_of r1" "lines_of c2 = l2 # lines_of r2"
      using True by (subst lines_of.simps, simp add: g1 g2)+
    ultimately show ?thesis using True by simp
  next
    case False
    have "lines_of c1 = (if e1 then [l1] else l1 # lines_of r1)" "lines_of c2 = (if e2 then [l2] else l2 # lines_of r2)"
      by (subst lines_of.simps, simp add: g1 g2)+
    moreover have "text_loop c1 c2 = (e1 = e2 \<and> prefix (strip_line l1) l2)"
      using False by (subst text_loop.simps) (auto simp: g1 g2 cut eq)
    ultimately show ?thesis using False ne [of r1] ne [of r2] by (auto simp: list_all2_Cons1 list_all2_Cons2 split: if_splits)
  qed
qed
subsection \<open>Whole files\<close>

text \<open>\<open>fread\<close> in blocks of 64 KiB from what is left of the file.\<close>

definition read_block :: nat where "read_block = 65536"

function fread_loop :: "nat \<Rightarrow> nat \<Rightarrow> string \<Rightarrow> string \<Rightarrow> bool \<times> string" where
  "fread_loop max_size so_far contents rest =
     (if rest = [] then (True, contents)
      else let len = min read_block (length rest);
               contents = contents @ take (min len (max_size - so_far)) rest in
           if max_size - so_far < len then (False, contents)
           else fread_loop max_size (so_far + len) contents (drop len rest))"
  by pat_completeness auto
termination
  by (relation "measure (\<lambda>(max_size, so_far, contents, rest). length rest)") (auto simp: read_block_def)

declare fread_loop.simps [simp del]

text \<open>\<open>open_read\<close>: the content up to where reading ends, and whether it ends with an error.\<close>

definition ReadFileToStringWithMaxSize ::
    "(string \<Rightarrow> (string \<times> bool) option) \<Rightarrow> file_path \<Rightarrow> nat \<Rightarrow> bool \<times> string" where
  "ReadFileToStringWithMaxSize open_read path max_size =
     (if ReferencesParent path then (False, [])
      else case open_read path of
             None \<Rightarrow> (False, [])
           | Some (content, ferror) \<Rightarrow>
               (case fread_loop max_size 0 [] content of (status, contents) \<Rightarrow> (status \<and> \<not> ferror, contents)))"

definition ReadFileToString :: "(string \<Rightarrow> (string \<times> bool) option) \<Rightarrow> file_path \<Rightarrow> bool \<times> string" where
  "ReadFileToString open_read path = ReadFileToStringWithMaxSize open_read path npos"

text \<open>A write that moves nothing is tried again, without end.\<close>

partial_function (option) WriteFileDecriptor ::
    "(string \<Rightarrow> 's \<Rightarrow> int \<times> 's) \<Rightarrow> string \<Rightarrow> 's \<Rightarrow> (bool \<times> 's) option" where
  "WriteFileDecriptor wr data s =
     (if data = [] then Some (True, s)
      else case wr data s of
             (n, s) \<Rightarrow> if n < 0 then Some (False, s) else WriteFileDecriptor wr (drop (nat n) data) s)"

record 'f fd_calls =
  creat :: "string \<Rightarrow> 'f \<Rightarrow> int \<times> 'f"
  open_to_append :: "string \<Rightarrow> 'f \<Rightarrow> int \<times> 'f"
  open_to_read :: "string \<Rightarrow> 'f \<Rightarrow> int \<times> 'f"
  write_fd :: "int \<Rightarrow> string \<Rightarrow> 'f \<Rightarrow> int \<times> 'f"
  read_fd :: "int \<Rightarrow> nat \<Rightarrow> 'f \<Rightarrow> io \<times> 'f"
  close_fd :: "int \<Rightarrow> 'f \<Rightarrow> int \<times> 'f"

definition WriteFile :: "'f fd_calls \<Rightarrow> file_path \<Rightarrow> string \<Rightarrow> 'f \<Rightarrow> (int \<times> 'f) option" where
  "WriteFile sys filename data f =
     (case creat sys filename f of (fd, f) \<Rightarrow>
        if fd < 0 then Some (- 1, f)
        else do {
          (ok, f) \<leftarrow> WriteFileDecriptor (write_fd sys fd) data f;
          let bytes_written = (if ok then int (length data) else - 1);
          (case close_fd sys fd f of (r, f) \<Rightarrow> Some (if r < 0 then - 1 else bytes_written, f)) })"

definition AppendToFile :: "'f fd_calls \<Rightarrow> file_path \<Rightarrow> string \<Rightarrow> 'f \<Rightarrow> (bool \<times> 'f) option" where
  "AppendToFile sys filename data f =
     (case open_to_append sys filename f of (fd, f) \<Rightarrow>
        if fd < 0 then Some (False, f)
        else do {
          (ok, f) \<leftarrow> WriteFileDecriptor (write_fd sys fd) data f;
          (case close_fd sys fd f of (r, f) \<Rightarrow> Some (ok \<and> \<not> r < 0, f)) })"

definition ReadFile :: "'f fd_calls \<Rightarrow> file_path \<Rightarrow> nat \<Rightarrow> 'f \<Rightarrow> (int \<times> string) \<times> 'f" where
  "ReadFile sys filename max_size f =
     (case open_to_read sys filename f of (fd, f) \<Rightarrow>
        if fd < 0 then ((- 1, []), f)
        else case read_fd sys fd max_size f of (r, f) \<Rightarrow>
             case close_fd sys fd f of (c, f) \<Rightarrow>
               (if c < 0 then (- 1, []) else (io_result r, case r of Io bytes \<Rightarrow> bytes | _ \<Rightarrow> []), f))"

text \<open>\<open>CopyFile\<close>: blocks of 32 KiB, each written out until the output has taken all of it.\<close>

partial_function (option) copy_out ::
    "(string \<Rightarrow> 'w \<Rightarrow> int \<times> 'w) \<Rightarrow> string \<Rightarrow> 'w \<Rightarrow> (bool \<times> 'w) option" where
  "copy_out wr rest w =
     (case write_loop (\<lambda>moved. wr) rest 0 w of
        (n, w) \<Rightarrow> if n < 0 then Some (False, w)
                  else if nat n < length rest then copy_out wr (drop (nat n) rest) w else Some (True, w))"

partial_function (option) copy_loop ::
    "(nat \<Rightarrow> 'r \<Rightarrow> io \<times> 'r) \<Rightarrow> (string \<Rightarrow> 'w \<Rightarrow> int \<times> 'w) \<Rightarrow> 'r \<Rightarrow> 'w \<Rightarrow> (bool \<times> 'r \<times> 'w) option" where
  "copy_loop rd wr r w =
     (case read_loop (\<lambda>moved. rd) 32768 [] r of
        (n, bytes, r) \<Rightarrow>
          if n < 0 then Some (False, r, w)
          else if n = 0 then Some (True, r, w)
          else Option.bind (copy_out wr bytes w)
                 (\<lambda>(ok, w). if ok then copy_loop rd wr r w else Some (False, r, w)))"

definition CopyFile ::
    "(bool \<Rightarrow> string \<Rightarrow> u32 \<Rightarrow> errno + int) \<Rightarrow> (nat \<Rightarrow> 'r \<Rightarrow> io \<times> 'r) \<Rightarrow> (string \<Rightarrow> 'w \<Rightarrow> int \<times> 'w) \<Rightarrow>
       file_path \<Rightarrow> file_path \<Rightarrow> 'r \<Rightarrow> 'w \<Rightarrow> (bool \<times> 'r \<times> 'w) option" where
  "CopyFile open_file rd wr from_path to_path r w = do {
     (infile, _) \<leftarrow> File open_file from_path (flag FLAG_OPEN OR flag FLAG_READ);
     if \<not> IsValid infile then Some (False, r, w)
     else do {
       (outfile, _) \<leftarrow> File open_file to_path (flag FLAG_WRITE OR flag FLAG_CREATE_ALWAYS);
       if \<not> IsValid outfile then Some (False, r, w) else copy_loop rd wr r w } }"

subsection \<open>Directories\<close>

record 'f path_calls =
  stat_of :: "string \<Rightarrow> 'f \<Rightarrow> errno + file_stat"
  lstat_of :: "string \<Rightarrow> 'f \<Rightarrow> errno + file_stat"
  mkdir :: "string \<Rightarrow> 'f \<Rightarrow> errno option \<times> 'f"
  rmdir :: "string \<Rightarrow> 'f \<Rightarrow> bool \<times> 'f"
  unlink :: "string \<Rightarrow> 'f \<Rightarrow> bool \<times> 'f"
  chmod :: "string \<Rightarrow> u32 \<Rightarrow> 'f \<Rightarrow> bool \<times> 'f"
  entries_of :: "string \<Rightarrow> 'f \<Rightarrow> string list option"

definition DirectoryExists :: "'f path_calls \<Rightarrow> file_path \<Rightarrow> 'f \<Rightarrow> bool" where
  "DirectoryExists sys path f =
     (case stat_of sys path f of Inl e \<Rightarrow> False | Inr st \<Rightarrow> st_kind st = Directory)"

text \<open>The path and its ancestors, the path first.\<close>

function subpaths :: "file_path \<Rightarrow> file_path list" where
  "subpaths path = path # (if DirName path \<noteq> path then subpaths (DirName path) else [])"
  by pat_completeness auto
termination
  by (relation "measure components_measure") (auto intro: DirName_decreases)

declare subpaths.simps [simp del]

fun create_loop :: "'f path_calls \<Rightarrow> file_path list \<Rightarrow> 'f \<Rightarrow> errno option \<times> 'f" where
  "create_loop sys [] f = (None, f)"
| "create_loop sys (p # ps) f =
     (if DirectoryExists sys p f then create_loop sys ps f
      else case mkdir sys p f of
             (None, f) \<Rightarrow> create_loop sys ps f
           | (Some e, f) \<Rightarrow> if \<not> DirectoryExists sys p f then (Some e, f) else create_loop sys ps f)"

definition CreateDirectoryAndGetError ::
    "'f path_calls \<Rightarrow> file_path \<Rightarrow> 'f \<Rightarrow> (bool \<times> file_error option) \<times> 'f" where
  "CreateDirectoryAndGetError sys full_path f =
     (case create_loop sys (rev (subpaths full_path)) f of
        (None, f) \<Rightarrow> ((True, None), f)
      | (Some e, f) \<Rightarrow> ((False, Some (OSErrorToFileError e)), f))"

definition CreateDirectory :: "'f path_calls \<Rightarrow> file_path \<Rightarrow> 'f \<Rightarrow> bool \<times> 'f" where
  "CreateDirectory sys full_path f =
     (case CreateDirectoryAndGetError sys full_path f of ((ok, _), f) \<Rightarrow> (ok, f))"

definition SetPosixFilePermissions :: "'f path_calls \<Rightarrow> file_path \<Rightarrow> u32 \<Rightarrow> 'f \<Rightarrow> (bool \<times> 'f) option" where
  "SetPosixFilePermissions sys path mode f =
     (if mode AND NOT 511 \<noteq> 0 then None
      else case stat_of sys path f of
             Inl e \<Rightarrow> Some (False, f)
           | Inr st \<Rightarrow> Some (chmod sys path ((st_mode_bits st AND NOT 511) OR (mode AND 511)) f))"

definition GetFileInfo :: "'f path_calls \<Rightarrow> file_path \<Rightarrow> 'f \<Rightarrow> file_info option option" where
  "GetFileInfo sys path f =
     (case stat_of sys path f of Inl e \<Rightarrow> Some None | Inr st \<Rightarrow> map_option Some (FromStat st))"

definition GetFileSize :: "'f path_calls \<Rightarrow> file_path \<Rightarrow> 'f \<Rightarrow> int option option" where
  "GetFileSize sys path f = map_option (map_option info_size) (GetFileInfo sys path f)"
subsection \<open>Properties: reading whole files\<close>

lemma fread_loop_eq:
  "so_far \<le> max_size \<Longrightarrow>
     fread_loop max_size so_far contents rest =
       (length rest \<le> max_size - so_far, contents @ take (max_size - so_far) rest)"
proof (induction "length rest" arbitrary: so_far contents rest rule: less_induct)
  case less
  let ?n = "min read_block (length rest)"
  have pos: "0 < read_block" by (simp add: read_block_def)
  show ?case
  proof (cases "rest = [] \<or> max_size - so_far < ?n")
    case True
    then show ?thesis by (subst fread_loop.simps) (auto simp: Let_def min_def)
  next
    case False
    then have "length (drop ?n rest) < length rest" using pos by auto
    moreover have "so_far + ?n \<le> max_size" using False less.prems by linarith
    ultimately have "fread_loop max_size (so_far + ?n) (contents @ take ?n rest) (drop ?n rest) =
        (length (drop ?n rest) \<le> max_size - (so_far + ?n),
         (contents @ take ?n rest) @ take (max_size - (so_far + ?n)) (drop ?n rest))"
      by (rule less.hyps)
    moreover have "take ?n rest @ take (max_size - (so_far + ?n)) (drop ?n rest) = take (max_size - so_far) rest"
    proof -
      have "max_size - so_far = ?n + (max_size - (so_far + ?n))" using \<open>so_far + ?n \<le> max_size\<close> by linarith
      then show ?thesis by (simp only: take_add)
    qed
    moreover have "min ?n (max_size - so_far) = ?n" using False by (intro min_absorb1) linarith
    ultimately show ?thesis using False by (subst fread_loop.simps) (auto simp: Let_def)
  qed
qed

text \<open>Reading a file into a string gives its first \<open>max_size\<close> bytes and succeeds exactly if there
  are no more and no read failed; a path that mentions a parent directory or a file that cannot be opened
  leaves the string empty and fails. Without a limit the whole content is read.\<close>

theorem read_file_to_string:
  "ReadFileToStringWithMaxSize open_read path max_size =
     (if ReferencesParent path then (False, [])
      else case open_read path of
             None \<Rightarrow> (False, [])
           | Some (content, ferror) \<Rightarrow> (length content \<le> max_size \<and> \<not> ferror, take max_size content))"
  by (auto simp: ReadFileToStringWithMaxSize_def fread_loop_eq split: option.split prod.split)

subsection \<open>Properties: comparing files\<close>

text \<open>C38: The contents of two files that open are equal exactly if \<open>ContentsEqual\<close> says so, for contents
  of any length, also multiples of its buffer; \<open>TextContentsEqual\<close> however compares every line of the first
  file, without its line end, with the start of the line of the second only.\<close>

theorem files_compared:
  assumes "length c1 < size_max" and "length c2 < size_max"
  shows "(ContentsEqual (Some c1) (Some c2) \<longleftrightarrow> c1 = c2) \<and>
    (TextContentsEqual (Some c1) (Some c2) \<longleftrightarrow>
      list_all2 (\<lambda>l1 l2. prefix (strip_line l1) l2) (lines_of c1) (lines_of c2))"
  using text_loop_lines [OF assms] by (simp_all add: ContentsEqual_def TextContentsEqual_def contents_loop_iff)

text \<open>So a text and one with longer lines are found equal, but not the other way round.\<close>

theorem files_compared_witness:
  "TextContentsEqual (Some ''ab'') (Some ''abc'') \<and> \<not> TextContentsEqual (Some ''abc'') (Some ''ab'') \<and>
   \<not> ContentsEqual (Some ''ab'') (Some ''abc'')"
proof -
  have l: "lines_of ''ab'' = [''ab'']" "lines_of ''abc'' = [''abc'']"
    by (subst lines_of.simps, simp add: get_line_def)+
  have s: "strip_line ''ab'' = ''ab''" "strip_line ''abc'' = ''abc''" by (simp_all add: strip_line_def)
  have n: "length ''ab'' < size_max" "length ''abc'' < size_max" by (simp_all add: size_max_def)
  from files_compared [OF n] files_compared [OF n(2,1)]
  show ?thesis by (simp add: l s)
qed
subsection \<open>Properties: copying\<close>

text \<open>What copying relies on: a read is empty only at the end, and a write of something moves something.\<close>

locale copying = steady_reading rd unread steady_in + writing wr written steady
  for rd :: "nat \<Rightarrow> 'r \<Rightarrow> io \<times> 'r" and unread and steady_in and wr :: "string \<Rightarrow> 'w \<Rightarrow> int \<times> 'w"
    and written and steady +
  assumes rd_end: "rd n r = (Io [], r') \<Longrightarrow> n = 0 \<or> unread r = []"
    and wr_some: "wr data w = (0, w') \<Longrightarrow> data = []"
begin

lemma read_loop_end:
  assumes "read_loop (\<lambda>moved. rd) len [] r = (0, got, r')" and "0 < len"
  shows "unread r = []"
proof -
  obtain a t where a: "rd len r = (a, t)" by fastforce
  show ?thesis
  proof (cases a)
    case (IoError e)
    with a assms show ?thesis by (subst (asm) read_loop.simps) auto
  next
    case (Io bytes)
    have "bytes = []"
    proof (rule ccontr)
      assume ne: "bytes \<noteq> []"
      show False
      proof (cases "length bytes < len")
        case True
        with a Io ne assms(1) have "read_loop (\<lambda>moved. rd) len bytes t = (0, got, r')"
          by (subst (asm) read_loop.simps) simp
        from read_loop_prefix [OF this] True ne show False by auto
      next
        case False
        with a Io ne assms(1) show False by (subst (asm) read_loop.simps) simp
      qed
    qed
    with a Io rd_end [of len r t] assms(2) show ?thesis by simp
  qed
qed

lemma write_loop_some:
  assumes "write_loop (\<lambda>moved. wr) data 0 w = (rv, w')" and "data \<noteq> []"
  shows "rv = - 1 \<or> 0 < rv"
proof -
  obtain n t where n: "wr data w = (n, t)" by fastforce
  have "n \<noteq> 0" using wr_some [of data w t] n assms(2) by auto
  moreover have "rv = 0 \<Longrightarrow> n \<le> 0"
  proof (rule ccontr)
    assume rv: "rv = 0" and "\<not> n \<le> 0"
    with n assms(1) have "nat n < length data \<and> write_loop (\<lambda>moved. wr) data (nat n) t = (0, w') \<or> n = 0"
      by (subst (asm) write_loop.simps) (auto split: if_splits)
    with \<open>\<not> n \<le> 0\<close> write_loop_prefix [of data "nat n" t 0 w'] show False by auto
  qed
  moreover have "n \<le> 0 \<Longrightarrow> rv = n" using n assms(1) by (subst (asm) write_loop.simps) simp
  moreover have "0 \<le> rv \<or> rv = - 1" using write_loop_prefix [OF assms(1)] by auto
  ultimately show ?thesis by linarith
qed

lemma copy_out_returns:
  "\<exists>ok k w'. copy_out wr rest w = Some (ok, w') \<and> written w' = written w @ take k rest \<and>
     (ok \<longrightarrow> length rest \<le> k) \<and> (steady w \<longrightarrow> ok \<and> steady w')"
proof (induction "length rest" arbitrary: rest w rule: less_induct)
  case less
  obtain n t where n: "write_loop (\<lambda>moved. wr) rest 0 w = (n, t)" by fastforce
  from write_loop_prefix [OF n] have w: "written t = written w @ take (nat n) rest" "n \<le> int (length rest)"
    "0 \<le> n \<or> n = - 1" "steady w \<Longrightarrow> steady t \<and> n = int (length rest)" by auto
  consider (failed) "n < 0" | (partial) "0 \<le> n" "nat n < length rest" | (all) "0 \<le> n" "length rest \<le> nat n"
    by linarith
  then show ?case
  proof cases
    case failed
    with n w show ?thesis by (intro exI [of _ False] exI [of _ 0] exI [of _ t]) (auto simp: copy_out.simps)
  next
    case all
    with n w show ?thesis
      by (intro exI [of _ True] exI [of _ "nat n"] exI [of _ t]) (auto simp: copy_out.simps)
  next
    case partial
    then have "rest \<noteq> []" by auto
    with write_loop_some [OF n] partial have "0 < nat n" by auto
    with partial have "length (drop (nat n) rest) < length rest" by simp
    from less.hyps [OF this, of t] obtain ok k w' where r: "copy_out wr (drop (nat n) rest) t = Some (ok, w')"
      "written w' = written t @ take k (drop (nat n) rest)" "ok \<longrightarrow> length (drop (nat n) rest) \<le> k"
      "steady t \<longrightarrow> ok \<and> steady w'" by blast
    have "copy_out wr rest w = Some (ok, w')"
      using n partial r(1) by (subst copy_out.simps) simp
    moreover have "written w' = written w @ take (nat n + k) rest" using r(2) w(1) by (simp add: take_add)
    moreover have "ok \<longrightarrow> length rest \<le> nat n + k" using r(3) by auto
    ultimately show ?thesis using r(4) w(4) partial by auto
  qed
qed

lemma copy_loop_returns:
  "\<exists>ok r' w' k. copy_loop rd wr r w = Some (ok, r', w') \<and> written w' = written w @ take k (unread r) \<and>
     (ok \<longrightarrow> length (unread r) \<le> k \<and> unread r' = []) \<and> (steady_in r \<and> steady w \<longrightarrow> ok)"
proof (induction "length (unread r)" arbitrary: r w rule: less_induct)
  case less
  obtain n got t where n: "read_loop (\<lambda>moved. rd) 32768 [] r = (n, got, t)" by (metis prod_cases3)
  from read_loop_prefix [OF n] have r: "unread r = got @ unread t" "n = int (length got) \<or> n = - 1 \<and> got = []"
    by auto
  from read_loop_steady [OF _ n] have st: "steady_in r \<Longrightarrow> steady_in t \<and> 0 \<le> n" by auto
  consider (failed) "n < 0" | (finished) "n = 0" | (more) "0 < n" by linarith
  then show ?case
  proof cases
    case failed
    with n st show ?thesis
      by (intro exI [of _ False] exI [of _ t] exI [of _ w] exI [of _ 0]) (auto simp: copy_loop.simps)
  next
    case finished
    with n read_loop_end [of 32768 r got t] have "unread r = []" by simp
    with n finished r show ?thesis
      by (intro exI [of _ True] exI [of _ t] exI [of _ w] exI [of _ 0]) (auto simp: copy_loop.simps)
  next
    case more
    with r have got: "n = int (length got)" "got \<noteq> []" by auto
    obtain ok k w1 where o: "copy_out wr got w = Some (ok, w1)" "written w1 = written w @ take k got"
      "ok \<longrightarrow> length got \<le> k" "steady w \<longrightarrow> ok \<and> steady w1" using copy_out_returns by blast
    show ?thesis
    proof (cases ok)
      case False
      have "take (min k (length got)) (unread r) = take k got" by (simp add: r(1) min_def)
      with False n more o show ?thesis
        by (intro exI [of _ False] exI [of _ t] exI [of _ w1] exI [of _ "min k (length got)"])
          (auto simp: copy_loop.simps)
    next
      case True
      have "length (unread t) < length (unread r)" using r(1) got(2) by simp
      from less.hyps [OF this, of w1] obtain ok' r' w' k' where c: "copy_loop rd wr t w1 = Some (ok', r', w')"
        "written w' = written w1 @ take k' (unread t)" "ok' \<longrightarrow> length (unread t) \<le> k' \<and> unread r' = []"
        "steady_in t \<and> steady w1 \<longrightarrow> ok'" by blast
      have "copy_loop rd wr r w = Some (ok', r', w')"
        using n more o(1) True c(1) by (subst copy_loop.simps) simp
      moreover have "written w' = written w @ take (length got + k') (unread r)"
        using c(2) o(2,3) True by (simp add: r(1))
      moreover have "ok' \<longrightarrow> length (unread r) \<le> length got + k' \<and> unread r' = []" using c(3) r(1) by auto
      ultimately show ?thesis using c(4) st o(4) by blast
    qed
  qed
qed

end

interpretation stream_copy: copying stream_read unread_bytes steady_stream stream_write written_bytes steady_stream
proof
  fix n r r'
  assume "stream_read n r = (Io [], r')"
  then show "n = 0 \<or> unread_bytes r = []" by (auto simp: stream_read_def Let_def split: if_splits)
next
  fix data w w'
  assume "stream_write data w = (0, w')"
  then have "min (length data) (Suc (nat (case choices w of [] \<Rightarrow> int (length data) | c # _ \<Rightarrow> c))) = 0"
    by (auto simp: stream_write_def Let_def split: if_splits)
  then show "data = []" by (simp add: min_def split: if_splits)
qed

text \<open>C36: Copying between files that open returns for whatever the kernel does with the single calls. What
  it has written is always a start of the source; if it reports success it is all of the source, and it
  does report success if no call fails.\<close>

theorem copy_file:
  assumes "\<not> ReferencesParent from_path" and "\<not> ReferencesParent to_path"
    and "open_file False from_path O_RDONLY = Inr fd_in" and "0 \<le> fd_in"
    and "open_file False to_path (O_CREAT OR O_TRUNC OR O_WRONLY) = Inr fd_out" and "0 \<le> fd_out"
  shows "\<exists>ok r' w' k. CopyFile open_file stream_read stream_write from_path to_path r w = Some (ok, r', w') \<and>
    written_bytes w' = written_bytes w @ take k (unread_bytes r) \<and>
    (ok \<longrightarrow> written_bytes w' = written_bytes w @ unread_bytes r \<and> unread_bytes r' = []) \<and>
    (steady_stream r \<and> steady_stream w \<longrightarrow> ok)"
proof -
  have fl: "open_flags_of (flag FLAG_OPEN OR flag FLAG_READ) = Some (Inr O_RDONLY)"
    "open_flags_of (flag FLAG_WRITE OR flag FLAG_CREATE_ALWAYS) = Some (Inr (O_CREAT OR O_TRUNC OR O_WRONLY))"
    by code_simp+
  have opened: "\<exists>f l. File open_file path flags = Some (f, l) \<and> IsValid f"
    if "\<not> ReferencesParent path" "open_flags_of flags = Some (Inr fl)" "open_file False path fl = Inr fd" "0 \<le> fd"
    for path flags fl fd
    using that by (auto simp: File_def Initialize_def DoInitialize_def IsValid_def Let_def)
  obtain f l where i: "File open_file from_path (flag FLAG_OPEN OR flag FLAG_READ) = Some (f, l)" "IsValid f"
    using opened [OF assms(1) fl(1) assms(3,4)] by blast
  obtain g m where o: "File open_file to_path (flag FLAG_WRITE OR flag FLAG_CREATE_ALWAYS) = Some (g, m)" "IsValid g"
    using opened [OF assms(2) fl(2) assms(5,6)] by blast
  have "CopyFile open_file stream_read stream_write from_path to_path r w = copy_loop stream_read stream_write r w"
    by (simp add: CopyFile_def i o)
  moreover obtain ok r' w' k where "copy_loop stream_read stream_write r w = Some (ok, r', w')"
    "written_bytes w' = written_bytes w @ take k (unread_bytes r)"
    "ok \<longrightarrow> length (unread_bytes r) \<le> k \<and> unread_bytes r' = []" "steady_stream r \<and> steady_stream w \<longrightarrow> ok"
    using stream_copy.copy_loop_returns by blast
  ultimately show ?thesis
    by (intro exI [of _ ok] exI [of _ r'] exI [of _ w'] exI [of _ k]) simp
qed

theorem copy_file_witness:
  "\<exists>ok r' w'. CopyFile (\<lambda>second path fl. Inr 3) stream_read stream_write ''a'' ''b''
      \<lparr>unread_bytes = ''abc'', written_bytes = [], choices = [1, 0]\<rparr>
      \<lparr>unread_bytes = [], written_bytes = ''x'', choices = [0, 0]\<rparr> = Some (ok, r', w') \<and> ok \<and> written_bytes w' = ''xabc''"
proof -
  let ?r = "\<lparr>unread_bytes = ''abc'', written_bytes = [], choices = [1, 0]\<rparr>"
  let ?w = "\<lparr>unread_bytes = [], written_bytes = ''x'', choices = [0, 0]\<rparr>"
  have plain: "plain ''a''" "plain ''b''" by (simp_all add: plain_def kStringTerminator_def)
  have "GetComponents ''a'' = [''a'']" "GetComponents ''b'' = [''b'']"
    using GetComponents_join(1) [of "[''a'']"] GetComponents_join(1) [of "[''b'']"] plain
    by (simp_all add: kCurrentDirectory_def npos_def size_max_def)
  then have "\<not> ReferencesParent ''a''" "\<not> ReferencesParent ''b''"
    by (simp_all add: ReferencesParent_def kParentDirectory_def)
  from copy_file [OF this, of "\<lambda>second path fl. Inr 3" 3 3 ?r ?w]
  obtain ok r' w' where c: "CopyFile (\<lambda>second path fl. Inr 3) stream_read stream_write ''a'' ''b'' ?r ?w = Some (ok, r', w')"
    "ok \<longrightarrow> written_bytes w' = written_bytes ?w @ unread_bytes ?r" "steady_stream ?r \<and> steady_stream ?w \<longrightarrow> ok"
    by auto
  have "steady_stream ?r" "steady_stream ?w" by (simp_all add: steady_stream_def)
  with c(3) have "ok" by blast
  with c(2) have "written_bytes w' = ''xabc''" by simp
  with c(1) \<open>ok\<close> show ?thesis by blast
qed
subsection \<open>Properties: writing a file\<close>

context copying
begin

lemma write_descriptor_returns:
  "\<exists>ok k w'. WriteFileDecriptor wr data w = Some (ok, w') \<and> written w' = written w @ take k data \<and>
     (ok \<longrightarrow> length data \<le> k) \<and> (steady w \<longrightarrow> ok \<and> steady w')"
proof (induction "length data" arbitrary: data w rule: less_induct)
  case less
  show ?case
  proof (cases "data = []")
    case True
    then show ?thesis
      by (intro exI [of _ True] exI [of _ 0] exI [of _ w]) (simp add: WriteFileDecriptor.simps)
  next
    case False
    obtain n t where n: "wr data w = (n, t)" by fastforce
    note b = wr_bytes [OF n] and st = wr_steady [OF _ n]
    show ?thesis
    proof (cases "n < 0")
      case True
      with False n b st show ?thesis
        by (intro exI [of _ False] exI [of _ 0] exI [of _ t]) (auto simp: WriteFileDecriptor.simps)
    next
      case pos: False
      have "n \<noteq> 0" using wr_some [of data w t] n False by auto
      with pos False have "length (drop (nat n) data) < length data" by simp
      from less.hyps [OF this, of t] obtain ok k w' where r: "WriteFileDecriptor wr (drop (nat n) data) t = Some (ok, w')"
        "written w' = written t @ take k (drop (nat n) data)" "ok \<longrightarrow> length (drop (nat n) data) \<le> k"
        "steady t \<longrightarrow> ok \<and> steady w'" by blast
      have "WriteFileDecriptor wr data w = Some (ok, w')"
        using False n pos r(1) by (subst WriteFileDecriptor.simps) simp
      moreover have "written w' = written w @ take (nat n + k) data" using r(2) b by (simp add: take_add)
      ultimately show ?thesis using r(3,4) st by auto
    qed
  qed
qed

end
subsection \<open>Streams, paths and times\<close>

definition MakeAbsoluteFilePath :: "(file_path \<Rightarrow> file_path option) \<Rightarrow> file_path \<Rightarrow> file_path" where
  "MakeAbsoluteFilePath realpath input = (case realpath input of None \<Rightarrow> [] | Some p \<Rightarrow> p)"

definition PathExists :: "(file_path \<Rightarrow> int) \<Rightarrow> file_path \<Rightarrow> bool" where
  "PathExists access path = (access path = 0)"

definition TouchFile ::
    "(bool \<Rightarrow> string \<Rightarrow> u32 \<Rightarrow> errno + int) \<Rightarrow> (timeval \<Rightarrow> timeval \<Rightarrow> bool) \<Rightarrow> file_path \<Rightarrow> Time \<Rightarrow> Time \<Rightarrow>
     bool option" where
  "TouchFile open_file futimes path accessed modified =
     do { (file, _) \<leftarrow> File open_file path (flag FLAG_OPEN OR flag FLAG_WRITE_ATTRIBUTES);
          if \<not> IsValid file then Some False else SetTimes futimes accessed modified file }"

text \<open>A stream is a number, the null pointer is None.\<close>

definition TruncateFile ::
    "(nat \<Rightarrow> int) \<Rightarrow> (nat \<Rightarrow> int) \<Rightarrow> (int \<Rightarrow> int \<Rightarrow> int) \<Rightarrow> nat option \<Rightarrow> bool" where
  "TruncateFile ftell fileno ftruncate file =
     (case file of None \<Rightarrow> False
      | Some s \<Rightarrow> if ftell s = - 1 then False else \<not> ftruncate (fileno s) (ftell s) \<noteq> 0)"

text \<open>\<open>fopen\<close> answers a stream, or the null pointer and \<^verbatim>\<open>errno\<close>; an interrupted call is made again.\<close>

partial_function (option) OpenFile ::
    "(file_path \<Rightarrow> string \<Rightarrow> 'f \<Rightarrow> (errno + nat) \<times> 'f) \<Rightarrow> file_path \<Rightarrow> string \<Rightarrow> 'f \<Rightarrow> (nat option \<times> 'f) option" where
  "OpenFile fopen filename mode f =
     (case fopen filename mode f of
        (Inl e, f1) \<Rightarrow> if e = EINTR then OpenFile fopen filename mode f1 else Some (None, f1)
      | (Inr s, f1) \<Rightarrow> Some (Some s, f1))"

definition CloseFile :: "(nat \<Rightarrow> int) \<Rightarrow> nat option \<Rightarrow> bool" where
  "CloseFile fclose file = (case file of None \<Rightarrow> True | Some s \<Rightarrow> fclose s = 0)"

text \<open>The file is passed by value: what it still holds at the end is closed.\<close>

definition FileToFILE :: "(int \<Rightarrow> nat option) \<Rightarrow> file_object \<Rightarrow> nat option \<times> int list" where
  "FileToFILE fdopen file =
     (case fdopen (file_fd file) of
        None \<Rightarrow> (None, snd (Close file))
      | Some s \<Rightarrow> (Some s, snd (Close (snd (TakePlatformFile file)))))"

text \<open>Touching opens the file once, for reading, and sets the two times; a path that goes up is refused.\<close>

lemma TouchFile_cases:
  "TouchFile open_file futimes path a m =
     Some (\<not> ReferencesParent path \<and>
           (case open_file False path O_RDONLY of
              Inl e \<Rightarrow> False | Inr fd \<Rightarrow> fd \<noteq> - 1 \<and> futimes (ToTimeval a) (ToTimeval m)))"
proof -
  let ?f = "flag FLAG_OPEN OR flag FLAG_WRITE_ATTRIBUTES"
  have bits: "has ?f g = (g = FLAG_OPEN \<or> g = FLAG_WRITE_ATTRIBUTES)" for g
    by (cases g) (simp_all add: has_def flag_def)
  show ?thesis
    by (auto simp: TouchFile_def File_def Initialize_def DoInitialize_def open_flags_of_def bits IsValid_def
        SetTimes_def O_RDONLY_def Let_def split: sum.splits)
qed

text \<open>However often the call is interrupted, the first other answer is the result.\<close>

lemma OpenFile_interrupted:
  assumes "\<forall>i<n. fst (fopen p m (f i)) = Inl EINTR \<and> snd (fopen p m (f i)) = f (Suc i)"
    and "fopen p m (f n) = (r, f1)" and "r \<noteq> Inl EINTR"
  shows "OpenFile fopen p m (f 0) = Some (case r of Inl e \<Rightarrow> None | Inr s \<Rightarrow> Some s, f1)"
proof -
  have "OpenFile fopen p m (f (n - k)) = Some (case r of Inl e \<Rightarrow> None | Inr s \<Rightarrow> Some s, f1)" if "k \<le> n" for k
    using that
  proof (induction k)
    case 0
    with assms(2,3) show ?case by (subst OpenFile.simps) (auto split: sum.splits)
  next
    case (Suc k)
    then have "fopen p m (f (n - Suc k)) = (Inl EINTR, f (n - k))"
      using assms(1) by (metis Suc_diff_Suc Suc_le_lessD diff_less prod.collapse zero_less_Suc less_le_trans zero_less_diff)
    with Suc show ?case by (subst OpenFile.simps) simp
  qed
  from this [of n] show ?thesis by simp
qed

text \<open>The descriptor belongs to the stream or has been closed, never both.\<close>

lemma FileToFILE_owner:
  assumes "IsValid file"
  shows "FileToFILE fdopen file =
     (case fdopen (file_fd file) of None \<Rightarrow> (None, [file_fd file]) | Some s \<Rightarrow> (Some s, []))"
  using assms by (auto simp: FileToFILE_def Close_def TakePlatformFile_def IsValid_def split: option.splits)

end
