(* ===== verification/File_Enum.thy ===== *)
theory File_Enum
  imports File_Util
begin

text \<open>
  \<^verbatim>\<open>base/file_enumerator.cc\<close>, \<open>DeleteFile\<close> and the temporary files of \<^verbatim>\<open>base/file_util.cc\<close>,
  \<^verbatim>\<open>base/scoped_temp_dir.cc\<close> and \<^verbatim>\<open>base/dir_reader.h\<close>, over the system calls of \<open>path_calls\<close>. \<open>None\<close> is a
  failed \<open>DCHECK\<close> or a loop that does not end.
\<close>

unbundle bit_operations_syntax

subsection \<open>The enumerator\<close>

definition FILES :: u32 where "FILES = 1"
definition DIRECTORIES :: u32 where "DIRECTORIES = 2"
definition INCLUDE_DOT_DOT :: u32 where "INCLUDE_DOT_DOT = 4"
definition SHOW_SYM_LINKS :: u32 where "SHOW_SYM_LINKS = 16"

text \<open>The status of an entry is \<open>None\<close> where the code clears it because the call failed.\<close>

record entry_info =
  filename :: file_path
  entry_stat :: "file_stat option"

record enumerator =
  directory_entries :: "entry_info list"
  current_directory_entry :: nat
  root_path :: file_path
  recursive :: bool
  file_type :: u32
  pattern :: string
  pending_paths :: "file_path list"

definition FileEnumerator :: "file_path \<Rightarrow> bool \<Rightarrow> u32 \<Rightarrow> enumerator option" where
  "FileEnumerator root rec ft =
     (if rec \<and> INCLUDE_DOT_DOT AND ft \<noteq> 0 then None
      else Some \<lparr>directory_entries = [], current_directory_entry = 0, root_path = root, recursive = rec,
                 file_type = ft, pattern = [], pending_paths = [root]\<rparr>)"

definition FileEnumerator_pattern :: "file_path \<Rightarrow> bool \<Rightarrow> u32 \<Rightarrow> string \<Rightarrow> enumerator option" where
  "FileEnumerator_pattern root rec ft pat =
     do { full \<leftarrow> Append root pat;
          e \<leftarrow> FileEnumerator root rec ft;
          Some (e\<lparr>pattern := if pat = [] then [] else full\<rparr>) }"

definition entry_IsDirectory :: "entry_info \<Rightarrow> bool" where
  "entry_IsDirectory i = (case entry_stat i of None \<Rightarrow> False | Some st \<Rightarrow> st_kind st = Directory)"

definition GetSize :: "entry_info \<Rightarrow> int" where
  "GetSize i = (case entry_stat i of None \<Rightarrow> 0 | Some st \<Rightarrow> st_size st)"

definition enum_GetInfo :: "enumerator \<Rightarrow> entry_info option" where
  "enum_GetInfo e =
     (if current_directory_entry e < length (directory_entries e)
      then Some (directory_entries e ! current_directory_entry e) else None)"

definition ShouldSkip :: "u32 \<Rightarrow> file_path \<Rightarrow> bool" where
  "ShouldSkip ft path =
     (let basename = BaseName path in
      basename = ''.'' \<or> (basename = ''..'' \<and> \<not> INCLUDE_DOT_DOT AND ft \<noteq> 0))"

fun read_entries :: "'f path_calls \<Rightarrow> file_path \<Rightarrow> bool \<Rightarrow> 'f \<Rightarrow> string list \<Rightarrow> entry_info list option" where
  "read_entries sys source show_links f [] = Some []"
| "read_entries sys source show_links f (d_name # names) = do {
     full_name \<leftarrow> Append source d_name;
     let st = (case (if show_links then lstat_of sys full_name f else stat_of sys full_name f) of
                 Inl e \<Rightarrow> None | Inr st \<Rightarrow> Some st);
     rest \<leftarrow> read_entries sys source show_links f names;
     Some (\<lparr>filename = FilePath d_name, entry_stat = st\<rparr> # rest) }"

text \<open>\<open>Some None\<close>: the directory cannot be opened.\<close>

definition ReadDirectory :: "'f path_calls \<Rightarrow> file_path \<Rightarrow> bool \<Rightarrow> 'f \<Rightarrow> entry_info list option option" where
  "ReadDirectory sys source show_links f =
     (case entries_of sys source f of None \<Rightarrow> Some None
      | Some names \<Rightarrow> map_option Some (read_entries sys source show_links f names))"

text \<open>The loop over the entries of a directory: what is listed, and the stack of directories to visit.\<close>

fun keep_entries ::
    "(string \<Rightarrow> string \<Rightarrow> bool) \<Rightarrow> enumerator \<Rightarrow> entry_info list \<Rightarrow> entry_info list \<Rightarrow> file_path list \<Rightarrow>
       (entry_info list \<times> file_path list) option" where
  "keep_entries fnmatch e [] kept pending = Some (kept, pending)"
| "keep_entries fnmatch e (i # is) kept pending = do {
     full_path \<leftarrow> Append (root_path e) (filename i);
     if ShouldSkip (file_type e) full_path then keep_entries fnmatch e is kept pending
     else if pattern e \<noteq> [] \<and> \<not> fnmatch (pattern e) full_path then keep_entries fnmatch e is kept pending
     else
       let pending = (if recursive e \<and> entry_IsDirectory i then full_path # pending else pending);
           kept = (if entry_IsDirectory i \<and> file_type e AND DIRECTORIES \<noteq> 0 \<or>
                      \<not> entry_IsDirectory i \<and> file_type e AND FILES \<noteq> 0 then kept @ [i] else kept)
       in keep_entries fnmatch e is kept pending }"

partial_function (option) next_loop ::
    "(string \<Rightarrow> string \<Rightarrow> bool) \<Rightarrow> 'f path_calls \<Rightarrow> 'f \<Rightarrow> enumerator \<Rightarrow> (file_path \<times> enumerator) option" where
  "next_loop fnmatch sys f e =
     (if current_directory_entry e < length (directory_entries e)
      then map_option (\<lambda>p. (p, e)) (Append (root_path e) (filename (directory_entries e ! current_directory_entry e)))
      else case pending_paths e of
             [] \<Rightarrow> Some ([], e)
           | p # ps \<Rightarrow>
               (let e = e\<lparr>root_path := StripTrailingSeparators p, pending_paths := ps\<rparr> in
                Option.bind (ReadDirectory sys (root_path e) (file_type e AND SHOW_SYM_LINKS \<noteq> 0) f) (\<lambda>r.
                  case r of
                    None \<Rightarrow> next_loop fnmatch sys f e
                  | Some entries \<Rightarrow>
                      Option.bind (keep_entries fnmatch e entries [] ps) (\<lambda>(kept, pending).
                        next_loop fnmatch sys f (e\<lparr>directory_entries := kept, current_directory_entry := 0,
                                                   pending_paths := pending\<rparr>)))))"

definition enum_Next ::
    "(string \<Rightarrow> string \<Rightarrow> bool) \<Rightarrow> 'f path_calls \<Rightarrow> 'f \<Rightarrow> enumerator \<Rightarrow> (file_path \<times> enumerator) option" where
  "enum_Next fnmatch sys f e =
     next_loop fnmatch sys f (e\<lparr>current_directory_entry := current_directory_entry e + 1\<rparr>)"

text \<open>The sizes add up in 64 bits; \<open>None\<close> is also their overflow.\<close>

partial_function (option) size_loop ::
    "'f path_calls \<Rightarrow> 'f \<Rightarrow> enumerator \<Rightarrow> int \<Rightarrow> int option" where
  "size_loop sys f e running_size =
     Option.bind (enum_Next (\<lambda>p s. True) sys f e) (\<lambda>(current, e).
       if current = [] then Some running_size
       else Option.bind (enum_GetInfo e) (\<lambda>i.
              Option.bind (int64 (running_size + GetSize i)) (\<lambda>n. size_loop sys f e n)))"

definition ComputeDirectorySize :: "'f path_calls \<Rightarrow> file_path \<Rightarrow> 'f \<Rightarrow> int option" where
  "ComputeDirectorySize sys root f = do { e \<leftarrow> FileEnumerator root True FILES; size_loop sys f e 0 }"

subsection \<open>Deleting\<close>

text \<open>The traversal: directories are put on the stack, everything else is removed at once.\<close>

partial_function (option) delete_loop ::
    "'f path_calls \<Rightarrow> file_path \<Rightarrow> bool \<Rightarrow> file_path list \<Rightarrow> enumerator \<Rightarrow> 'f \<Rightarrow> (bool \<times> file_path list \<times> 'f) option" where
  "delete_loop sys current success directories e f =
     (if \<not> (success \<and> current \<noteq> []) then Some (success, directories, f)
      else Option.bind (enum_GetInfo e) (\<lambda>i.
        case (if entry_IsDirectory i then (success, current # directories, f)
              else case unlink sys current f of (ok, f) \<Rightarrow> (ok, directories, f)) of
          (success, directories, f) \<Rightarrow>
            Option.bind (enum_Next (\<lambda>p s. True) sys f e) (\<lambda>(current, e).
              delete_loop sys current success directories e f)))"

fun rmdir_loop :: "'f path_calls \<Rightarrow> bool \<Rightarrow> file_path list \<Rightarrow> 'f \<Rightarrow> bool \<times> 'f" where
  "rmdir_loop sys success [] f = (success, f)"
| "rmdir_loop sys success (d # directories) f =
     (if \<not> success then (success, f)
      else case rmdir sys (FilePath d) f of (ok, f) \<Rightarrow> rmdir_loop sys ok directories f)"

definition DeleteFile :: "'f path_calls \<Rightarrow> file_path \<Rightarrow> bool \<Rightarrow> 'f \<Rightarrow> (bool \<times> 'f) option" where
  "DeleteFile sys path rec f =
     (case lstat_of sys path f of
        Inl e \<Rightarrow> Some (e = ENOENT \<or> e = ENOTDIR, f)
      | Inr st \<Rightarrow>
          if st_kind st \<noteq> Directory then Some (unlink sys path f)
          else if \<not> rec then Some (rmdir sys path f)
          else do {
            e \<leftarrow> FileEnumerator path True (FILES OR DIRECTORIES OR SHOW_SYM_LINKS);
            (current, e) \<leftarrow> enum_Next (\<lambda>p s. True) sys f e;
            (success, directories, f) \<leftarrow> delete_loop sys current True [path] e f;
            Some (rmdir_loop sys success directories f) })"

subsection \<open>Temporary files and directories\<close>

definition TempFileName :: string where "TempFileName = ''.org.ilikereader.com.XXXXXX''"

text \<open>\<open>mkstemp\<close> and \<open>mkdtemp\<close> replace the \<open>X\<close>s of the template; they answer the name they made.\<close>

definition CreateAndOpenFdForTemporaryFile ::
    "(string \<Rightarrow> 'f \<Rightarrow> (int \<times> string) \<times> 'f) \<Rightarrow> file_path \<Rightarrow> 'f \<Rightarrow> ((int \<times> file_path) \<times> 'f) option" where
  "CreateAndOpenFdForTemporaryFile mkstemp directory f =
     map_option (\<lambda>template. mkstemp template f) (Append directory TempFileName)"

definition CreateTemporaryFileInDir ::
    "(string \<Rightarrow> 'f \<Rightarrow> (int \<times> string) \<times> 'f) \<Rightarrow> (int \<Rightarrow> 'f \<Rightarrow> int \<times> 'f) \<Rightarrow> file_path \<Rightarrow> 'f \<Rightarrow>
       ((bool \<times> file_path) \<times> 'f) option" where
  "CreateTemporaryFileInDir mkstemp close dir f =
     map_option (\<lambda>((fd, path), f). if fd \<ge> 0 then case close fd f of (r, f) \<Rightarrow> ((r = 0, path), f)
                                   else ((False, path), f))
       (CreateAndOpenFdForTemporaryFile mkstemp dir f)"

definition GetTempDir :: "string option \<Rightarrow> file_path" where
  "GetTempDir tmpdir = (case tmpdir of Some tmp \<Rightarrow> FilePath tmp | None \<Rightarrow> FilePath ''/tmp'')"

definition CreateTemporaryDirInDirImpl ::
    "(string \<Rightarrow> 'f \<Rightarrow> string option \<times> 'f) \<Rightarrow> file_path \<Rightarrow> string \<Rightarrow> file_path \<Rightarrow> 'f \<Rightarrow>
       ((bool \<times> file_path) \<times> 'f) option" where
  "CreateTemporaryDirInDirImpl mkdtemp base_dir name_tmpl new_dir f = do {
     CHECK (std_find name_tmpl ''XXXXXX'' 0 \<noteq> npos);
     sub_dir \<leftarrow> Append base_dir name_tmpl;
     Some (case mkdtemp sub_dir f of
             (None, f) \<Rightarrow> ((False, new_dir), f)
           | (Some dtemp, f) \<Rightarrow> ((True, FilePath dtemp), f)) }"

definition CreateTemporaryDirInDir ::
    "(string \<Rightarrow> 'f \<Rightarrow> string option \<times> 'f) \<Rightarrow> file_path \<Rightarrow> string \<Rightarrow> file_path \<Rightarrow> 'f \<Rightarrow>
       ((bool \<times> file_path) \<times> 'f) option" where
  "CreateTemporaryDirInDir mkdtemp base_dir pre new_dir f =
     CreateTemporaryDirInDirImpl mkdtemp base_dir (pre @ ''XXXXXX'') new_dir f"

definition CreateNewTempDirectory ::
    "(string \<Rightarrow> 'f \<Rightarrow> string option \<times> 'f) \<Rightarrow> string option \<Rightarrow> string \<Rightarrow> file_path \<Rightarrow> 'f \<Rightarrow>
       ((bool \<times> file_path) \<times> 'f) option" where
  "CreateNewTempDirectory mkdtemp tmpdir pre new_temp_path f =
     CreateTemporaryDirInDirImpl mkdtemp (GetTempDir tmpdir) TempFileName new_temp_path f"

subsection \<open>A directory that deletes itself\<close>

type_synonym scoped_temp_dir = file_path

definition CreateUniqueTempDir ::
    "(string \<Rightarrow> 'f \<Rightarrow> string option \<times> 'f) \<Rightarrow> string option \<Rightarrow> scoped_temp_dir \<Rightarrow> 'f \<Rightarrow>
       ((bool \<times> scoped_temp_dir) \<times> 'f) option" where
  "CreateUniqueTempDir mkdtemp tmpdir path f =
     (if path \<noteq> [] then Some ((False, path), f)
      else CreateNewTempDirectory mkdtemp tmpdir ''scoped_dir'' path f)"

definition CreateUniqueTempDirUnderPath ::
    "'f path_calls \<Rightarrow> (string \<Rightarrow> 'f \<Rightarrow> string option \<times> 'f) \<Rightarrow> file_path \<Rightarrow> scoped_temp_dir \<Rightarrow> 'f \<Rightarrow>
       ((bool \<times> scoped_temp_dir) \<times> 'f) option" where
  "CreateUniqueTempDirUnderPath sys mkdtemp base_path path f =
     (if path \<noteq> [] then Some ((False, path), f)
      else case CreateDirectory sys base_path f of
             (False, f) \<Rightarrow> Some ((False, path), f)
           | (True, f) \<Rightarrow> CreateTemporaryDirInDir mkdtemp base_path ''scoped_dir_'' path f)"

definition temp_dir_Set ::
    "'f path_calls \<Rightarrow> file_path \<Rightarrow> scoped_temp_dir \<Rightarrow> 'f \<Rightarrow> (bool \<times> scoped_temp_dir) \<times> 'f" where
  "temp_dir_Set sys new path f =
     (if path \<noteq> [] then ((False, path), f)
      else if DirectoryExists sys new f then ((True, new), f)
      else case CreateDirectory sys new f of (ok, f) \<Rightarrow> (if ok then (True, new) else (False, path), f))"

definition temp_dir_Delete ::
    "'f path_calls \<Rightarrow> scoped_temp_dir \<Rightarrow> 'f \<Rightarrow> ((bool \<times> scoped_temp_dir) \<times> 'f) option" where
  "temp_dir_Delete sys path f =
     (if path = [] then Some ((False, path), f)
      else map_option (\<lambda>(ret, f). ((ret, if ret then [] else path), f)) (DeleteFile sys path True f))"

definition temp_dir_Take :: "scoped_temp_dir \<Rightarrow> file_path \<times> scoped_temp_dir" where
  "temp_dir_Take path = (path, [])"

definition temp_dir_IsValid :: "'f path_calls \<Rightarrow> scoped_temp_dir \<Rightarrow> 'f \<Rightarrow> bool" where
  "temp_dir_IsValid sys path f \<longleftrightarrow> path \<noteq> [] \<and> DirectoryExists sys path f"

text \<open>The destructor.\<close>

definition temp_dir_end :: "'f path_calls \<Rightarrow> scoped_temp_dir \<Rightarrow> 'f \<Rightarrow> 'f option" where
  "temp_dir_end sys path f = (if path \<noteq> [] then map_option snd (temp_dir_Delete sys path f) else Some f)"

subsection \<open>The directory reader\<close>

text \<open>The buffer is the list of entries the last call filled in; \<open>reader_filled\<close> is \<open>size_ \<noteq> 0\<close>, the rest from
  \<open>offset_\<close> on is \<open>reader_rest\<close>. \<open>getdents\<close> gives the next entries, none at the end, or fails; then the buffer stays
  and another \<open>Next\<close> would read past it (\<open>None\<close>).\<close>

record dir_reader =
  reader_fd :: int
  reader_filled :: bool
  reader_rest :: "string list"

definition DirReader :: "int \<Rightarrow> dir_reader" where
  "DirReader fd = \<lparr>reader_fd = fd, reader_filled = False, reader_rest = []\<rparr>"

definition reader_IsValid :: "dir_reader \<Rightarrow> bool" where "reader_IsValid r = (reader_fd r \<ge> 0)"

definition reader_Next ::
    "(int \<Rightarrow> 'k \<Rightarrow> string list option \<times> 'k) \<Rightarrow> dir_reader \<Rightarrow> 'k \<Rightarrow> (bool \<times> dir_reader \<times> 'k) option" where
  "reader_Next getdents r k =
     (if reader_filled r \<and> reader_rest r = [] then None
      else let r = (if reader_filled r then r\<lparr>reader_rest := tl (reader_rest r)\<rparr> else r) in
           if reader_rest r \<noteq> [] then Some (True, r, k)
           else case getdents (reader_fd r) k of
                  (None, k) \<Rightarrow> Some (False, r, k)
                | (Some names, k) \<Rightarrow>
                    if names = [] then Some (False, r, k)
                    else Some (True, r\<lparr>reader_filled := True, reader_rest := names\<rparr>, k))"

definition reader_name :: "dir_reader \<Rightarrow> string option" where
  "reader_name r = (if reader_filled r \<and> reader_rest r \<noteq> [] then Some (hd (reader_rest r)) else None)"
subsection \<open>What deletion relies on\<close>

text \<open>Paths at which the enumerator and \<open>Append\<close> do not change the text of a path, and those inside a
  directory.\<close>

definition path_ok :: "file_path \<Rightarrow> bool" where
  "path_ok p \<longleftrightarrow> p \<noteq> [] \<and> last p \<noteq> CHR ''/'' \<and> kStringTerminator \<notin> set p \<and> p \<noteq> kCurrentDirectory"

definition inside :: "file_path \<Rightarrow> file_path \<Rightarrow> bool" where
  "inside r p \<longleftrightarrow> p = r \<or> prefix (r @ ''/'') p"

lemma path_ok_child: "path_ok p \<Longrightarrow> plain c \<Longrightarrow> path_ok (p @ ''/'' @ c)"
  using plain_last [of c "p @ ''/''"]
  by (auto simp: path_ok_def plain_def kStringTerminator_def kCurrentDirectory_def append_eq_Cons_conv)

lemma inside_child: "inside r p \<Longrightarrow> prefix (r @ ''/'') (p @ ''/'' @ c)"
  by (auto simp: inside_def prefix_def)

lemma path_ok_same: "path_ok p \<Longrightarrow> FilePath p = p \<and> StripTrailingSeparators p = p"
  by (simp add: path_ok_def FilePath_id strip_id StripTrailingSeparators_def)

lemma path_ok_Append: "path_ok p \<Longrightarrow> plain c \<Longrightarrow> Append p c = Some (p @ ''/'' @ c)"
  by (simp add: path_ok_def Append_plain(3))

lemma plain_FilePath: "plain c \<Longrightarrow> FilePath c = c \<and> plain (FilePath c)"
  by (simp add: FilePath_id plain_def)

text \<open>A tree of files: a call that fails changes nothing, one that succeeds removes its path only, what
  is there is what \<open>lstat\<close> sees, a directory lists plain names, and names are bounded in number and length.\<close>

locale file_tree =
  fixes sys :: "'f path_calls" and kind :: "'f \<Rightarrow> file_path \<Rightarrow> file_kind option"
    and bounded :: "nat \<Rightarrow> nat \<Rightarrow> 'f \<Rightarrow> bool"
  assumes lstat_kind: "case lstat_of sys p f of Inl e \<Rightarrow> kind f p = None | Inr st \<Rightarrow> kind f p = Some (st_kind st)"
    and unlink_kind: "unlink sys p f = (ok, f') \<Longrightarrow> kind f' = (if ok then (kind f)(p := None) else kind f)"
    and rmdir_kind: "rmdir sys p f = (ok, f') \<Longrightarrow> kind f' = (if ok then (kind f)(p := None) else kind f)"
    and unlink_bounded: "unlink sys p f = (ok, f') \<Longrightarrow> bounded b l f \<Longrightarrow> bounded b l f'"
    and entries_plain: "entries_of sys p f = Some names \<Longrightarrow> list_all plain names"
    and entries_bounded: "bounded b l f \<Longrightarrow> entries_of sys p f = Some names \<Longrightarrow>
      length names \<le> b \<and> (\<forall>n\<in>set names. length p + length n < l)"
begin

definition shrinks :: "file_path \<Rightarrow> 'f \<Rightarrow> 'f \<Rightarrow> bool" where
  "shrinks r f f' \<longleftrightarrow> (\<forall>q. \<not> inside r q \<longrightarrow> kind f' q = kind f q) \<and> (\<forall>q. kind f' q = None \<or> kind f' q = kind f q)"

lemma shrinks_refl [simp]: "shrinks r f f"
  by (simp add: shrinks_def)

lemma shrinks_trans: "shrinks r f g \<Longrightarrow> shrinks r g h \<Longrightarrow> shrinks r f h"
  unfolding shrinks_def by metis

lemma shrinks_remove: "kind f' = (if ok then (kind f)(p := None) else kind f) \<Longrightarrow> inside r p \<Longrightarrow> shrinks r f f'"
  by (auto simp: shrinks_def)

lemma rmdir_loop_shrinks:
  "\<forall>d\<in>set ds. inside r d \<and> path_ok d \<Longrightarrow> shrinks r f (snd (rmdir_loop sys ok ds f))"
proof (induction ds arbitrary: ok f)
  case (Cons d ds)
  obtain ok' g where g: "rmdir sys d f = (ok', g)" by fastforce
  with Cons.prems have "shrinks r f g" using rmdir_kind shrinks_remove by (metis list.set_intros(1))
  moreover have "shrinks r g (snd (rmdir_loop sys ok' ds g))" using Cons by simp
  ultimately have "shrinks r f (snd (rmdir_loop sys ok' ds g))" by (rule shrinks_trans)
  then show ?case using Cons.prems g by (simp add: path_ok_same)
qed simp

lemma rmdir_loop_last:
  "path_ok d \<Longrightarrow> rmdir_loop sys ok (ds @ [d]) f = (True, f') \<Longrightarrow> kind f' d = None"
proof (induction ds arbitrary: ok f)
  case Nil
  then show ?case
    using rmdir_kind [of d f True f'] by (auto simp: path_ok_same split: if_splits prod.splits)
qed (auto split: if_splits prod.splits)

lemma read_entries_plain:
  assumes "path_ok p" and "list_all plain names"
  shows "\<exists>is. read_entries sys p links f names = Some is \<and> map filename is = names"
  using assms(2)
proof (induction names)
  case (Cons n names)
  with assms(1) show ?case by (auto simp: path_ok_Append plain_FilePath)
qed simp

lemma keep_entries_plain:
  assumes "path_ok (root_path e)" and "inside r (root_path e)" and "pattern e = []"
    and "\<forall>i\<in>set is. plain (filename i) \<and> length (root_path e) + length (filename i) < l" and "l < npos"
  shows "\<exists>kept' children. keep_entries fm e is kept pending = Some (kept @ kept', children @ pending) \<and>
    set kept' \<subseteq> set is \<and> length kept' \<le> length is \<and> length children \<le> length is \<and>
    (\<forall>q\<in>set children. path_ok q \<and> inside r q \<and> length (root_path e) < length q \<and> length q \<le> l)"
  using assms(4)
proof (induction "is" arbitrary: kept pending)
  case (Cons i "is")
  let ?q = "root_path e @ ''/'' @ filename i"
  have i: "plain (filename i)" "length (root_path e) + length (filename i) < l" using Cons.prems by auto
  have q: "Append (root_path e) (filename i) = Some ?q" "path_ok ?q" "inside r ?q"
    using path_ok_Append [OF assms(1) i(1)] path_ok_child [OF assms(1) i(1)] inside_child [OF assms(2)]
    by (simp_all add: inside_def)
  have len: "length (root_path e) < length ?q" "length ?q \<le> l" using i(2) by simp_all
  define skip where "skip = ShouldSkip (file_type e) ?q"
  define kept1 where "kept1 = (if skip then kept else if entry_IsDirectory i \<and> file_type e AND DIRECTORIES \<noteq> 0 \<or>
      \<not> entry_IsDirectory i \<and> file_type e AND FILES \<noteq> 0 then kept @ [i] else kept)"
  define pending1 where "pending1 = (if skip then pending else if recursive e \<and> entry_IsDirectory i then ?q # pending else pending)"
  have step: "keep_entries fm e (i # is) kept pending = keep_entries fm e is kept1 pending1"
    by (simp add: q(1) assms(3) kept1_def pending1_def skip_def)
  from Cons.IH [of kept1 pending1] Cons.prems obtain kept' children where
    IH: "keep_entries fm e is kept1 pending1 = Some (kept1 @ kept', children @ pending1)"
      "set kept' \<subseteq> set is" "length kept' \<le> length is" "length children \<le> length is"
      "\<forall>q\<in>set children. path_ok q \<and> inside r q \<and> length (root_path e) < length q \<and> length q \<le> l" by auto
  have "\<exists>k0. kept1 = kept @ k0 \<and> set k0 \<subseteq> {i} \<and> length k0 \<le> 1" by (auto simp: kept1_def)
  then obtain k0 where k0: "kept1 = kept @ k0" "set k0 \<subseteq> {i}" "length k0 \<le> 1" by blast
  have "\<exists>c0. pending1 = c0 @ pending \<and> set c0 \<subseteq> {?q} \<and> length c0 \<le> 1" by (auto simp: pending1_def)
  then obtain c0 where c0: "pending1 = c0 @ pending" "set c0 \<subseteq> {?q}" "length c0 \<le> 1" by blast
  have "keep_entries fm e (i # is) kept pending = Some (kept @ (k0 @ kept'), (children @ c0) @ pending)"
    using step IH(1) k0(1) c0(1) by simp
  moreover have "\<forall>q\<in>set (children @ c0). path_ok q \<and> inside r q \<and> length (root_path e) < length q \<and> length q \<le> l"
    using IH(5) c0(2) q(2,3) len by auto
  ultimately show ?case using IH(2-4) k0(2,3) c0(3)
    by (intro exI [of _ "k0 @ kept'"] exI [of _ "children @ c0"]) auto
qed auto

text \<open>The work left: a directory of a long path has less below it.\<close>

definition weight :: "nat \<Rightarrow> nat \<Rightarrow> file_path list \<Rightarrow> nat" where
  "weight b l ps = (\<Sum>p\<leftarrow>ps. (b + 2) ^ (l + 1 - length p))"

lemma weight_simps [simp]: "weight b l [] = 0" "weight b l (p # ps) = (b + 2) ^ (l + 1 - length p) + weight b l ps"
  "weight b l (ps @ qs) = weight b l ps + weight b l qs"
  by (simp_all add: weight_def)

lemma weight_children:
  assumes "\<forall>q\<in>set qs. n < length q" and "length qs \<le> b" and "qs = [] \<or> n < l"
  shows "weight b l qs < (b + 2) ^ (l + 1 - n)"
proof (cases "qs = []")
  case False
  have "weight b l qs \<le> length qs * (b + 2) ^ (l - n)"
    using assms(1)
  proof (induction qs)
    case (Cons q qs)
    then have "l + 1 - length q \<le> l - n" by auto
    then have "(b + 2) ^ (l + 1 - length q) \<le> (b + 2) ^ (l - n)" by (intro power_increasing) auto
    moreover have "weight b l qs \<le> length qs * (b + 2) ^ (l - n)" using Cons by simp
    ultimately show ?case unfolding weight_simps length_Cons mult_Suc by (rule add_mono)
  qed simp
  also have "\<dots> \<le> b * (b + 2) ^ (l - n)" using assms(2) by simp
  also have "\<dots> < (b + 2) * (b + 2) ^ (l - n)" by simp
  also have "\<dots> = (b + 2) ^ (l + 1 - n)" using assms(3) False by (simp add: Suc_diff_le)
  finally show ?thesis .
qed simp

definition enum_ok :: "file_path \<Rightarrow> nat \<Rightarrow> nat \<Rightarrow> enumerator \<Rightarrow> bool" where
  "enum_ok r b l e \<longleftrightarrow> pattern e = [] \<and> (\<forall>p\<in>set (pending_paths e). path_ok p \<and> inside r p) \<and>
     path_ok (root_path e) \<and> inside r (root_path e) \<and> length (directory_entries e) \<le> b \<and>
     (\<forall>i\<in>set (directory_entries e). plain (filename i))"

text \<open>When the entries are used up the next directory is read, or passed over if it cannot be.\<close>

lemma next_loop_advances:
  assumes "enum_ok r b l e" and "bounded b l f" and "l < npos"
    and over: "\<not> current_directory_entry e < length (directory_entries e)" and Cons: "pending_paths e = p # ps"
  shows "\<exists>e2. next_loop fm sys f e = next_loop fm sys f e2 \<and> enum_ok r b l e2 \<and>
    weight b l (pending_paths e2) < weight b l (pending_paths e)"
proof -
  from assms(1) Cons have p: "path_ok p" "inside r p" "\<forall>p\<in>set ps. path_ok p \<and> inside r p"
    and e: "pattern e = []" "length (directory_entries e) \<le> b" "\<forall>i\<in>set (directory_entries e). plain (filename i)"
    by (auto simp: enum_ok_def)
  define e1 where "e1 = e\<lparr>root_path := p, pending_paths := ps\<rparr>"
  show ?thesis
  proof (cases "entries_of sys p f")
    case None
    with over Cons p(1) have "next_loop fm sys f e = next_loop fm sys f e1"
      by (subst next_loop.simps) (simp add: e1_def path_ok_same ReadDirectory_def Let_def)
    moreover have "enum_ok r b l e1" "weight b l (pending_paths e1) < weight b l (pending_paths e)"
      using p e Cons by (simp_all add: e1_def enum_ok_def)
    ultimately show ?thesis by blast
  next
    case (Some names)
    note nb = entries_plain [OF Some] entries_bounded [OF assms(2) Some]
    obtain "is" where i: "read_entries sys p (file_type e AND SHOW_SYM_LINKS \<noteq> 0) f names = Some is"
      "map filename is = names"
      using read_entries_plain [OF p(1) nb(1)] by blast
    have len: "length is = length names" using i(2) by (metis length_map)
    have ent: "\<forall>i\<in>set is. plain (filename i) \<and> length p + length (filename i) < l"
      using nb i(2) by (auto simp: list_all_iff)
    then obtain kept children where k: "keep_entries fm e1 is [] ps = Some (kept, children @ ps)"
      "set kept \<subseteq> set is" "length kept \<le> length is" "length children \<le> length is"
      "\<forall>q\<in>set children. path_ok q \<and> inside r q \<and> length p < length q \<and> length q \<le> l"
      using keep_entries_plain [of e1 r "is" l fm "[]" ps] p e(1) assms(3) by (auto simp: e1_def)
    define e2 where "e2 = e1\<lparr>directory_entries := kept, current_directory_entry := 0,
        pending_paths := children @ ps\<rparr>"
    have "children = [] \<or> length p < l" using k(5) by (cases children) auto
    then have "weight b l children < (b + 2) ^ (l + 1 - length p)"
      using k(4,5) len nb(2) by (intro weight_children) auto
    then have "weight b l (pending_paths e2) < weight b l (pending_paths e)" by (simp add: e2_def Cons)
    moreover have "enum_ok r b l e2" using p e k nb len ent by (auto simp: e2_def e1_def enum_ok_def)
    moreover have "next_loop fm sys f e = next_loop fm sys f e2"
      using over Cons p(1) Some i(1) k(1)
      by (subst next_loop.simps) (simp add: e1_def e2_def path_ok_same ReadDirectory_def Let_def)
    ultimately show ?thesis by blast
  qed
qed

lemma next_loop_returns:
  assumes "enum_ok r b l e" and "bounded b l f" and "l < npos"
  shows "\<exists>p e'. next_loop fm sys f e = Some (p, e') \<and> enum_ok r b l e' \<and>
    (p \<noteq> [] \<longrightarrow> path_ok p \<and> inside r p \<and> enum_GetInfo e' \<noteq> None \<and>
      (if current_directory_entry e < length (directory_entries e) then e' = e
       else weight b l (pending_paths e') < weight b l (pending_paths e)))"
  using assms(1)
proof (induction "weight b l (pending_paths e)" arbitrary: e rule: less_induct)
  case less
  show ?case
  proof (cases "current_directory_entry e < length (directory_entries e)")
    case True
    let ?n = "filename (directory_entries e ! current_directory_entry e)"
    have "plain ?n" "path_ok (root_path e)" "inside r (root_path e)" using less.prems True by (auto simp: enum_ok_def)
    with True less.prems show ?thesis
      using path_ok_Append [of "root_path e" ?n] path_ok_child [of "root_path e" ?n] inside_child [of r "root_path e" ?n]
      by (subst next_loop.simps) (simp add: enum_GetInfo_def inside_def)
  next
    case over: False
    show ?thesis
    proof (cases "pending_paths e")
      case Nil
      with over less.prems show ?thesis by (subst next_loop.simps) simp
    next
      case (Cons p ps)
      obtain e2 where e2: "next_loop fm sys f e = next_loop fm sys f e2" "enum_ok r b l e2"
        "weight b l (pending_paths e2) < weight b l (pending_paths e)"
        using next_loop_advances [OF less.prems assms(2,3) over Cons] by blast
      from less.hyps [OF e2(3,2)] obtain q e' where "next_loop fm sys f e2 = Some (q, e')" "enum_ok r b l e'"
        "q \<noteq> [] \<longrightarrow> path_ok q \<and> inside r q \<and> enum_GetInfo e' \<noteq> None \<and>
          (if current_directory_entry e2 < length (directory_entries e2) then e' = e2
           else weight b l (pending_paths e') < weight b l (pending_paths e2))"
        by blast
      then show ?thesis using e2 over by (auto split: if_splits)
    qed
  qed
qed

end
context file_tree
begin

definition work_left :: "nat \<Rightarrow> nat \<Rightarrow> enumerator \<Rightarrow> nat" where
  "work_left b l e =
     (b + 1) * weight b l (pending_paths e) + (length (directory_entries e) - current_directory_entry e)"

lemma enum_Next_returns:
  assumes "enum_ok r b l e" and "bounded b l f" and "l < npos"
    and "directory_entries e = [] \<or> current_directory_entry e < length (directory_entries e)"
  shows "\<exists>p e'. enum_Next fm sys f e = Some (p, e') \<and> enum_ok r b l e' \<and>
    (p \<noteq> [] \<longrightarrow> path_ok p \<and> inside r p \<and> enum_GetInfo e' \<noteq> None \<and> work_left b l e' < work_left b l e)"
proof -
  define e1 where "e1 = e\<lparr>current_directory_entry := current_directory_entry e + 1\<rparr>"
  have "enum_ok r b l e1" using assms(1) by (simp add: enum_ok_def e1_def)
  from next_loop_returns [OF this assms(2,3), of fm] obtain p e' where
    n: "next_loop fm sys f e1 = Some (p, e')" "enum_ok r b l e'"
    "p \<noteq> [] \<longrightarrow> path_ok p \<and> inside r p \<and> enum_GetInfo e' \<noteq> None \<and>
      (if current_directory_entry e1 < length (directory_entries e1) then e' = e1
       else weight b l (pending_paths e') < weight b l (pending_paths e1))" by blast
  have "work_left b l e' < work_left b l e" if "p \<noteq> []"
  proof (cases "current_directory_entry e1 < length (directory_entries e1)")
    case True
    then have "e' = e1" using n(3) that by simp
    with True show ?thesis by (simp add: work_left_def e1_def)
  next
    case False
    then have w: "weight b l (pending_paths e') + 1 \<le> weight b l (pending_paths e)" using n(3) that by (simp add: e1_def)
    have "length (directory_entries e') \<le> b" using n(2) by (simp add: enum_ok_def)
    then have "work_left b l e' < (b + 1) * (weight b l (pending_paths e') + 1)" by (simp add: work_left_def)
    also have "\<dots> \<le> (b + 1) * weight b l (pending_paths e)" using w by (rule mult_le_mono2)
    also have "\<dots> \<le> work_left b l e" by (simp add: work_left_def)
    finally show ?thesis .
  qed
  with n show ?thesis by (auto simp: enum_Next_def e1_def)
qed

lemma enum_GetInfo_in: "enum_GetInfo e \<noteq> None \<Longrightarrow>
    directory_entries e = [] \<or> current_directory_entry e < length (directory_entries e)"
  by (simp add: enum_GetInfo_def split: if_splits)

lemma delete_loop_returns:
  assumes "enum_ok r b l e" and "bounded b l f" and "l < npos"
    and "current \<noteq> [] \<longrightarrow> path_ok current \<and> inside r current \<and> enum_GetInfo e \<noteq> None"
  shows "\<exists>ok ds f'. delete_loop sys current success directories e f = Some (ok, ds @ directories, f') \<and>
    shrinks r f f' \<and> (\<forall>d\<in>set ds. inside r d \<and> path_ok d)"
  using assms(1,2,4)
proof (induction "work_left b l e" arbitrary: current success directories e f rule: less_induct)
  case less
  show ?case
  proof (cases "success \<and> current \<noteq> []")
    case False
    then show ?thesis
      by (intro exI [of _ success] exI [of _ "[]"] exI [of _ f]) (subst delete_loop.simps, simp)
  next
    case True
    with less.prems obtain i where i: "enum_GetInfo e = Some i" "path_ok current" "inside r current" by auto
    define ds where "ds = (if entry_IsDirectory i then [current] else [])"
    obtain ok g where g: "(if entry_IsDirectory i then (success, f) else unlink sys current f) = (ok, g)" by fastforce
    have b: "bounded b l g" using g less.prems(2) unlink_bounded [of current f] by (auto split: if_splits)
    have s: "shrinks r f g"
      using g shrinks_remove [OF unlink_kind i(3)] by (cases "entry_IsDirectory i") auto
    have ds: "\<forall>d\<in>set ds. inside r d \<and> path_ok d" using i by (simp add: ds_def)
    obtain p e' where n: "enum_Next (\<lambda>p s. True) sys g e = Some (p, e')" "enum_ok r b l e'"
      "p \<noteq> [] \<longrightarrow> path_ok p \<and> inside r p \<and> enum_GetInfo e' \<noteq> None \<and> work_left b l e' < work_left b l e"
      using enum_Next_returns [OF less.prems(1) b assms(3) enum_GetInfo_in] i(1) by blast
    have step: "delete_loop sys current success directories e f = delete_loop sys p ok (ds @ directories) e' g"
      using True i(1) g n(1) by (subst delete_loop.simps) (auto simp: ds_def split: if_splits prod.splits)
    show ?thesis
    proof (cases "p = []")
      case True
      then have "delete_loop sys p ok (ds @ directories) e' g = Some (ok, ds @ directories, g)"
        by (subst delete_loop.simps) simp
      with step s ds show ?thesis by auto
    next
      case False
      with n have "work_left b l e' < work_left b l e"
        "p \<noteq> [] \<longrightarrow> path_ok p \<and> inside r p \<and> enum_GetInfo e' \<noteq> None" by auto
      from less.hyps [OF this(1) n(2) b this(2), of ok "ds @ directories"] obtain ok' ds' f' where
        d: "delete_loop sys p ok (ds @ directories) e' g = Some (ok', ds' @ ds @ directories, f')"
        "shrinks r g f'" "\<forall>d\<in>set ds'. inside r d \<and> path_ok d" by blast
      have "shrinks r f f'" using s d(2) by (rule shrinks_trans)
      with step d ds show ?thesis
        by (intro exI [of _ ok'] exI [of _ "ds' @ ds"] exI [of _ f']) auto
    qed
  qed
qed

lemma DeleteFile_returns:
  assumes "path_ok r" and "bounded b l f" and "l < npos"
  shows "\<exists>ok f'. DeleteFile sys r rec f = Some (ok, f') \<and> shrinks r f f' \<and> (ok \<longrightarrow> kind f' r = None)"
proof (cases "lstat_of sys r f")
  case (Inl x)
  then have "kind f r = None" using lstat_kind [of f r] by simp
  with Inl show ?thesis by (simp add: DeleteFile_def)
next
  case (Inr st)
  have at_r: "inside r r" by (simp add: inside_def)
  consider (leaf) "st_kind st \<noteq> Directory" | (plain) "st_kind st = Directory" "\<not> rec" | (tree) "st_kind st = Directory" rec
    by blast
  then show ?thesis
  proof cases
    case leaf
    obtain ok f' where u: "unlink sys r f = (ok, f')" by fastforce
    from leaf Inr u unlink_kind [OF u] shrinks_remove [OF unlink_kind [OF u] at_r] show ?thesis
      by (simp add: DeleteFile_def)
  next
    case plain
    obtain ok f' where u: "rmdir sys r f = (ok, f')" by fastforce
    from plain Inr u rmdir_kind [OF u] shrinks_remove [OF rmdir_kind [OF u] at_r] show ?thesis
      by (simp add: DeleteFile_def)
  next
    case tree
    let ?ft = "FILES OR DIRECTORIES OR SHOW_SYM_LINKS"
    have "INCLUDE_DOT_DOT AND ?ft = 0" by code_simp
    then obtain e where e: "FileEnumerator r True ?ft = Some e" "enum_ok r b l e" "directory_entries e = []"
      using assms(1) at_r by (auto simp: FileEnumerator_def enum_ok_def)
    obtain p e' where n: "enum_Next (\<lambda>p s. True) sys f e = Some (p, e')" "enum_ok r b l e'"
      "p \<noteq> [] \<longrightarrow> path_ok p \<and> inside r p \<and> enum_GetInfo e' \<noteq> None \<and> work_left b l e' < work_left b l e"
      using enum_Next_returns [OF e(2) assms(2,3)] e(3) by blast
    then have "p \<noteq> [] \<longrightarrow> path_ok p \<and> inside r p \<and> enum_GetInfo e' \<noteq> None" by auto
    from delete_loop_returns [OF n(2) assms(2,3) this, of True "[r]"] obtain ok ds g where
      d: "delete_loop sys p True [r] e' f = Some (ok, ds @ [r], g)" "shrinks r f g"
      "\<forall>d\<in>set ds. inside r d \<and> path_ok d" by blast
    obtain ok' f' where m: "rmdir_loop sys ok (ds @ [r]) g = (ok', f')" by fastforce
    have "shrinks r g f'"
      using rmdir_loop_shrinks [of "ds @ [r]" r g ok] d(3) assms(1) at_r m by auto
    moreover have "ok' \<longrightarrow> kind f' r = None" using rmdir_loop_last [OF assms(1), of ok ds g f'] m by auto
    ultimately show ?thesis
      using tree Inr e(1) n(1) d m shrinks_trans by (auto simp: DeleteFile_def)
  qed
qed

end

subsection \<open>A tree of files\<close>

text \<open>A file system without permissions: the files are the list of paths with their kind, a directory holds
  the paths one name longer.\<close>

type_synonym tree_fs = "(file_path \<times> file_kind) list"

definition names_in :: "file_path \<Rightarrow> tree_fs \<Rightarrow> string list" where
  "names_in p f =
     List.filter plain (map (\<lambda>x. drop (Suc (length p)) (fst x)) (List.filter (\<lambda>x. prefix (p @ ''/'') (fst x)) f))"

definition without_path :: "file_path \<Rightarrow> tree_fs \<Rightarrow> tree_fs" where
  "without_path p f = List.filter (\<lambda>x. fst x \<noteq> p) f"

definition tree_stat :: "file_path \<Rightarrow> tree_fs \<Rightarrow> errno + file_stat" where
  "tree_stat p f =
     (case map_of f p of None \<Rightarrow> Inl ENOENT
      | Some k \<Rightarrow> Inr \<lparr>st_kind = k, st_mode_bits = 0, st_size = 0, st_mtim = \<lparr>tv_sec = 0, tv_nsec = 0\<rparr>,
                     st_atim = \<lparr>tv_sec = 0, tv_nsec = 0\<rparr>, st_ctim = \<lparr>tv_sec = 0, tv_nsec = 0\<rparr>\<rparr>)"

definition tree_calls :: "tree_fs path_calls" where
  "tree_calls =
     \<lparr>stat_of = tree_stat, lstat_of = tree_stat,
      mkdir = (\<lambda>p f. if map_of f p = None then (None, (p, Directory) # f) else (Some EEXIST, f)),
      rmdir = (\<lambda>p f. if map_of f p = Some Directory \<and> names_in p f = [] then (True, without_path p f) else (False, f)),
      unlink = (\<lambda>p f. if map_of f p \<notin> {None, Some Directory} then (True, without_path p f) else (False, f)),
      chmod = (\<lambda>p m f. (map_of f p \<noteq> None, f)),
      entries_of = (\<lambda>p f. if map_of f p = Some Directory then Some (names_in p f @ [''.'', ''..'']) else None)\<rparr>"

definition tree_bounded :: "nat \<Rightarrow> nat \<Rightarrow> tree_fs \<Rightarrow> bool" where
  "tree_bounded b l f \<longleftrightarrow> length f + 2 \<le> b \<and> (\<forall>x\<in>set f. length (fst x) + 2 < l)"

lemma map_of_without: "map_of (without_path p f) = (map_of f)(p := None)"
  by (induction f) (auto simp: without_path_def fun_eq_iff)

lemma tree_bounded_without: "tree_bounded b l f \<Longrightarrow> tree_bounded b l (without_path p f)"
proof -
  have "length (without_path p f) \<le> length f" "set (without_path p f) \<subseteq> set f" by (auto simp: without_path_def)
  then show "tree_bounded b l f \<Longrightarrow> tree_bounded b l (without_path p f)" unfolding tree_bounded_def by auto
qed

lemma length_names_in: "length (names_in p f) \<le> length f"
  unfolding names_in_def by (metis length_filter_le length_map order_trans)

lemma names_in_length: "n \<in> set (names_in p f) \<Longrightarrow> \<exists>x\<in>set f. length p + length n < length (fst x)"
  by (force simp: names_in_def prefix_def)

interpretation tree: file_tree tree_calls map_of tree_bounded
proof
  fix p :: file_path and f :: tree_fs
  show "case lstat_of tree_calls p f of Inl e \<Rightarrow> map_of f p = None | Inr st \<Rightarrow> map_of f p = Some (st_kind st)"
    by (simp add: tree_calls_def tree_stat_def split: option.split)
next
  fix p f ok f'
  assume "unlink tree_calls p f = (ok, f')"
  then show "map_of f' = (if ok then (map_of f)(p := None) else map_of f)"
    by (auto simp: tree_calls_def map_of_without split: if_splits)
next
  fix p f ok f'
  assume "rmdir tree_calls p f = (ok, f')"
  then show "map_of f' = (if ok then (map_of f)(p := None) else map_of f)"
    by (auto simp: tree_calls_def map_of_without split: if_splits)
next
  fix p f ok f' b l
  assume "unlink tree_calls p f = (ok, f')" "tree_bounded b l f"
  then show "tree_bounded b l f'" by (auto simp: tree_calls_def tree_bounded_without split: if_splits)
next
  fix p f names
  assume "entries_of tree_calls p f = Some names"
  then show "list_all plain names"
    by (auto simp: tree_calls_def list_all_iff names_in_def plain_def kStringTerminator_def split: if_splits)
next
  fix b l f p names
  assume bd: "tree_bounded b l f" and "entries_of tree_calls p f = Some names"
  then have n: "names = names_in p f @ [''.'', ''..'']" "map_of f p = Some Directory"
    by (auto simp: tree_calls_def split: if_splits)
  have "length p + 2 < l" using map_of_SomeD [OF n(2)] bd by (force simp: tree_bounded_def)
  moreover have "length p + length m < l" if "m \<in> set (names_in p f)" for m
    using names_in_length [OF that] bd by (force simp: tree_bounded_def)
  ultimately show "length names \<le> b \<and> (\<forall>n\<in>set names. length p + length n < l)"
    using length_names_in [of p f] bd n(1) by (auto simp: tree_bounded_def)
qed
subsection \<open>Properties\<close>



end
