(* ===== verification/Transcoder.thy ===== *)
theory Transcoder
  imports Sql_Update File_Enum String_Encode
begin

text \<open>
  The video handler, \<^verbatim>\<open>service/rpc_transcoder_handler.cc\<close>: it takes a message, has keys made, the video
  transcoded and encrypted by services, rewrites the playlist and updates the database. The stubs of the
  services, the JSON parser, the file system and the database are arguments, over the state \<open>'w\<close> of
  the world. \<open>None\<close> is a failed \<open>DCHECK\<close> or assertion, or a call that does not return.
\<close>

subsection \<open>Replacing text\<close>

partial_function (option) replace_loop :: "string \<Rightarrow> string \<Rightarrow> string \<Rightarrow> nat \<Rightarrow> string option" where
  "replace_loop source search replacement pos =
     (let pos = std_find source search pos in
      if pos = npos then Some source
      else replace_loop (take pos source @ replacement @ drop (pos + length search) source) search replacement
             (size_add pos (length replacement)))"

definition ReplaceAll :: "string \<Rightarrow> string \<Rightarrow> string \<Rightarrow> string option" where
  "ReplaceAll source search replacement = replace_loop source search replacement 0"

text \<open>The reference: occurrences from the left, without overlap.\<close>

function replaced :: "string \<Rightarrow> string \<Rightarrow> string \<Rightarrow> string" where
  "replaced search replacement s =
     (if search \<noteq> [] \<and> prefix search s then replacement @ replaced search replacement (drop (length search) s)
      else case s of [] \<Rightarrow> [] | c # s \<Rightarrow> c # replaced search replacement s)"
  by pat_completeness auto
termination
  by (relation "measure (\<lambda>(search, replacement, s). length s)") (auto simp: prefix_def)

declare replaced.simps [simp del]

lemma replaced_split:
  assumes "search \<noteq> []" and "\<forall>j<k. \<not> prefix search (drop j s)" and "k \<le> length s"
  shows "replaced search replacement s = take k s @ replaced search replacement (drop k s)"
  using assms(2,3)
proof (induction k arbitrary: s)
  case (Suc k)
  then obtain c t where s: "s = c # t" by (cases s) auto
  have "\<not> prefix search s" using Suc.prems(1) by force
  then have "replaced search replacement s = c # replaced search replacement t" by (subst replaced.simps) (simp add: s)
  moreover have "\<forall>j<k. \<not> prefix search (drop j t)" using Suc.prems(1) s by force
  ultimately show ?case using Suc.IH [of t] Suc.prems(2) s by simp
qed simp

lemma replaced_none:
  assumes "search \<noteq> []" and "\<forall>j\<le>length s. \<not> prefix search (drop j s)"
  shows "replaced search replacement s = s"
proof -
  have "replaced search replacement [] = []" using assms(1) by (subst replaced.simps) simp
  with replaced_split [OF assms(1), of "length s" s replacement] assms(2) show ?thesis by simp
qed

lemma replaced_here:
  "search \<noteq> [] \<Longrightarrow> prefix search s \<Longrightarrow>
     replaced search replacement s = replacement @ replaced search replacement (drop (length search) s)"
  by (subst replaced.simps) simp
lemma occurs_at_prefix: "occurs_at s p i \<longleftrightarrow> prefix p (drop i s)"
  by (metis occurs_at_def take_is_prefix prefix_def append_eq_conv_conj)

lemma std_find_cases:
  assumes "length s < npos" and "pos \<le> length s"
  obtains (none) "std_find s p pos = npos" "\<forall>j\<ge>pos. j \<le> length s \<longrightarrow> \<not> prefix p (drop j s)"
  | (at) i where "std_find s p pos = i" "i \<noteq> npos" "pos \<le> i" "i \<le> length s" "prefix p (drop i s)"
      "\<forall>j\<ge>pos. j < i \<longrightarrow> \<not> prefix p (drop j s)"
proof (cases "List.find (occurs_at s p) [pos..<Suc (length s)]")
  case None
  then have "\<forall>j\<ge>pos. j \<le> length s \<longrightarrow> \<not> prefix p (drop j s)"
    by (auto simp: find_None_iff occurs_at_prefix simp del: upt_Suc)
  moreover have "std_find s p pos = npos" using None by (simp add: std_find_def)
  ultimately show thesis by (rule none [rotated])
next
  case (Some i)
  then obtain k where k: "k < length [pos..<Suc (length s)]" "occurs_at s p i" "i = [pos..<Suc (length s)] ! k"
    "\<forall>j<k. \<not> occurs_at s p ([pos..<Suc (length s)] ! j)" by (auto simp: find_Some_iff simp del: upt_Suc)
  then have i: "i = pos + k" "i \<le> length s" by (simp_all del: upt_Suc)
  have "\<forall>j\<ge>pos. j < i \<longrightarrow> \<not> prefix p (drop j s)"
  proof (intro allI impI)
    fix j assume "pos \<le> j" "j < i"
    then have "j - pos < k" "[pos..<Suc (length s)] ! (j - pos) = j" using i by (simp_all del: upt_Suc)
    with k(4) show "\<not> prefix p (drop j s)" by (metis occurs_at_prefix)
  qed
  moreover have "std_find s p pos = i" using Some by (simp add: std_find_def)
  moreover have "prefix p (drop i s)" using k(2) by (simp add: occurs_at_prefix)
  ultimately show thesis using i assms by (intro at) auto
qed

lemma replace_loop_replaced:
  assumes "search \<noteq> []" and "length out + length rest * Suc (length replacement) < npos"
  shows "replace_loop (out @ rest) search replacement (length out) = Some (out @ replaced search replacement rest)"
  using assms(2)
proof (induction "length rest" arbitrary: out rest rule: less_induct)
  case less
  have len: "length (out @ rest) < npos" using less.prems by simp
  show ?case
  proof (cases rule: std_find_cases [OF len, of "length out" search])
    case 1
    then show ?case by simp
  next
    case 2
    then have "\<forall>j\<le>length rest. \<not> prefix search (drop j rest)"
      by (metis append_eq_conv_conj drop_drop le_add1 length_append nat_add_left_cancel_le add.commute)
    with 2(1) replaced_none [OF assms(1)] show ?thesis by (subst replace_loop.simps) simp
  next
    case (3 i)
    define k where "k = i - length out"
    have i: "i = length out + k" "k \<le> length rest" using 3 by (simp_all add: k_def)
    have p: "prefix search (drop k rest)" using 3(5) i by simp
    then have k: "k + length search \<le> length rest" using i(2) by (auto dest: prefix_length_le)
    define rest' where "rest' = drop (k + length search) rest"
    define out' where "out' = out @ take k rest @ replacement"
    have rest': "length rest' + k + length search = length rest" using k by (simp add: rest'_def)
    have s: "0 < length search" using assms(1) by simp
    have "length rest' * Suc (length replacement) + Suc (length replacement) * (k + length search) =
        length rest * Suc (length replacement)"
      unfolding rest' [symmetric] by (simp add: algebra_simps)
    moreover have "k + length replacement \<le> Suc (length replacement) * (k + length search)"
      using s by (cases "length search") (simp_all add: algebra_simps)
    ultimately have bound: "length out' + length rest' * Suc (length replacement) < npos"
      using less.prems i(2) by (simp add: out'_def)
    have none: "\<forall>j<k. \<not> prefix search (drop j rest)"
    proof (intro allI impI)
      fix j assume "j < k"
      then show "\<not> prefix search (drop j rest)" using 3(6) [rule_format, of "length out + j"] i(1) by simp
    qed
    have "replaced search replacement rest = take k rest @ replacement @ replaced search replacement rest'"
      using replaced_split [OF assms(1) none i(2)] replaced_here [OF assms(1) p]
      by (simp add: rest'_def add.commute)
    moreover have "replace_loop (out @ rest) search replacement (length out) =
        replace_loop (out' @ rest') search replacement (length out')"
    proof -
      have new: "take i (out @ rest) @ replacement @ drop (i + length search) (out @ rest) = out' @ rest'"
        by (simp add: i(1) out'_def rest'_def)
      have "size_add i (length replacement) = length out'"
        using bound i by (simp add: size_add_def out'_def npos_def size_max_def)
      with new 3(1,2) show ?thesis by (subst replace_loop.simps) (simp add: Let_def)
    qed
    moreover have "length rest' < length rest" using rest' s by linarith
    ultimately show ?thesis using less.hyps [OF _ bound] by (simp add: out'_def)
  qed
qed

text \<open>C35: \<open>ReplaceAll\<close> ends for every nonempty text to search, also one that the replacement contains, and
  gives the source with every occurrence, found from the left without overlap, replaced; what was put in is not
  searched again.\<close>

theorem replace_all_correct:
  assumes "search \<noteq> []" and "length source * Suc (length replacement) < npos"
  shows "ReplaceAll source search replacement = Some (replaced search replacement source)"
  using replace_loop_replaced [of search "[]" source replacement] assms by (simp add: ReplaceAll_def)

theorem replace_all_correct_witness:
  "ReplaceAll ''/orig/a/orig/'' ''/orig/'' ''/x/orig/'' = Some ''/x/orig/a/x/orig/''"
proof -
  have "replaced ''/orig/'' ''/x/orig/'' ''/orig/a/orig/'' = ''/x/orig/a/x/orig/''"
    by (simp add: replaced.simps [of "''/orig/''"])
  with replace_all_correct [of "''/orig/''" "''/orig/a/orig/''" "''/x/orig/''"] show ?thesis
    by (simp add: npos_def size_max_def)
qed
subsection \<open>The services\<close>

record transcode_request =
  media_source_path :: string
  media_target_path :: string
  audio_sample :: string
  video_frame_size :: string
  video_frame_aspect :: string
  video_frame_rate :: string
  video_rate_bit :: string
  segment_time :: string
  segment_url_prefix :: string
  segment_m3u8_name :: string

record transcode_progress =
  duration :: string
  out_time :: string

text \<open>Each stub answers \<open>None\<close> (or \<open>False\<close>) for a status that is not good. The transcoder streams its progress.\<close>

record ('s, 'w) video_env =
  create_symmetric_key :: "'w \<Rightarrow> string option \<times> 'w"
  create_key_pair :: "'w \<Rightarrow> (string \<times> string) option \<times> 'w"
  transcode :: "transcode_request \<Rightarrow> 'w \<Rightarrow> (transcode_progress list \<times> bool) \<times> 'w"
  cbc_encrypt_file :: "string \<Rightarrow> string \<Rightarrow> string \<Rightarrow> 'w \<Rightarrow> bool \<times> 'w"
  ecb_encrypt_file :: "string \<Rightarrow> string \<Rightarrow> string \<Rightarrow> 'w \<Rightarrow> bool \<times> 'w"
  public_key_encrypt :: "string \<Rightarrow> string \<Rightarrow> 'w \<Rightarrow> string option \<times> 'w"
  paths :: "'w path_calls"
  fds :: "'w fd_calls"
  open_read :: "string \<Rightarrow> 'w \<Rightarrow> (string \<times> bool) option"
  open_dir :: "string \<Rightarrow> 'w \<Rightarrow> int \<times> 'w"
  getdents :: "int \<Rightarrow> 'w \<Rightarrow> string list option \<times> 'w"
  db :: "('s, 'w) db_calls"

text \<open>A part of the handler returns a status at once (\<open>Inl\<close>) or goes on.\<close>

type_synonym ('a, 'w) stage = "((status + 'a) \<times> 'w) option"


definition internal_error :: "string \<Rightarrow> 'w \<Rightarrow> ('a, 'w) stage" where
  "internal_error msg w = map_option (\<lambda>st. (Inl st, w)) (Status INTERNAL msg)"

subsection \<open>The parts of the handler\<close>





text \<open>The directory is removed before an error of the encryption is returned.\<close>

definition clean_up :: "('s, 'w) video_env \<Rightarrow> file_path \<Rightarrow> string \<Rightarrow> 'w \<Rightarrow> ('a, 'w) stage" where
  "clean_up env enc_path msg w = do {
     (deleted, w) \<leftarrow> DeleteFile (paths env) enc_path True w;
     CHECK deleted;
     internal_error msg w }"

definition is_segment :: "string \<Rightarrow> bool" where
  "is_segment name =
     (name \<noteq> ''..'' \<and> name \<noteq> ''.'' \<and> CompareCaseInsensitiveASCII (Extension (FilePath name)) ''.ts'' = 0)"

partial_function (option) encrypt_loop ::
    "('s, 'w) video_env \<Rightarrow> file_path \<Rightarrow> file_path \<Rightarrow> string \<Rightarrow> dir_reader \<Rightarrow> 'w \<Rightarrow> (unit, 'w) stage" where
  "encrypt_loop env orig_path enc_path key reader w =
     Option.bind (reader_Next (getdents env) reader w) (\<lambda>(more, reader, w).
       if \<not> more then Some (Inr (), w)
       else Option.bind (reader_name reader) (\<lambda>name.
         if is_segment name
         then Option.bind (Append orig_path name) (\<lambda>source.
                Option.bind (Append enc_path name) (\<lambda>target.
                  case cbc_encrypt_file env source target key w of
                    (ok, w) \<Rightarrow> if \<not> ok then clean_up env enc_path ''encrypt_file error'' w
                               else encrypt_loop env orig_path enc_path key reader w))
         else encrypt_loop env orig_path enc_path key reader w))"

definition encrypt_segments ::
    "('s, 'w) video_env \<Rightarrow> file_path \<Rightarrow> file_path \<Rightarrow> string \<Rightarrow> 'w \<Rightarrow> (unit, 'w) stage" where
  "encrypt_segments env orig_path enc_path key w =
     (case open_dir env orig_path w of (fd, w) \<Rightarrow> encrypt_loop env orig_path enc_path key (DirReader fd) w)"


text \<open>The check after a write wants its result not to be 0: it holds for the error -1.\<close>

definition write_checked :: "('s, 'w) video_env \<Rightarrow> file_path \<Rightarrow> string \<Rightarrow> 'w \<Rightarrow> 'w option" where
  "write_checked env path data w = do { (n, w) \<leftarrow> WriteFile (fds env) path data w; CHECK (n \<noteq> 0); Some w }"









subsection \<open>The handler\<close>





subsection \<open>A world for the handler\<close>












subsection \<open>Lemmas: the parts in that world\<close>























subsection \<open>Properties: a video\<close>













subsection \<open>An example\<close>














text \<open>Two things the handler does not check. The check after a write passes for a write that failed. A directory that
  cannot be opened ends the loop of the encryption at once, and the handler goes on as if nothing were to encrypt.\<close>

lemma failed_write_passes:
  "WriteFile (fds env) p data w = Some (- 1, w') \<Longrightarrow> write_checked env p data w = Some w'"
  by (simp add: write_checked_def)

lemma unreadable_directory_passes:
  assumes "open_dir env orig w = (fd, w1)" and "getdents env fd w1 = (None, w2)"
  shows "encrypt_segments env orig enc key w = Some (Inr (), w2)"
  using assms by (simp add: encrypt_segments_def encrypt_loop.simps reader_Next_def DirReader_def)

end
