(* ===== verification/Epub_Info.thy ===== *)
theory Epub_Info
  imports Sql_Update File_Util
begin

text \<open>
  The catalog of an e-book: the service of \<^verbatim>\<open>rpc/epub_info_service/epub_info_service.cc\<close> writes it next to
  the book, the handler of \<^verbatim>\<open>service/rpc_epub_info_handler.cc\<close> takes a message, calls the service and puts
  the path of the catalog into the database. The call of the stub is an argument, as are the
  e-book library and the JSON writer. \<open>None\<close> is a failed assertion or a call that does not return.
\<close>

subsection \<open>The service\<close>

record catalog_request =
  book_id :: int
  book_path :: string
  catalog_path :: string





datatype grpc_error = GRPC_NOT_FOUND string | GRPC_INTERNAL string


subsection \<open>The handler\<close>

definition epub_update :: string where
  "epub_update = ''UPDATE t_book SET epub_info_dir=? WHERE id=?''"

text \<open>The result is the status, the output and the world. Exceptions of the database are swallowed.\<close>

definition epub_Handle ::
    "json_parser \<Rightarrow> (catalog_request \<Rightarrow> 'w \<Rightarrow> ((grpc_error + string) \<times> 'w) option) \<Rightarrow> ('s, 'w) db_calls \<Rightarrow> string \<Rightarrow>
       string \<Rightarrow> string \<Rightarrow> 'w \<Rightarrow> (status \<times> string \<times> 'w) option" where
  "epub_Handle parse stub db db_connection_info message output w =
     (case parse (c_str message) of
        None \<Rightarrow> map_option (\<lambda>st. (st, output, w)) (Status INVALID_ARGUMENT (''Can't parse json: '' @ message))
      | Some d \<Rightarrow> do {
          has_id \<leftarrow> HasMember d ''book_id'';
          has_path \<leftarrow> HasMember d ''book_path'';
          if \<not> has_id \<and> \<not> has_path
          then map_option (\<lambda>st. (st, output, w)) (Status INVALID_ARGUMENT ''expect book_id and book_path'')
          else do {
            id_text \<leftarrow> member_string d ''book_id'';
            path \<leftarrow> member_string d ''book_path'';
            let catalog = ReplaceExtension (FilePath path) ''.info'';
            (_, id) \<leftarrow> StringAsValue int64_t id_text;
            (rpc_status, w) \<leftarrow> stub \<lparr>book_id = id, book_path = path, catalog_path = catalog\<rparr> w;
            (case rpc_status of
               Inr ret_catalog_path \<Rightarrow> do {
                 (_, w) \<leftarrow> run_update db db_connection_info epub_update [SqlText ret_catalog_path, SqlInt id] w;
                 Some (Status_OK, ret_catalog_path, w) }
             | Inl e \<Rightarrow> map_option (\<lambda>st. (st, output, w)) (Status DATA_LOSS (''RCP: book_path '' @ path @ '' Loss''))) } })"

subsection \<open>Properties\<close>




text \<open>The number of the book is not checked: a text that is no number updates the row 0, one with something
  after the number the row of the number. With one of the two members missing the test that should answer
  it lets the message pass, and the access to the missing member aborts.\<close>

lemma unchecked_book_ids:
  "StringAsValue int64_t ''abc'' = Some (False, 0)" "StringAsValue int64_t ''12x'' = Some (False, 12)"
  by code_simp+

lemma one_member_aborts:
  assumes "parse (c_str message) = Some (JObject m)" and "m ''book_id'' \<noteq> None" and "m ''book_path'' = None"
  shows "epub_Handle parse stub db info message output w = None"
  using assms by (simp add: epub_Handle_def HasMember_def member_string_def split: option.splits jvalue.splits)

subsection \<open>The service behind the handler\<close>




end
