(* ===== verification/Consumer.thy ===== *)
theory Consumer
  imports Epub_Info
begin

text \<open>
  The consumer of \<^verbatim>\<open>service/amqp_consumer_service.h\<close>: the loop that hands every message of its queue to
  the handler, and what it does with the e-book handler. The queue is the list of the messages that
  are delivered; the connection to the broker is not part of the model. \<open>None\<close> is a handler that aborts.
\<close>

type_synonym 'w handler = "string \<Rightarrow> string \<Rightarrow> 'w \<Rightarrow> (status \<times> string \<times> 'w) option"

record 'w consumer =
  address :: string
  queue_name :: string
  consumer_handler :: "'w handler option"

definition AmqpConsumerService :: "string \<Rightarrow> string \<Rightarrow> 'w consumer" where
  "AmqpConsumerService a q = \<lparr>address = a, queue_name = q, consumer_handler = None\<rparr>"

definition SetHandler :: "'w handler \<Rightarrow> 'w consumer \<Rightarrow> 'w consumer" where
  "SetHandler h c = c\<lparr>consumer_handler := Some h\<rparr>"

text \<open>The callback: the reply is new for each message, it and the status are dropped.\<close>

definition on_received :: "'w consumer \<Rightarrow> string \<Rightarrow> 'w \<Rightarrow> 'w option" where
  "on_received c message w =
     (case consumer_handler c of
        None \<Rightarrow> Some w
      | Some h \<Rightarrow> map_option (\<lambda>(st, reply, w). w) (h message [] w))"

fun HandleLoop :: "'w consumer \<Rightarrow> string list \<Rightarrow> 'w \<Rightarrow> 'w option" where
  "HandleLoop c [] w = Some w"
| "HandleLoop c (m # ms) w = Option.bind (on_received c m w) (HandleLoop c ms)"

subsection \<open>Lemmas\<close>

lemma HandleLoop_append: "HandleLoop c (xs @ ys) w = Option.bind (HandleLoop c xs w) (HandleLoop c ys)"
  by (induction xs arbitrary: w) (auto split: bind_split)

lemma HandleLoop_no_handler: "consumer_handler c = None \<Longrightarrow> HandleLoop c ms w = Some w"
  by (induction ms) (simp_all add: on_received_def)

subsection \<open>Properties\<close>








text \<open>But one message that lacks a member ends the process, with everything queued behind it.\<close>

lemma poisoned_queue:
  assumes "parse (c_str m) = Some (JObject f)" and "f ''book_id'' \<noteq> None" and "f ''book_path'' = None"
  shows "HandleLoop (SetHandler (epub_Handle parse stub db info) (AmqpConsumerService a q)) (m # ms) w = None"
  using one_member_aborts [of parse m f stub db info "[]" w] assms by (simp add: on_received_def SetHandler_def)

end
