(* ===== verification/Atomics.thy ===== *)
theory Atomics
  imports Prelude
begin

text \<open>
  The atomic cells of \<^verbatim>\<open>base/atomicops.h\<close> and the reference counts of
  \<^verbatim>\<open>base/atomic_ref_count.h\<close>.

  A cell is a 32-bit or a 64-bit two's complement word; the header has every function twice, for
  \<open>Atomic32\<close> and for \<open>Atomic64\<close> (\<open>AtomicWord\<close> is the latter), and the definitions carry the suffix 64
  for the second.  An operation takes the content of the cell and returns its result together with
  the new content.  It is one indivisible step: the memory orders (relaxed, acquire, release) decide
  which writes to \<^emph>\<open>other\<close> variables a thread sees, and are not part of the model, whose threads
  interleave on one memory.
\<close>

type_synonym Atomic32 = "32 word"
type_synonym Atomic64 = "64 word"

subsection \<open>32-bit cells\<close>

text \<open>\<^verbatim>\<open>compare_exchange_strong\<close> writes the found value to its first argument when it fails, so that
  the functions return what the cell held before the call in either case.\<close>

definition NoBarrier_CompareAndSwap :: "Atomic32 \<Rightarrow> Atomic32 \<Rightarrow> Atomic32 \<Rightarrow> Atomic32 \<times> Atomic32" where
  "NoBarrier_CompareAndSwap cell old_value new_value =
     (if cell = old_value then (old_value, new_value) else (cell, cell))"

definition NoBarrier_AtomicExchange :: "Atomic32 \<Rightarrow> Atomic32 \<Rightarrow> Atomic32 \<times> Atomic32" where
  "NoBarrier_AtomicExchange cell new_value = (cell, new_value)"

definition NoBarrier_AtomicIncrement :: "Atomic32 \<Rightarrow> Atomic32 \<Rightarrow> Atomic32 \<times> Atomic32" where
  "NoBarrier_AtomicIncrement cell increment = (increment + cell, cell + increment)"

definition Barrier_AtomicIncrement :: "Atomic32 \<Rightarrow> Atomic32 \<Rightarrow> Atomic32 \<times> Atomic32" where
  "Barrier_AtomicIncrement cell increment = (increment + cell, cell + increment)"

definition Acquire_CompareAndSwap :: "Atomic32 \<Rightarrow> Atomic32 \<Rightarrow> Atomic32 \<Rightarrow> Atomic32 \<times> Atomic32" where
  "Acquire_CompareAndSwap cell old_value new_value =
     (if cell = old_value then (old_value, new_value) else (cell, cell))"

definition Release_CompareAndSwap :: "Atomic32 \<Rightarrow> Atomic32 \<Rightarrow> Atomic32 \<Rightarrow> Atomic32 \<times> Atomic32" where
  "Release_CompareAndSwap cell old_value new_value =
     (if cell = old_value then (old_value, new_value) else (cell, cell))"

definition NoBarrier_Store :: "Atomic32 \<Rightarrow> Atomic32 \<Rightarrow> Atomic32" where
  "NoBarrier_Store cell new_value = new_value"

definition Acquire_Store :: "Atomic32 \<Rightarrow> Atomic32 \<Rightarrow> Atomic32" where
  "Acquire_Store cell new_value = new_value"

definition Release_Store :: "Atomic32 \<Rightarrow> Atomic32 \<Rightarrow> Atomic32" where
  "Release_Store cell new_value = new_value"

definition NoBarrier_Load :: "Atomic32 \<Rightarrow> Atomic32" where
  "NoBarrier_Load cell = cell"

definition Acquire_Load :: "Atomic32 \<Rightarrow> Atomic32" where
  "Acquire_Load cell = cell"

definition Release_Load :: "Atomic32 \<Rightarrow> Atomic32" where
  "Release_Load cell = cell"

subsection \<open>64-bit cells\<close>

definition NoBarrier_CompareAndSwap64 :: "Atomic64 \<Rightarrow> Atomic64 \<Rightarrow> Atomic64 \<Rightarrow> Atomic64 \<times> Atomic64" where
  "NoBarrier_CompareAndSwap64 cell old_value new_value =
     (if cell = old_value then (old_value, new_value) else (cell, cell))"

definition Acquire_CompareAndSwap64 :: "Atomic64 \<Rightarrow> Atomic64 \<Rightarrow> Atomic64 \<Rightarrow> Atomic64 \<times> Atomic64" where
  "Acquire_CompareAndSwap64 cell old_value new_value =
     (if cell = old_value then (old_value, new_value) else (cell, cell))"

definition Release_CompareAndSwap64 :: "Atomic64 \<Rightarrow> Atomic64 \<Rightarrow> Atomic64 \<Rightarrow> Atomic64 \<times> Atomic64" where
  "Release_CompareAndSwap64 cell old_value new_value =
     (if cell = old_value then (old_value, new_value) else (cell, cell))"

definition NoBarrier_AtomicExchange64 :: "Atomic64 \<Rightarrow> Atomic64 \<Rightarrow> Atomic64 \<times> Atomic64" where
  "NoBarrier_AtomicExchange64 cell new_value = (cell, new_value)"

definition NoBarrier_AtomicIncrement64 :: "Atomic64 \<Rightarrow> Atomic64 \<Rightarrow> Atomic64 \<times> Atomic64" where
  "NoBarrier_AtomicIncrement64 cell increment = (increment + cell, cell + increment)"

definition Barrier_AtomicIncrement64 :: "Atomic64 \<Rightarrow> Atomic64 \<Rightarrow> Atomic64 \<times> Atomic64" where
  "Barrier_AtomicIncrement64 cell increment = (increment + cell, cell + increment)"

definition NoBarrier_Store64 :: "Atomic64 \<Rightarrow> Atomic64 \<Rightarrow> Atomic64" where
  "NoBarrier_Store64 cell new_value = new_value"

definition Acquire_Store64 :: "Atomic64 \<Rightarrow> Atomic64 \<Rightarrow> Atomic64" where
  "Acquire_Store64 cell new_value = new_value"

definition Release_Store64 :: "Atomic64 \<Rightarrow> Atomic64 \<Rightarrow> Atomic64" where
  "Release_Store64 cell new_value = new_value"

definition NoBarrier_Load64 :: "Atomic64 \<Rightarrow> Atomic64" where
  "NoBarrier_Load64 cell = cell"

definition Acquire_Load64 :: "Atomic64 \<Rightarrow> Atomic64" where
  "Acquire_Load64 cell = cell"

definition Release_Load64 :: "Atomic64 \<Rightarrow> Atomic64" where
  "Release_Load64 cell = cell"

lemmas cas_defs = NoBarrier_CompareAndSwap_def Acquire_CompareAndSwap_def Release_CompareAndSwap_def
  NoBarrier_CompareAndSwap64_def Acquire_CompareAndSwap64_def Release_CompareAndSwap64_def

text \<open>A caller sees from the result alone whether its value was stored.\<close>

lemma cas_result:
  "(fst (Acquire_CompareAndSwap64 cell old new) = old) = (cell = old)"
  "snd (Acquire_CompareAndSwap64 cell old new) =
    (if fst (Acquire_CompareAndSwap64 cell old new) = old then new else cell)"
  by (auto simp: cas_defs)

text \<open>Increments add up whatever their order, with wrap-around: the results of two threads are the cell
  after the first and after both.\<close>

lemma increments_commute:
  "snd (NoBarrier_AtomicIncrement (snd (NoBarrier_AtomicIncrement cell a)) b) =
   snd (NoBarrier_AtomicIncrement (snd (NoBarrier_AtomicIncrement cell b)) a)"
  "fst (NoBarrier_AtomicIncrement (snd (NoBarrier_AtomicIncrement cell a)) b) = cell + a + b"
  by (simp_all add: NoBarrier_AtomicIncrement_def ac_simps)

subsection \<open>Reference counts\<close>

definition AtomicRefCountIncN :: "Atomic32 \<Rightarrow> Atomic32 \<Rightarrow> Atomic32" where
  "AtomicRefCountIncN cell increment = snd (NoBarrier_AtomicIncrement cell increment)"

definition AtomicRefCountDecN :: "Atomic32 \<Rightarrow> Atomic32 \<Rightarrow> bool \<times> Atomic32" where
  "AtomicRefCountDecN cell decrement =
     (case Barrier_AtomicIncrement cell (- decrement) of (r, cell') \<Rightarrow> (r \<noteq> 0, cell'))"

definition AtomicRefCountInc :: "Atomic32 \<Rightarrow> Atomic32" where
  "AtomicRefCountInc cell = AtomicRefCountIncN cell 1"

definition AtomicRefCountDec :: "Atomic32 \<Rightarrow> bool \<times> Atomic32" where
  "AtomicRefCountDec cell = AtomicRefCountDecN cell 1"

definition AtomicRefCountIsOne :: "Atomic32 \<Rightarrow> bool" where
  "AtomicRefCountIsOne cell = (Acquire_Load cell = 1)"

definition AtomicRefCountIsZero :: "Atomic32 \<Rightarrow> bool" where
  "AtomicRefCountIsZero cell = (Acquire_Load cell = 0)"

lemma increments_agree: "Barrier_AtomicIncrement = NoBarrier_AtomicIncrement"
  by (intro ext) (simp add: Barrier_AtomicIncrement_def NoBarrier_AtomicIncrement_def)

lemma AtomicRefCountInc_eq: "AtomicRefCountInc c = c + 1"
  by (simp add: AtomicRefCountInc_def AtomicRefCountIncN_def NoBarrier_AtomicIncrement_def)

lemma AtomicRefCountDec_eq: "AtomicRefCountDec c = (c \<noteq> 1, c - 1)"
  by (simp add: AtomicRefCountDec_def AtomicRefCountDecN_def Barrier_AtomicIncrement_def
      neg_eq_iff_add_eq_0 [symmetric] add.commute eq_neg_iff_add_eq_0)

end
