(* ===== verification/Once_Init.thy ===== *)
theory Once_Init
  imports Atomics
begin

text \<open>
  One-time initialisation: \<^verbatim>\<open>OnceInit\<close> of \<^verbatim>\<open>base/once.h\<close>, \<^verbatim>\<open>OnceInitImpl\<close> of
  \<^verbatim>\<open>base/once.cc\<close> and the singletons of \<^verbatim>\<open>base/singleton.h\<close> built on them.

  Any number of threads call \<^verbatim>\<open>OnceInit\<close> on one cell.  A thread is at one of the points of the
  code between two accesses to shared memory, and a step of the system is one step of one thread,
  so that every interleaving of the atomic accesses is a run of the model.  The closure takes a step
  to begin and a step to end; it may end with an exception, which leaves \<^verbatim>\<open>OnceInitImpl\<close> between
  the claim and the publication of the cell.
\<close>

subsection \<open>Cells, program points, steps\<close>

definition ONCE_STATE_UNINITIALIZED :: Atomic64 where
  "ONCE_STATE_UNINITIALIZED = 0"

definition ONCE_STATE_EXECUTING_CLOSURE :: Atomic64 where
  "ONCE_STATE_EXECUTING_CLOSURE = 1"

definition ONCE_STATE_DONE :: Atomic64 where
  "ONCE_STATE_DONE = 2"

lemmas once_states = ONCE_STATE_UNINITIALIZED_def ONCE_STATE_EXECUTING_CLOSURE_def
  ONCE_STATE_DONE_def

text \<open>\<open>Spin\<close> carries the local variable \<^verbatim>\<open>state\<close> of the waiting loop.\<close>

datatype once_point =
    Entry
  | Load_state
  | Claim
  | Call_closure
  | In_closure
  | Publish
  | Spin Atomic64
  | Returned
  | Thrown

record once_world =
  once_cell :: Atomic64
  point :: "nat \<Rightarrow> once_point"
  begun :: nat
  ended :: nat

definition once_goto :: "nat \<Rightarrow> once_point \<Rightarrow> once_world \<Rightarrow> once_world" where
  "once_goto t p w = w\<lparr>point := (point w)(t := p)\<rparr>"

definition once_fresh :: once_world where
  "once_fresh = \<lparr>once_cell = ONCE_STATE_UNINITIALIZED, point = (\<lambda>t. Entry), begun = 0, ended = 0\<rparr>"

definition OnceInit :: "nat \<Rightarrow> once_world \<Rightarrow> once_world" where
  "OnceInit t w =
     (if Acquire_Load64 (once_cell w) \<noteq> ONCE_STATE_DONE then once_goto t Load_state w
      else once_goto t Returned w)"

fun OnceInitImpl :: "bool \<Rightarrow> once_point \<Rightarrow> nat \<Rightarrow> once_world \<Rightarrow> once_world" where
  "OnceInitImpl throws Load_state t w =
     (if Acquire_Load64 (once_cell w) = ONCE_STATE_DONE then once_goto t Returned w
      else once_goto t Claim w)"
| "OnceInitImpl throws Claim t w =
     (case Acquire_CompareAndSwap64 (once_cell w) ONCE_STATE_UNINITIALIZED
             ONCE_STATE_EXECUTING_CLOSURE of
        (state, cell) \<Rightarrow>
          once_goto t (if state = ONCE_STATE_UNINITIALIZED then Call_closure else Spin state)
            (w\<lparr>once_cell := cell\<rparr>))"
| "OnceInitImpl throws Call_closure t w = once_goto t In_closure (w\<lparr>begun := begun w + 1\<rparr>)"
| "OnceInitImpl throws In_closure t w =
     (if throws then once_goto t Thrown w
      else once_goto t Publish (w\<lparr>ended := ended w + 1\<rparr>))"
| "OnceInitImpl throws Publish t w =
     once_goto t Returned (w\<lparr>once_cell := Release_Store64 (once_cell w) ONCE_STATE_DONE\<rparr>)"
| "OnceInitImpl throws (Spin state) t w =
     (if state = ONCE_STATE_EXECUTING_CLOSURE
      then once_goto t (Spin (Acquire_Load64 (once_cell w))) w
      else once_goto t Returned w)"
| "OnceInitImpl throws Entry t w = w"
| "OnceInitImpl throws Returned t w = w"
| "OnceInitImpl throws Thrown t w = w"

definition once_step :: "bool \<Rightarrow> nat \<Rightarrow> once_world \<Rightarrow> once_world" where
  "once_step throws t w =
     (if point w t = Entry then OnceInit t w else OnceInitImpl throws (point w t) t w)"

inductive once_reachable :: "once_world \<Rightarrow> bool" where
  once_init: "once_reachable once_fresh"
| once_next: "once_reachable w \<Longrightarrow> once_reachable (once_step throws t w)"

definition once_run :: "nat list \<Rightarrow> once_world \<Rightarrow> once_world" where
  "once_run sched w = fold (once_step False) sched w"

subsection \<open>The invariant\<close>

text \<open>The cell tells the phase: nobody has claimed it, one thread is running the closure or has
  left it by an exception, or the closure has ended and its end is published.\<close>

fun claimed :: "once_point \<Rightarrow> bool" where
  "claimed Call_closure = True"
| "claimed In_closure = True"
| "claimed Publish = True"
| "claimed Thrown = True"
| "claimed p = False"

definition once_before :: "once_world \<Rightarrow> bool" where
  "once_before w \<longleftrightarrow> once_cell w = 0 \<and> begun w = 0 \<and> ended w = 0 \<and>
     (\<forall>t. point w t \<in> {Entry, Load_state, Claim})"

definition once_during :: "nat \<Rightarrow> once_world \<Rightarrow> bool" where
  "once_during ow w \<longleftrightarrow> once_cell w = 1 \<and> claimed (point w ow) \<and>
     begun w = (if point w ow = Call_closure then 0 else 1) \<and>
     ended w = (if point w ow = Publish then 1 else 0) \<and>
     (\<forall>t. t \<noteq> ow \<longrightarrow> point w t \<in> {Entry, Load_state, Claim, Spin 1})"

definition once_after :: "once_world \<Rightarrow> bool" where
  "once_after w \<longleftrightarrow> once_cell w = 2 \<and> begun w = 1 \<and> ended w = 1 \<and>
     (\<forall>t. point w t \<in> {Entry, Load_state, Claim, Spin 1, Spin 2, Returned})"

definition once_inv :: "once_world \<Rightarrow> bool" where
  "once_inv w \<longleftrightarrow> once_before w \<or> (\<exists>ow. once_during ow w) \<or> once_after w"

lemmas once_steps = once_step_def OnceInit_def once_goto_def Acquire_Load64_def
  Acquire_CompareAndSwap64_def Release_Store64_def once_states

lemma once_before_step:
  assumes "once_before w"
  shows "once_inv (once_step throws t w)"
proof (cases "point w t = Claim")
  case True
  with assms have "once_during t (once_step throws t w)"
    by (auto simp: once_before_def once_during_def once_steps)
  then show ?thesis by (auto simp: once_inv_def)
next
  case False
  moreover from assms have "point w t \<in> {Entry, Load_state, Claim}"
    by (auto simp: once_before_def)
  ultimately have "once_before (once_step throws t w)"
    using assms by (cases "point w t") (auto simp: once_before_def once_steps)
  then show ?thesis by (simp add: once_inv_def)
qed

lemma once_owner_step:
  assumes "once_during t w"
  shows "once_inv (once_step throws t w)"
proof (cases "point w t = Publish")
  case True
  with assms have "once_after (once_step throws t w)"
    by (auto simp: once_during_def once_after_def once_steps)
  then show ?thesis by (simp add: once_inv_def)
next
  case False
  with assms have "once_during t (once_step throws t w)"
    by (cases "point w t") (auto simp: once_during_def once_steps)
  then show ?thesis by (auto simp: once_inv_def)
qed

lemma once_waiter_step:
  assumes "once_during ow w" and "t \<noteq> ow"
  shows "once_during ow (once_step throws t w)"
proof -
  from assms have "point w t \<in> {Entry, Load_state, Claim, Spin 1}"
    by (auto simp: once_during_def)
  with assms show ?thesis
    by (cases "point w t") (auto simp: once_during_def once_steps)
qed

lemma once_after_step:
  assumes "once_after w"
  shows "once_after (once_step throws t w)"
proof -
  from assms have "point w t \<in> {Entry, Load_state, Claim, Spin 1, Spin 2, Returned}"
    by (auto simp: once_after_def)
  with assms show ?thesis
    by (cases "point w t") (auto simp: once_after_def once_steps)
qed

lemma once_inv_step: "once_inv w \<Longrightarrow> once_inv (once_step throws t w)"
  by (metis once_after_step once_before_step once_inv_def once_owner_step once_waiter_step)

lemma once_inv_fresh: "once_inv once_fresh"
  by (simp add: once_inv_def once_before_def once_fresh_def once_states)

lemma once_reachable_inv: "once_reachable w \<Longrightarrow> once_inv w"
  by (induction rule: once_reachable.induct) (auto intro: once_inv_fresh once_inv_step)

lemma once_reachable_run: "once_reachable w \<Longrightarrow> once_reachable (once_run sched w)"
  unfolding once_run_def
  by (induction sched arbitrary: w) (auto intro: once_next)

lemma once_inv_returned:
  assumes "once_inv w" and "point w t = Returned"
  shows "once_after w"
  using assms unfolding once_inv_def
proof (elim disjE exE)
  assume "once_before w"
  then have "point w t \<in> {Entry, Load_state, Claim}" by (simp add: once_before_def)
  with assms(2) show ?thesis by simp
next
  fix ow assume ow: "once_during ow w"
  then have "claimed (point w ow)" by (simp add: once_during_def)
  with assms(2) have "t \<noteq> ow" by auto
  with ow have "point w t \<in> {Entry, Load_state, Claim, Spin 1}" by (auto simp: once_during_def)
  with assms(2) show ?thesis by simp
qed

lemma once_inv_claimed:
  assumes "once_inv w" and "claimed (point w t)"
  shows "once_during t w"
  using assms unfolding once_inv_def
proof (elim disjE exE)
  assume "once_before w"
  then have "point w t \<in> {Entry, Load_state, Claim}" by (simp add: once_before_def)
  with assms(2) show ?thesis by auto
next
  fix ow assume ow: "once_during ow w"
  show ?thesis
  proof (cases "t = ow")
    case False
    with ow have "point w t \<in> {Entry, Load_state, Claim, Spin 1}" by (auto simp: once_during_def)
    with assms(2) show ?thesis by auto
  qed (use ow in simp)
next
  assume "once_after w"
  then have "point w t \<in> {Entry, Load_state, Claim, Spin 1, Spin 2, Returned}"
    by (auto simp: once_after_def)
  with assms(2) show ?thesis by auto
qed

lemma once_inv_counts:
  assumes "once_inv w"
  shows "begun w \<le> 1 \<and> ended w \<le> begun w"
  using assms unfolding once_inv_def
  by (elim disjE exE) (auto simp: once_before_def once_during_def once_after_def)

subsection \<open>Progress\<close>

text \<open>The distance of a thread to its return.  A waiting thread only gets nearer once the cell is
  published.\<close>

fun once_rank :: "once_point \<Rightarrow> nat" where
  "once_rank Entry = 7"
| "once_rank Load_state = 6"
| "once_rank Claim = 5"
| "once_rank Call_closure = 4"
| "once_rank In_closure = 3"
| "once_rank Publish = 2"
| "once_rank (Spin state) = (if state = 1 then 2 else 1)"
| "once_rank Returned = 0"
| "once_rank Thrown = 0"

definition once_total :: "nat set \<Rightarrow> once_world \<Rightarrow> nat" where
  "once_total T w = (\<Sum>t\<in>T. once_rank (point w t))"

text \<open>A step of a thread moves that thread only.\<close>

lemma once_step_other: "t \<noteq> u \<Longrightarrow> point (once_step throws t w) u = point w u"
  by (cases "point w t") (auto simp: once_steps)

lemma once_step_rank: "once_rank (point (once_step False t w) t) \<le> once_rank (point w t)"
  by (cases "point w t") (auto simp: once_steps)

lemma once_step_progress:
  assumes "point w t \<notin> {Returned, Thrown}" and "point w t \<noteq> Spin 1 \<or> once_cell w = 2"
  shows "once_rank (point (once_step False t w) t) < once_rank (point w t)"
  using assms by (cases "point w t") (auto simp: once_steps)

lemma once_step_thrown: "(point (once_step False t w) u = Thrown) = (point w u = Thrown)"
  by (cases "t = u"; cases "point w t") (auto simp: once_steps)

lemma once_run_rank: "once_rank (point (once_run r w) t) \<le> once_rank (point w t)"
proof (induction r arbitrary: w)
  case (Cons a r)
  have "once_rank (point (once_step False a w) t) \<le> once_rank (point w t)"
    by (cases "a = t") (simp_all add: once_step_rank once_step_other)
  with Cons.IH [of "once_step False a w"] show ?case by (simp add: once_run_def)
qed (simp add: once_run_def)

lemma once_run_not_thrown: "(point (once_run r w) u = Thrown) = (point w u = Thrown)"
  unfolding once_run_def by (induction r arbitrary: w) (simp_all add: once_step_thrown)

text \<open>Once published, the cell stays published.\<close>

lemma once_run_after: "once_after w \<Longrightarrow> once_after (once_run r w)"
  unfolding once_run_def by (induction r arbitrary: w) (simp_all add: once_after_step)

lemma once_run_append: "once_run (r @ s) w = once_run s (once_run r w)"
  by (simp add: once_run_def)

text \<open>A thread that can move gets nearer in a schedule that mentions it: before its first step
  nobody has moved it.\<close>

lemma once_run_moves:
  assumes "t \<in> set r" and "point w t \<notin> {Returned, Thrown}"
    and "point w t \<noteq> Spin 1 \<or> once_after w"
  shows "once_rank (point (once_run r w) t) < once_rank (point w t)"
  using assms
proof (induction r arbitrary: w)
  case (Cons a r)
  show ?case
  proof (cases "a = t")
    case True
    have "once_rank (point (once_step False t w) t) < once_rank (point w t)"
      by (rule once_step_progress) (use Cons.prems in \<open>auto simp: once_after_def\<close>)
    moreover have "once_rank (point (once_run r (once_step False t w)) t)
        \<le> once_rank (point (once_step False t w) t)"
      by (rule once_run_rank)
    ultimately show ?thesis using True by (simp add: once_run_def)
  next
    case False
    then have p: "point (once_step False a w) t = point w t" by (rule once_step_other)
    have "once_rank (point (once_run r (once_step False a w)) t)
        < once_rank (point (once_step False a w) t)"
      by (rule Cons.IH) (use False Cons.prems p in \<open>auto intro: once_after_step\<close>)
    then show ?thesis using p by (simp add: once_run_def)
  qed
qed simp

text \<open>While somebody has not returned, somebody can move.\<close>

lemma once_somebody_moves:
  assumes "once_inv w" and "\<And>u. point w u \<noteq> Thrown" and "point w t \<noteq> Returned"
    and "\<And>u. u \<notin> T \<Longrightarrow> point w u = Entry" and "t \<in> T"
  obtains u where "u \<in> T" and "point w u \<notin> {Returned, Thrown}"
    and "point w u \<noteq> Spin 1 \<or> once_after w"
proof (cases "point w t = Spin 1 \<and> \<not> once_after w")
  case False
  then show thesis using that [of t] assms by auto
next
  case True
  with assms(1) obtain ow where ow: "once_during ow w"
    by (auto simp: once_inv_def once_before_def dest: spec [of _ t])
  then have c: "claimed (point w ow)" by (simp add: once_during_def)
  then have "ow \<in> T" using assms(4) by force
  with c show thesis using that [of ow] assms(2) by (cases "point w ow") auto
qed

lemma once_round:
  assumes "once_inv w" and "\<And>u. point w u \<noteq> Thrown" and "finite T" and "T \<subseteq> set r"
    and "\<And>u. u \<notin> T \<Longrightarrow> point w u = Entry" and "t \<in> T" and "point w t \<noteq> Returned"
  shows "once_total T (once_run r w) < once_total T w"
proof -
  obtain u where u: "u \<in> T" "point w u \<notin> {Returned, Thrown}"
    "point w u \<noteq> Spin 1 \<or> once_after w"
    using assms by (blast intro: once_somebody_moves [of w t T])
  show ?thesis unfolding once_total_def
  proof (rule sum_strict_mono_ex1 [OF assms(3)])
    show "\<forall>x\<in>T. once_rank (point (once_run r w) x) \<le> once_rank (point w x)"
      by (simp add: once_run_rank)
    show "\<exists>x\<in>T. once_rank (point (once_run r w) x) < once_rank (point w x)"
      using u assms(4) by (meson once_run_moves subsetD)
  qed
qed

lemma once_run_outside: "u \<notin> set r \<Longrightarrow> point (once_run r w) u = point w u"
  unfolding once_run_def by (induction r arbitrary: w) (simp_all add: once_step_other)

lemma once_total_zero:
  assumes "finite T" and "once_total T w = 0" and "t \<in> T"
    and "\<And>u. point w u \<noteq> Thrown"
  shows "point w t = Returned"
proof -
  from assms have "once_rank (point w t) = 0" by (simp add: once_total_def)
  with assms(4) [of t] show ?thesis by (cases "point w t") (auto split: if_splits)
qed

lemma once_returned_stays: "point w t = Returned \<Longrightarrow> point (once_run r w) t = Returned"
  unfolding once_run_def
proof (induction r arbitrary: w)
  case (Cons a r)
  have "point (once_step False a w) t = Returned"
    using Cons.prems by (cases "a = t") (simp_all add: once_step_other, simp add: once_steps)
  with Cons.IH show ?case by simp
qed simp

lemma once_rounds:
  assumes "finite T" and "\<forall>r\<in>set rounds. set r = T" and "once_reachable w"
    and "\<And>u. point w u \<noteq> Thrown" and "\<And>u. u \<notin> T \<Longrightarrow> point w u = Entry"
    and "once_total T w \<le> length rounds" and "t \<in> T"
  shows "point (once_run (concat rounds) w) t = Returned"
  using assms(2-6)
proof (induction rounds arbitrary: w)
  case Nil
  then show ?case using once_total_zero [OF assms(1) _ assms(7)] by (simp add: once_run_def)
next
  case (Cons r rounds)
  let ?w = "once_run r w"
  show ?case
  proof (cases "\<forall>u\<in>T. point w u = Returned")
    case True
    then show ?thesis using assms(7) by (auto intro: once_returned_stays)
  next
    case False
    then obtain u where u: "u \<in> T" "point w u \<noteq> Returned" by auto
    have "once_total T ?w < once_total T w"
      by (rule once_round [OF once_reachable_inv]) (use Cons.prems u assms(1) in auto)
    moreover have "\<And>u. point ?w u \<noteq> Thrown" using Cons.prems by (simp add: once_run_not_thrown)
    moreover have "\<And>u. u \<notin> T \<Longrightarrow> point ?w u = Entry"
      using Cons.prems by (simp add: once_run_outside)
    ultimately have "point (once_run (concat rounds) ?w) t = Returned"
      by (intro Cons.IH) (use Cons.prems in \<open>auto intro: once_reachable_run\<close>)
    then show ?thesis by (simp add: once_run_append)
  qed
qed

subsection \<open>What the callers of OnceInit rely on\<close>

lemma once_at_most_one:
  assumes "once_reachable w"
  shows "begun w \<le> 1 \<and> (claimed (point w t) \<and> claimed (point w u) \<longrightarrow> t = u)"
proof -
  from assms have inv: "once_inv w" by (rule once_reachable_inv)
  have "t = u" if "claimed (point w t)" "claimed (point w u)"
  proof (rule ccontr)
    assume "t \<noteq> u"
    with once_inv_claimed [OF inv that(1)]
    have "point w u \<in> {Entry, Load_state, Claim, Spin 1}" by (auto simp: once_during_def)
    with that(2) show False by auto
  qed
  with once_inv_counts [OF inv] show ?thesis by auto
qed

lemma once_returned_done:
  assumes "once_reachable w" and "point w t = Returned"
  shows "begun w = 1 \<and> ended w = 1 \<and> once_cell w = ONCE_STATE_DONE"
  using once_inv_returned [OF once_reachable_inv [OF assms(1)] assms(2)]
  by (simp add: once_after_def once_states)

text \<open>C11: Whatever the interleaving and whether or not closures throw, the closure begins at most once and no
  two threads are in it or past it at a time; a caller that has returned finds that the closure has run to its
  end exactly once and that the cell says so.\<close>

theorem closure_runs_once:
  assumes "once_reachable w"
  shows "begun w \<le> 1 \<and> (claimed (point w t) \<and> claimed (point w u) \<longrightarrow> t = u) \<and>
    (point w t = Returned \<longrightarrow> begun w = 1 \<and> ended w = 1 \<and> once_cell w = ONCE_STATE_DONE)"
  using assms once_at_most_one once_returned_done by blast

text \<open>Two threads: the first is inside the closure while the second waits.\<close>

theorem closure_runs_once_witness:
  "begun (once_run [0, 0, 1, 1, 0, 1, 0, 1] once_fresh) \<le> 1 \<and>
   point (once_run [0, 0, 1, 1, 0, 1, 0, 1] once_fresh) 1 = Spin 1"
proof
  show "begun (once_run [0, 0, 1, 1, 0, 1, 0, 1] once_fresh) \<le> 1"
    by (rule closure_runs_once [THEN conjunct1]) (intro once_reachable_run once_init)
  show "point (once_run [0, 0, 1, 1, 0, 1, 0, 1] once_fresh) 1 = Spin 1"
    by (simp add: once_run_def once_fresh_def once_steps)
qed

lemma once_total_fresh: "finite T \<Longrightarrow> once_total T once_fresh = 7 * card T"
  by (simp add: once_total_def once_fresh_def)

lemma once_fresh_rounds:
  assumes "finite T" and "\<forall>r\<in>set rounds. set r = T" and "7 * card T \<le> length rounds" and "t \<in> T"
  shows "point (once_run (concat rounds) once_fresh) t = Returned"
  by (rule once_rounds [OF assms(1,2) once_init])
    (use assms in \<open>simp_all add: once_total_fresh, simp_all add: once_fresh_def\<close>)

text \<open>C18: If the closure returns, every caller returns: under any schedule that keeps giving each of the n calling
  threads a turn, 7 * n rounds are enough for all of them, and by then the closure has run exactly once.\<close>

theorem callers_return:
  assumes "finite T" and "\<forall>r\<in>set rounds. set r = T" and "7 * card T \<le> length rounds" and "t \<in> T"
  shows "point (once_run (concat rounds) once_fresh) t = Returned \<and>
    begun (once_run (concat rounds) once_fresh) = 1 \<and> ended (once_run (concat rounds) once_fresh) = 1"
proof -
  have r: "point (once_run (concat rounds) once_fresh) t = Returned"
    using assms by (rule once_fresh_rounds)
  moreover have "once_reachable (once_run (concat rounds) once_fresh)"
    by (intro once_reachable_run once_init)
  ultimately show ?thesis using once_returned_done by blast
qed

theorem callers_return_witness:
  "point (once_run (concat (replicate 14 [1, 0, 1])) once_fresh) 0 = Returned"
  using callers_return [of "{0, 1}" "replicate 14 [1, 0, 1]" 0] by auto

text \<open>A closure that throws leaves the cell claimed for good: the exception passes through
  \<^verbatim>\<open>OnceInitImpl\<close>, nobody stores to the cell any more, and no caller ever returns.\<close>

lemma once_inv_thrown:
  assumes "once_inv w" and "point w t = Thrown"
  shows "once_cell w = ONCE_STATE_EXECUTING_CLOSURE \<and> point w u \<noteq> Returned"
proof -
  from once_inv_claimed [OF assms(1)] assms(2) have "once_during t w" by simp
  then show ?thesis using assms(2)
    by (cases "u = t") (auto simp: once_during_def once_states dest: spec [of _ u])
qed

theorem throwing_closure_blocks:
  assumes "once_reachable w" and "point w t = Thrown"
  shows "point (once_run sched w) u \<noteq> Returned \<and>
    once_cell (once_run sched w) = ONCE_STATE_EXECUTING_CLOSURE"
proof -
  have "once_inv (once_run sched w)"
    using assms(1) by (intro once_reachable_inv once_reachable_run)
  moreover have "point (once_run sched w) t = Thrown" using assms(2) by (simp add: once_run_not_thrown)
  ultimately show ?thesis using once_inv_thrown by blast
qed

subsection \<open>Singletons\<close>

text \<open>The object of type \<open>T\<close> is a number; \<open>created\<close> counts the calls of its constructor and
  \<open>destroyed\<close> lists the deleted objects.  \<open>OnceInit_alone\<close> is the call of a thread that nobody
  disturbs: its value is the cell and the effect of the closure, or None if it waits for ever.\<close>

record singleton =
  single_once :: Atomic64
  instance_ptr :: "nat option"
  created :: nat
  destroyed :: "nat list"

definition OnceInit_alone :: "('s \<Rightarrow> 's) \<Rightarrow> Atomic64 \<times> 's \<Rightarrow> (Atomic64 \<times> 's) option" where
  "OnceInit_alone closure s =
     (if fst s = ONCE_STATE_UNINITIALIZED then Some (ONCE_STATE_DONE, closure (snd s))
      else if fst s = ONCE_STATE_EXECUTING_CLOSURE then None
      else Some s)"

definition Singleton_zero :: singleton where
  "Singleton_zero = \<lparr>single_once = 0, instance_ptr = None, created = 0, destroyed = []\<rparr>"

definition Singleton_Init :: "singleton \<Rightarrow> singleton" where
  "Singleton_Init s = s\<lparr>instance_ptr := Some (created s), created := created s + 1\<rparr>"

definition GetInstance :: "singleton \<Rightarrow> (nat option \<times> singleton) option" where
  "GetInstance s =
     do { r \<leftarrow> OnceInit_alone Singleton_Init (single_once s, s);
          Some (instance_ptr (snd r), (snd r)\<lparr>single_once := fst r\<rparr>) }"

definition ShutDown :: "singleton \<Rightarrow> singleton" where
  "ShutDown s = s\<lparr>instance_ptr := None,
     destroyed := (case instance_ptr s of None \<Rightarrow> destroyed s | Some p \<Rightarrow> destroyed s @ [p])\<rparr>"

text \<open>The steps of one thread that runs alone are \<open>OnceInit_alone\<close>.\<close>

lemma OnceInit_alone_steps:
  assumes "point w t = Entry"
  shows "once_cell w = ONCE_STATE_UNINITIALIZED \<Longrightarrow>
      once_run (replicate 6 t) w = once_goto t Returned
        (w\<lparr>once_cell := ONCE_STATE_DONE, begun := begun w + 1, ended := ended w + 1\<rparr>)"
    and "once_cell w = ONCE_STATE_DONE \<Longrightarrow> once_run [t] w = once_goto t Returned w"
    and "once_cell w = ONCE_STATE_EXECUTING_CLOSURE \<Longrightarrow>
      once_run (replicate (3 + n) t) w = once_goto t (Spin 1) w"
proof -
  show "once_run (replicate 6 t) w = once_goto t Returned
      (w\<lparr>once_cell := ONCE_STATE_DONE, begun := begun w + 1, ended := ended w + 1\<rparr>)"
    if "once_cell w = ONCE_STATE_UNINITIALIZED"
    using assms that by (simp add: once_run_def once_steps eval_nat_numeral)
  show "once_run [t] w = once_goto t Returned w" if "once_cell w = ONCE_STATE_DONE"
    using assms that by (simp add: once_run_def once_steps)
  show "once_run (replicate (3 + n) t) w = once_goto t (Spin 1) w"
    if c: "once_cell w = ONCE_STATE_EXECUTING_CLOSURE"
  proof (induction n)
    case 0
    show ?case using assms c by (simp add: once_run_def once_steps eval_nat_numeral)
  next
    case (Suc n)
    have "replicate (3 + Suc n) t = replicate (3 + n) t @ [t]"
      by (simp flip: replicate_Suc add: replicate_append_same)
    then have "once_run (replicate (3 + Suc n) t) w = once_run [t] (once_goto t (Spin 1) w)"
      by (simp only: once_run_append Suc.IH)
    also have "\<dots> = once_goto t (Spin 1) w" using c by (simp add: once_run_def once_steps)
    finally show ?case .
  qed
qed

datatype single_call = Get | Shut

fun single_run :: "single_call list \<Rightarrow> singleton \<Rightarrow> (nat option list \<times> singleton) option" where
  "single_run [] s = Some ([], s)"
| "single_run (Get # cs) s =
     do { r \<leftarrow> GetInstance s; q \<leftarrow> single_run cs (snd r); Some (fst r # fst q, snd q) }"
| "single_run (Shut # cs) s = single_run cs (ShutDown s)"

text \<open>What the calls return: the object until it is deleted, a null pointer from then on; and a
  \<^verbatim>\<open>ShutDown\<close> before the first use changes nothing.\<close>

fun single_spec :: "single_call list \<Rightarrow> nat option list" where
  "single_spec [] = []"
| "single_spec (Get # cs) =
     Some 0 # map (\<lambda>c. Some 0) (takeWhile (\<lambda>c. c = Get) cs) @
     map (\<lambda>c. None) (filter (\<lambda>c. c = Get) (dropWhile (\<lambda>c. c = Get) cs))"
| "single_spec (Shut # cs) = single_spec cs"

lemma single_run_deleted:
  assumes "single_once s = ONCE_STATE_DONE" and "instance_ptr s = None"
  shows "single_run cs s = Some (map (\<lambda>c. None) (filter (\<lambda>c. c = Get) cs), s)"
  using assms
proof (induction cs)
  case (Cons c cs)
  have "ShutDown s = s" using Cons.prems by (simp add: ShutDown_def)
  moreover have "GetInstance s = Some (None, s)"
    using Cons.prems by (simp add: GetInstance_def OnceInit_alone_def once_states)
  ultimately show ?case using Cons by (cases c) simp_all
qed simp

lemma single_run_alive:
  assumes "single_once s = ONCE_STATE_DONE" and "instance_ptr s = Some p"
  shows "single_run cs s = Some
    (map (\<lambda>c. Some p) (takeWhile (\<lambda>c. c = Get) cs) @
     map (\<lambda>c. None) (filter (\<lambda>c. c = Get) (dropWhile (\<lambda>c. c = Get) cs)),
     if Shut \<in> set cs then ShutDown s else s)"
  using assms
proof (induction cs)
  case (Cons c cs)
  have "GetInstance s = Some (Some p, s)"
    using Cons.prems by (simp add: GetInstance_def OnceInit_alone_def once_states)
  then show ?case using Cons
    by (cases c) (simp_all add: single_run_deleted ShutDown_def)
qed simp

theorem singleton_calls:
  "\<exists>s. single_run cs Singleton_zero = Some (single_spec cs, s) \<and> created s \<le> 1 \<and>
     destroyed s \<in> {[], [0]} \<and> (destroyed s = [0]) = (Shut \<in> set (dropWhile (\<lambda>c. c = Shut) cs))"
proof (induction cs)
  case (Cons c cs)
  show ?case
  proof (cases c)
    case Get
    let ?s = "\<lparr>single_once = ONCE_STATE_DONE, instance_ptr = Some 0, created = 1, destroyed = []\<rparr>"
    have "GetInstance Singleton_zero = Some (Some 0, ?s)"
      by (simp add: GetInstance_def OnceInit_alone_def Singleton_zero_def Singleton_Init_def once_states)
    then show ?thesis using Get by (auto simp: single_run_alive ShutDown_def)
  next
    case Shut
    then show ?thesis using Cons by (simp add: Singleton_zero_def ShutDown_def)
  qed
qed (simp add: Singleton_zero_def)

end
