(* ===== verification/Ref_Counted.thy ===== *)
theory Ref_Counted
  imports Atomics
begin

text \<open>
  Reference counting: \<^verbatim>\<open>RefCountedBase\<close>, \<^verbatim>\<open>RefCounted\<close>, \<^verbatim>\<open>RefCountedThreadSafe\<close> and the smart pointer
  \<^verbatim>\<open>scoped_ref_ptr\<close> of \<^verbatim>\<open>base/ref_counted.h\<close> and \<^verbatim>\<open>base/ref_counted.cc\<close>.

  Objects and smart pointer variables have numbers.  The heap maps every object that has not been
  deleted to its count, and every smart pointer in scope to the object it holds or to the null
  pointer.  An operation has the value None where the code has undefined behaviour: a call on an
  object that is deleted, an operation on a variable that is not in scope, a signed overflow of the
  count.  The destructor of the pointee type T is that of the client; it is taken to leave other smart
  pointers alone.

  The two counters, a plain \<^verbatim>\<open>int\<close> and an atomic 32-bit cell, are one interface: the locale
  \<open>ref_counter\<close>, under whose laws the smart pointer is proved correct once.
\<close>

subsection \<open>The counters\<close>

definition RefCountedBase_init :: int where
  "RefCountedBase_init = 0"

definition RefCountedBase_HasOneRef :: "int \<Rightarrow> bool" where
  "RefCountedBase_HasOneRef ref_count = (ref_count = 1)"

definition RefCountedBase_AddRef :: "int \<Rightarrow> int option" where
  "RefCountedBase_AddRef ref_count =
     (if ref_count < 2 ^ 31 - 1 then Some (ref_count + 1) else None)"

definition RefCountedBase_Release :: "int \<Rightarrow> (bool \<times> int) option" where
  "RefCountedBase_Release ref_count =
     (if - (2 ^ 31) < ref_count then Some (ref_count - 1 = 0, ref_count - 1) else None)"

definition RefCountedThreadSafeBase_init :: Atomic32 where
  "RefCountedThreadSafeBase_init = 0"

definition RefCountedThreadSafeBase_HasOneRef :: "Atomic32 \<Rightarrow> bool" where
  "RefCountedThreadSafeBase_HasOneRef ref_count = AtomicRefCountIsOne ref_count"

definition RefCountedThreadSafeBase_AddRef :: "Atomic32 \<Rightarrow> Atomic32 option" where
  "RefCountedThreadSafeBase_AddRef ref_count = Some (AtomicRefCountInc ref_count)"

definition RefCountedThreadSafeBase_Release :: "Atomic32 \<Rightarrow> (bool \<times> Atomic32) option" where
  "RefCountedThreadSafeBase_Release ref_count =
     (case AtomicRefCountDec ref_count of (r, ref_count') \<Rightarrow> Some (\<not> r, ref_count'))"

subsection \<open>Objects and smart pointers\<close>

record 'c rc_heap =
  ref_count :: "nat \<Rightarrow> 'c option"
  ptr :: "nat \<Rightarrow> nat option option"
  deleted :: "nat list"

text \<open>\<^verbatim>\<open>RefCounted<T>::AddRef\<close> and \<^verbatim>\<open>Release\<close>, for the counter operations \<open>add\<close> and \<open>rel\<close>.\<close>

definition AddRef :: "('c \<Rightarrow> 'c option) \<Rightarrow> nat \<Rightarrow> 'c rc_heap \<Rightarrow> 'c rc_heap option" where
  "AddRef add p h =
     do { c \<leftarrow> ref_count h p; c' \<leftarrow> add c; Some (h\<lparr>ref_count := (ref_count h)(p \<mapsto> c')\<rparr>) }"

definition Release :: "('c \<Rightarrow> (bool \<times> 'c) option) \<Rightarrow> nat \<Rightarrow> 'c rc_heap \<Rightarrow> 'c rc_heap option" where
  "Release rel p h =
     do { c \<leftarrow> ref_count h p; r \<leftarrow> rel c;
          if fst r
          then Some (h\<lparr>ref_count := (ref_count h)(p := None), deleted := deleted h @ [p]\<rparr>)
          else Some (h\<lparr>ref_count := (ref_count h)(p \<mapsto> snd r)\<rparr>) }"

text \<open>The guards \<^verbatim>\<open>if (ptr_)\<close>.\<close>

definition on_object :: "(nat \<Rightarrow> 'h \<Rightarrow> 'h option) \<Rightarrow> nat option \<Rightarrow> 'h \<Rightarrow> 'h option" where
  "on_object f q h = (case q of None \<Rightarrow> Some h | Some p \<Rightarrow> f p h)"

definition store_ptr :: "nat \<Rightarrow> nat option option \<Rightarrow> 'c rc_heap \<Rightarrow> 'c rc_heap" where
  "store_ptr v x h = h\<lparr>ptr := (ptr h)(v := x)\<rparr>"

text \<open>\<^verbatim>\<open>new T\<close>, at an address where no object has been.\<close>

definition new_object :: "'c \<Rightarrow> nat \<Rightarrow> 'c rc_heap \<Rightarrow> 'c rc_heap option" where
  "new_object init p h =
     (if ref_count h p = None \<and> p \<notin> set (deleted h)
      then Some (h\<lparr>ref_count := (ref_count h)(p \<mapsto> init)\<rparr>) else None)"

definition ptr_null :: "nat \<Rightarrow> 'c rc_heap \<Rightarrow> 'c rc_heap option" where
  "ptr_null v h = (if ptr h v = None then Some (store_ptr v (Some None) h) else None)"

definition ptr_raw :: "('c \<Rightarrow> 'c option) \<Rightarrow> nat \<Rightarrow> nat option \<Rightarrow> 'c rc_heap \<Rightarrow> 'c rc_heap option" where
  "ptr_raw add v q h =
     (if ptr h v = None then on_object (AddRef add) q (store_ptr v (Some q) h) else None)"

definition ptr_copy :: "('c \<Rightarrow> 'c option) \<Rightarrow> nat \<Rightarrow> nat \<Rightarrow> 'c rc_heap \<Rightarrow> 'c rc_heap option" where
  "ptr_copy add v r h =
     do { q \<leftarrow> ptr h r;
          if ptr h v = None then on_object (AddRef add) q (store_ptr v (Some q) h) else None }"

definition ptr_move :: "nat \<Rightarrow> nat \<Rightarrow> 'c rc_heap \<Rightarrow> 'c rc_heap option" where
  "ptr_move v r h =
     do { q \<leftarrow> ptr h r;
          if ptr h v = None then Some (store_ptr r (Some None) (store_ptr v (Some q) h)) else None }"

definition ptr_destroy :: "('c \<Rightarrow> (bool \<times> 'c) option) \<Rightarrow> nat \<Rightarrow> 'c rc_heap \<Rightarrow> 'c rc_heap option" where
  "ptr_destroy rel v h =
     do { q \<leftarrow> ptr h v; h1 \<leftarrow> on_object (Release rel) q h; Some (store_ptr v None h1) }"

definition assign_raw ::
    "('c \<Rightarrow> 'c option) \<Rightarrow> ('c \<Rightarrow> (bool \<times> 'c) option) \<Rightarrow> nat \<Rightarrow> nat option \<Rightarrow> 'c rc_heap \<Rightarrow>
      'c rc_heap option" where
  "assign_raw add rel v q h =
     do { h1 \<leftarrow> on_object (AddRef add) q h;
          old_ptr \<leftarrow> ptr h1 v;
          on_object (Release rel) old_ptr (store_ptr v (Some q) h1) }"

definition assign_copy ::
    "('c \<Rightarrow> 'c option) \<Rightarrow> ('c \<Rightarrow> (bool \<times> 'c) option) \<Rightarrow> nat \<Rightarrow> nat \<Rightarrow> 'c rc_heap \<Rightarrow>
      'c rc_heap option" where
  "assign_copy add rel v r h = do { q \<leftarrow> ptr h r; assign_raw add rel v q h }"

definition ptr_swap :: "nat \<Rightarrow> nat \<Rightarrow> 'c rc_heap \<Rightarrow> 'c rc_heap option" where
  "ptr_swap v r h =
     do { p \<leftarrow> ptr h v; q \<leftarrow> ptr h r;
          Some (store_ptr r (Some p) (store_ptr v (Some q) h)) }"

text \<open>The move assignment moves its argument to a temporary \<open>t\<close>, exchanges that with the target and
  destroys it.\<close>

definition assign_move ::
    "('c \<Rightarrow> (bool \<times> 'c) option) \<Rightarrow> nat \<Rightarrow> nat \<Rightarrow> nat \<Rightarrow> 'c rc_heap \<Rightarrow> 'c rc_heap option" where
  "assign_move rel t v r h =
     do { h1 \<leftarrow> ptr_move t r h; h2 \<leftarrow> ptr_swap t v h1; ptr_destroy rel t h2 }"

definition ptr_get :: "nat \<Rightarrow> 'c rc_heap \<Rightarrow> nat option option" where
  "ptr_get v h = ptr h v"

text \<open>\<^verbatim>\<open>operator*\<close> and \<^verbatim>\<open>operator->\<close> assert that the pointer is not null.\<close>

definition ptr_deref :: "nat \<Rightarrow> 'c rc_heap \<Rightarrow> nat option" where
  "ptr_deref v h = do { q \<leftarrow> ptr h v; p \<leftarrow> q; if ref_count h p = None then None else Some p }"

definition ptr_bool :: "nat \<Rightarrow> 'c rc_heap \<Rightarrow> bool option" where
  "ptr_bool v h = do { q \<leftarrow> ptr h v; Some (q \<noteq> None) }"

definition ptr_equal :: "nat \<Rightarrow> nat \<Rightarrow> 'c rc_heap \<Rightarrow> bool option" where
  "ptr_equal v r h = do { p \<leftarrow> ptr h v; q \<leftarrow> ptr h r; Some (p = q) }"

text \<open>The operations of a client, and what C++ asks of it: variables are constructed once and used while
  they are in scope, raw pointers lead to objects that are not deleted, and fewer than \<open>2 ^ 31 - 2\<close>
  smart pointers exist.\<close>

datatype rc_op =
    New nat
  | Null nat
  | Raw nat "nat option"
  | Copy nat nat
  | Move nat nat
  | Destroy nat
  | Assign_raw nat "nat option"
  | Assign_copy nat nat
  | Assign_move nat nat nat
  | Swap nat nat

fun rc_exec ::
    "'c \<Rightarrow> ('c \<Rightarrow> 'c option) \<Rightarrow> ('c \<Rightarrow> (bool \<times> 'c) option) \<Rightarrow> rc_op \<Rightarrow> 'c rc_heap \<Rightarrow> 'c rc_heap option"
where
  "rc_exec init add rel (New p) h = new_object init p h"
| "rc_exec init add rel (Null v) h = ptr_null v h"
| "rc_exec init add rel (Raw v q) h = ptr_raw add v q h"
| "rc_exec init add rel (Copy v r) h = ptr_copy add v r h"
| "rc_exec init add rel (Move v r) h = ptr_move v r h"
| "rc_exec init add rel (Destroy v) h = ptr_destroy rel v h"
| "rc_exec init add rel (Assign_raw v q) h = assign_raw add rel v q h"
| "rc_exec init add rel (Assign_copy v r) h = assign_copy add rel v r h"
| "rc_exec init add rel (Assign_move t v r) h = assign_move rel t v r h"
| "rc_exec init add rel (Swap v r) h = ptr_swap v r h"

definition raw_ok :: "nat option \<Rightarrow> 'c rc_heap \<Rightarrow> bool" where
  "raw_ok q h = (case q of None \<Rightarrow> True | Some p \<Rightarrow> ref_count h p \<noteq> None)"

fun rc_allowed :: "rc_op \<Rightarrow> 'c rc_heap \<Rightarrow> bool" where
  "rc_allowed (New p) h = (ref_count h p = None \<and> p \<notin> set (deleted h))"
| "rc_allowed (Null v) h = (ptr h v = None)"
| "rc_allowed (Raw v q) h = (ptr h v = None \<and> raw_ok q h)"
| "rc_allowed (Copy v r) h = (ptr h v = None \<and> ptr h r \<noteq> None)"
| "rc_allowed (Move v r) h = (ptr h v = None \<and> ptr h r \<noteq> None)"
| "rc_allowed (Destroy v) h = (ptr h v \<noteq> None)"
| "rc_allowed (Assign_raw v q) h = (ptr h v \<noteq> None \<and> raw_ok q h)"
| "rc_allowed (Assign_copy v r) h = (ptr h v \<noteq> None \<and> ptr h r \<noteq> None)"
| "rc_allowed (Assign_move t v r) h = (ptr h t = None \<and> ptr h v \<noteq> None \<and> ptr h r \<noteq> None)"
| "rc_allowed (Swap v r) h = (ptr h v \<noteq> None \<and> ptr h r \<noteq> None)"

subsection \<open>Counts and references\<close>

definition refs :: "nat \<Rightarrow> 'c rc_heap \<Rightarrow> nat set" where
  "refs p h = {v. ptr h v = Some (Some p)}"

text \<open>Between the writes of an operation the count of \<open>p\<close> differs from the number of its smart pointers
  by \<open>d p\<close>; between operations \<open>d\<close> is 0.\<close>

definition counted :: "('c \<Rightarrow> int) \<Rightarrow> (nat \<Rightarrow> int) \<Rightarrow> 'c rc_heap \<Rightarrow> bool" where
  "counted val d h \<longleftrightarrow> finite (dom (ptr h)) \<and>
     (\<forall>p c. ref_count h p = Some c \<longrightarrow> val c = int (card (refs p h)) + d p) \<and>
     (\<forall>v p. ptr h v = Some (Some p) \<longrightarrow> ref_count h p \<noteq> None) \<and>
     distinct (deleted h) \<and> (\<forall>p\<in>set (deleted h). ref_count h p = None)"

abbreviation rc_ok :: "('c \<Rightarrow> int) \<Rightarrow> 'c rc_heap \<Rightarrow> bool" where
  "rc_ok val h \<equiv> counted val (\<lambda>p. 0) h"

text \<open>Exactly the objects whose last smart pointer the step took away are deleted in it.\<close>

definition reclaims :: "'c rc_heap \<Rightarrow> 'c rc_heap \<Rightarrow> bool" where
  "reclaims h h' \<longleftrightarrow>
     set (deleted h') = set (deleted h) \<union> {p. refs p h \<noteq> {} \<and> refs p h' = {}} \<and>
     (\<forall>p. ref_count h p \<noteq> None \<longrightarrow>
        (ref_count h' p = None) = (refs p h \<noteq> {} \<and> refs p h' = {}))"

lemma refs_finite: "finite (dom (ptr h)) \<Longrightarrow> finite (refs p h)"
  by (rule finite_subset [of _ "dom (ptr h)"]) (auto simp: refs_def)

lemma refs_bound: "finite (dom (ptr h)) \<Longrightarrow> card (refs p h) \<le> card (dom (ptr h))"
  by (rule card_mono) (auto simp: refs_def)

lemma nat_bound: "n + 1 < (2::nat) ^ 31 \<Longrightarrow> int n + 1 < 2 ^ 31"
  by simp

lemma refs_store:
  "refs p (store_ptr v x h) = (if x = Some (Some p) then insert v (refs p h) else refs p h - {v})"
  by (auto simp: refs_def store_ptr_def)

lemma card_refs_store:
  assumes "finite (dom (ptr h))"
  shows "int (card (refs p (store_ptr v x h))) =
    int (card (refs p h)) - of_bool (ptr h v = Some (Some p)) + of_bool (x = Some (Some p))"
proof -
  have v: "v \<in> refs p h \<longleftrightarrow> ptr h v = Some (Some p)" by (simp add: refs_def)
  have f: "finite (refs p h)" using assms by (rule refs_finite)
  have "0 < card (refs p h)" if "v \<in> refs p h" using that f by (auto simp: card_gt_0_iff)
  then show ?thesis using f v
    by (cases "v \<in> refs p h"; cases "x = Some (Some p)")
      (simp_all add: refs_store card_insert_if card_Diff_singleton_if of_nat_diff)
qed

lemma store_counted:
  assumes "counted val d h" and "\<And>p. x = Some (Some p) \<Longrightarrow> ref_count h p \<noteq> None"
  shows "counted val (\<lambda>p. d p + of_bool (ptr h v = Some (Some p)) - of_bool (x = Some (Some p)))
    (store_ptr v x h)"
proof -
  from assms(1) have fin: "finite (dom (ptr h))" by (simp add: counted_def)
  have "finite (dom (ptr (store_ptr v x h)))"
    by (rule finite_subset [of _ "insert v (dom (ptr h))"])
      (use fin in \<open>auto simp: store_ptr_def split: if_splits\<close>)
  moreover have "ptr (store_ptr v x h) w = Some (Some p) \<longrightarrow> ref_count h p \<noteq> None" for w p
    using assms by (auto simp: store_ptr_def counted_def)
  moreover have "ref_count (store_ptr v x h) = ref_count h" "deleted (store_ptr v x h) = deleted h"
    by (simp_all add: store_ptr_def)
  ultimately show ?thesis
    using assms(1) by (simp add: counted_def card_refs_store [OF fin])
qed

lemma store_ptr_sel [simp]:
  "ref_count (store_ptr v x h) = ref_count h" "deleted (store_ptr v x h) = deleted h"
  "ptr (store_ptr v x h) w = (if w = v then x else ptr h w)"
  by (simp_all add: store_ptr_def)

lemma Release_store:
  "on_object (Release rel) q (store_ptr v x h) =
    map_option (store_ptr v x) (on_object (Release rel) q h)"
proof (cases q)
  case (Some p)
  then show ?thesis
    by (cases "ref_count h p"; cases "rel (the (ref_count h p))")
      (simp_all add: on_object_def Release_def store_ptr_def)
qed (simp add: on_object_def)

lemma refs_ptr: "ptr h' = ptr h \<Longrightarrow> refs p h' = refs p h"
  by (simp add: refs_def)

subsection \<open>The smart pointer over any counter\<close>

locale ref_counter =
  fixes init :: 'c and add :: "'c \<Rightarrow> 'c option" and rel :: "'c \<Rightarrow> (bool \<times> 'c) option"
    and one :: "'c \<Rightarrow> bool" and val :: "'c \<Rightarrow> int"
  assumes val_init: "val init = 0"
    and val_one: "one c = (val c = 1)"
    and val_add: "0 \<le> val c \<Longrightarrow> val c < 2 ^ 31 - 1 \<Longrightarrow> \<exists>c'. add c = Some c' \<and> val c' = val c + 1"
    and val_rel: "0 < val c \<Longrightarrow> val c \<le> 2 ^ 31 - 1 \<Longrightarrow>
      \<exists>c'. rel c = Some (val c = 1, c') \<and> val c' = val c - 1"
begin

lemma AddRef_counted:
  assumes "counted val d h" and "ref_count h p \<noteq> None" and "d p \<le> 0"
    and "0 \<le> int (card (refs p h)) + d p" and "card (dom (ptr h)) + 1 < 2 ^ 31"
  shows "\<exists>h'. AddRef add p h = Some h' \<and> ptr h' = ptr h \<and> deleted h' = deleted h \<and>
    dom (ref_count h') = dom (ref_count h) \<and> counted val (\<lambda>q. d q + of_bool (q = p)) h'"
proof -
  from assms(2) obtain c where c: "ref_count h p = Some c" by auto
  from assms(1) have fin: "finite (dom (ptr h))" by (simp add: counted_def)
  from assms(1) c have v: "val c = int (card (refs p h)) + d p" by (auto simp: counted_def)
  moreover have "int (card (dom (ptr h))) + 1 < 2 ^ 31" using assms(5) by (rule nat_bound)
  ultimately have "0 \<le> val c" "val c < 2 ^ 31 - 1"
    using refs_bound [OF fin, of p] assms(3,4) by linarith+
  then obtain c' where c': "add c = Some c'" "val c' = val c + 1" using val_add by blast
  let ?h = "h\<lparr>ref_count := (ref_count h)(p \<mapsto> c')\<rparr>"
  have "AddRef add p h = Some ?h" using c c' by (simp add: AddRef_def)
  moreover have "counted val (\<lambda>q. d q + of_bool (q = p)) ?h"
    using assms(1) c c'(2) v by (auto simp: counted_def refs_def)
  ultimately show ?thesis using c by (intro exI [of _ ?h]) auto
qed

lemma Release_counted:
  assumes "counted val d h" and "ref_count h p \<noteq> None" and "d p = 1"
    and "card (dom (ptr h)) + 1 < 2 ^ 31"
  shows "\<exists>h'. Release rel p h = Some h' \<and> ptr h' = ptr h \<and>
    deleted h' = (if refs p h = {} then deleted h @ [p] else deleted h) \<and>
    dom (ref_count h') = (if refs p h = {} then dom (ref_count h) - {p} else dom (ref_count h)) \<and>
    counted val (\<lambda>q. d q - of_bool (q = p)) h'"
proof -
  from assms(2) obtain c where c: "ref_count h p = Some c" by auto
  from assms(1) have fin: "finite (dom (ptr h))" by (simp add: counted_def)
  from assms(1,3) c have v: "val c = int (card (refs p h)) + 1" by (auto simp: counted_def)
  moreover have "int (card (dom (ptr h))) + 1 < 2 ^ 31" using assms(4) by (rule nat_bound)
  ultimately have "0 < val c" "val c \<le> 2 ^ 31 - 1" using refs_bound [OF fin, of p] by linarith+
  then obtain c' where c': "rel c = Some (val c = 1, c')" "val c' = val c - 1" using val_rel by blast
  have e: "refs p h = {} \<longleftrightarrow> val c = 1" using v refs_finite [OF fin, of p] by simp
  show ?thesis
  proof (cases "val c = 1")
    case True
    let ?h = "h\<lparr>ref_count := (ref_count h)(p := None), deleted := deleted h @ [p]\<rparr>"
    have "Release rel p h = Some ?h" using c c' True by (simp add: Release_def)
    moreover have "counted val (\<lambda>q. d q - of_bool (q = p)) ?h"
      using assms(1) c e True by (auto simp: counted_def refs_def)
    ultimately show ?thesis using True e by (intro exI [of _ ?h]) auto
  next
    case False
    let ?h = "h\<lparr>ref_count := (ref_count h)(p \<mapsto> c')\<rparr>"
    have "Release rel p h = Some ?h" using c c' False by (simp add: Release_def)
    moreover have "counted val (\<lambda>q. d q - of_bool (q = p)) ?h"
      using assms(1,3) c c'(2) v by (auto simp: counted_def refs_def)
    ultimately show ?thesis using False e c by (intro exI [of _ ?h]) auto
  qed
qed

lemma on_AddRef:
  assumes "counted val d h" and "raw_ok q h" and "card (dom (ptr h)) + 1 < 2 ^ 31"
    and "\<And>p. q = Some p \<Longrightarrow> d p \<le> 0 \<and> 0 \<le> int (card (refs p h)) + d p"
  shows "\<exists>h'. on_object (AddRef add) q h = Some h' \<and> ptr h' = ptr h \<and> deleted h' = deleted h \<and>
    dom (ref_count h') = dom (ref_count h) \<and> counted val (\<lambda>p. d p + of_bool (q = Some p)) h'"
proof (cases q)
  case None
  then show ?thesis using assms(1) by (simp add: on_object_def)
next
  case (Some p)
  from assms(2) Some have "ref_count h p \<noteq> None" by (simp add: raw_ok_def)
  from AddRef_counted [OF assms(1) this _ _ assms(3)] assms(4) [OF Some] Some show ?thesis
    by (auto simp: on_object_def eq_commute [of _ p])
qed

lemma on_Release:
  assumes "counted val d h" and "raw_ok q h" and "card (dom (ptr h)) + 1 < 2 ^ 31"
    and "\<And>p. q = Some p \<Longrightarrow> d p = 1"
  shows "\<exists>h'. on_object (Release rel) q h = Some h' \<and> ptr h' = ptr h \<and>
    set (deleted h') = set (deleted h) \<union> {p. q = Some p \<and> refs p h = {}} \<and>
    dom (ref_count h') = dom (ref_count h) - {p. q = Some p \<and> refs p h = {}} \<and>
    counted val (\<lambda>p. d p - of_bool (q = Some p)) h'"
proof (cases q)
  case None
  then show ?thesis using assms(1) by (simp add: on_object_def)
next
  case (Some p)
  from assms(2) Some have "ref_count h p \<noteq> None" by (simp add: raw_ok_def)
  from Release_counted [OF assms(1) this _ assms(3)] assms(4) [OF Some] Some show ?thesis
    by (auto simp: on_object_def eq_commute [of _ p])
qed

end

subsection \<open>Every operation\<close>

lemma reclaims_none:
  assumes "set (deleted h') = set (deleted h)" and "dom (ref_count h) \<subseteq> dom (ref_count h')"
    and "\<And>p. refs p h \<noteq> {} \<Longrightarrow> refs p h' \<noteq> {}"
  shows "reclaims h h'"
  using assms by (fastforce simp: reclaims_def)

lemma reclaims_dom:
  assumes "set (deleted h') = set (deleted h) \<union> R" and "dom (ref_count h') = dom (ref_count h) - R"
    and "R = {p. refs p h \<noteq> {} \<and> refs p h' = {}}"
  shows "reclaims h h'"
proof -
  have "(ref_count h' p = None) = (p \<in> R)" if "ref_count h p \<noteq> None" for p
    using assms(2) that by (metis DiffE DiffI domIff)
  with assms show ?thesis by (simp add: reclaims_def)
qed

lemma card_dom_store:
  assumes "finite (dom (ptr h))"
  shows "card (dom (ptr (store_ptr v x h))) \<le> card (dom (ptr h)) + 1"
proof -
  have "card (dom (ptr (store_ptr v x h))) \<le> card (insert v (dom (ptr h)))"
    by (rule card_mono) (use assms in \<open>auto split: if_splits\<close>)
  also have "\<dots> \<le> card (dom (ptr h)) + 1"
    using card_insert_le_m1 [of "card (dom (ptr h)) + 1" "dom (ptr h)" v] by simp
  finally show ?thesis .
qed

lemma counted_finite: "counted val d h \<Longrightarrow> finite (dom (ptr h))"
  by (simp add: counted_def)

lemma counted_raw_ok: "counted val d h \<Longrightarrow> ptr h v = Some q \<Longrightarrow> raw_ok q h"
  by (auto simp: counted_def raw_ok_def split: option.split)

lemma store_raw_counted:
  assumes "counted val d h" and "raw_ok q h"
  shows "counted val (\<lambda>p. d p + of_bool (ptr h v = Some (Some p)) - of_bool (q = Some p))
    (store_ptr v (Some q) h)"
  using store_counted [OF assms(1), of "Some q" v] assms(2) by (cases q) (simp_all add: raw_ok_def)

lemma raw_ok_store [simp]: "raw_ok q (store_ptr v x h) = raw_ok q h"
  by (cases q) (simp_all add: raw_ok_def)

lemma refs_new: "ptr h v = None \<Longrightarrow> refs p h \<subseteq> refs p (store_ptr v x h)"
  by (auto simp: refs_def)

lemma refs_in_scope: "ptr h v = Some (Some p) \<Longrightarrow> refs p h \<noteq> {}"
  by (auto simp: refs_def)

context ref_counter
begin

lemma new_object_ok:
  assumes "rc_ok val h" and "ref_count h p = None" and "p \<notin> set (deleted h)"
  shows "\<exists>h'. new_object init p h = Some h' \<and> rc_ok val h' \<and> reclaims h h'"
proof -
  let ?h = "h\<lparr>ref_count := (ref_count h)(p \<mapsto> init)\<rparr>"
  have r: "refs q ?h = refs q h" for q by (simp add: refs_def)
  have "\<And>v. ptr h v \<noteq> Some (Some p)" using assms(1,2) by (fastforce simp: counted_def)
  then have "refs p h = {}" by (simp add: refs_def)
  then have "rc_ok val ?h" using assms r by (auto simp: counted_def val_init)
  moreover have "reclaims h ?h" by (rule reclaims_none) (auto simp: r)
  ultimately show ?thesis using assms by (simp add: new_object_def)
qed

lemma ptr_null_ok:
  assumes "rc_ok val h" and "ptr h v = None"
  shows "\<exists>h'. ptr_null v h = Some h' \<and> rc_ok val h' \<and> reclaims h h'"
proof -
  have "rc_ok val (store_ptr v (Some None) h)"
    using store_counted [OF assms(1), of "Some None" v] assms(2) by simp
  moreover have "reclaims h (store_ptr v (Some None) h)"
    by (rule reclaims_none) (use refs_new [OF assms(2)] in auto)
  ultimately show ?thesis using assms(2) by (simp add: ptr_null_def)
qed

lemma ptr_raw_ok:
  assumes "rc_ok val h" and "ptr h v = None" and "raw_ok q h" and "card (dom (ptr h)) + 2 < 2 ^ 31"
  shows "\<exists>h'. ptr_raw add v q h = Some h' \<and> rc_ok val h' \<and> reclaims h h' \<and>
    ptr h' = (ptr h)(v := Some q)"
proof -
  let ?h = "store_ptr v (Some q) h"
  have fin: "finite (dom (ptr h))" by (rule counted_finite [OF assms(1)])
  have c: "counted val (\<lambda>p. - of_bool (q = Some p)) ?h"
    using store_raw_counted [OF assms(1,3), of v] assms(2) by simp
  have b: "card (dom (ptr ?h)) + 1 < 2 ^ 31"
    using card_dom_store [OF fin, of v "Some q"] assms(4) by linarith
  have r: "raw_ok q ?h" using assms(3) by simp
  have "0 < card (refs p ?h)" if "q = Some p" for p
    using that refs_finite [of ?h p] counted_finite [OF c] refs_in_scope [of ?h v p]
    by (simp add: card_gt_0_iff)
  then obtain h' where h': "on_object (AddRef add) q ?h = Some h'" "ptr h' = ptr ?h"
      "deleted h' = deleted ?h" "dom (ref_count h') = dom (ref_count ?h)" "rc_ok val h'"
    using on_AddRef [OF c r b] by fastforce
  have p: "ptr h' = (ptr h)(v := Some q)" using h'(2) by (simp add: store_ptr_def)
  have "reclaims h h'"
  proof (rule reclaims_none)
    show "refs p h' \<noteq> {}" if "refs p h \<noteq> {}" for p
      using refs_new [OF assms(2), of p "Some q"] refs_ptr [OF h'(2), of p] that by auto
  qed (use h' in simp_all)
  with h' p assms(2) show ?thesis by (simp add: ptr_raw_def)
qed

lemma ptr_copy_raw: "ptr h r = Some q \<Longrightarrow> ptr_copy add v r h = ptr_raw add v q h"
  by (simp add: ptr_copy_def ptr_raw_def)

lemma ptr_move_ok:
  assumes "rc_ok val h" and "ptr h v = None" and "ptr h r = Some q"
  shows "\<exists>h'. ptr_move v r h = Some h' \<and> rc_ok val h' \<and> reclaims h h' \<and>
    ptr h' = (ptr h)(v := Some q, r := Some None) \<and>
    deleted h' = deleted h \<and> ref_count h' = ref_count h"
proof -
  let ?h = "store_ptr v (Some q) h"
  let ?h' = "store_ptr r (Some None) ?h"
  have "counted val (\<lambda>p. - of_bool (q = Some p)) ?h"
    using store_raw_counted [OF assms(1) counted_raw_ok [OF assms(1,3)], of v] assms(2) by simp
  from store_raw_counted [OF this, of None r] have "rc_ok val ?h'"
    using assms(2,3) by (cases "r = v") (simp_all add: raw_ok_def)
  moreover have p: "ptr ?h' = (ptr h)(v := Some q, r := Some None)" by (simp add: store_ptr_def)
  moreover have "reclaims h ?h'"
  proof (rule reclaims_none)
    fix p assume "refs p h \<noteq> {}"
    then obtain w where "ptr h w = Some (Some p)" by (auto simp: refs_def)
    then have "ptr ?h' (if w = r then v else w) = Some (Some p)" using assms(2,3) by auto
    then show "refs p ?h' \<noteq> {}" by (rule refs_in_scope)
  qed simp_all
  ultimately show ?thesis using assms by (simp add: ptr_move_def)
qed

lemma ptr_swap_ok:
  assumes "rc_ok val h" and "ptr h v = Some p" and "ptr h r = Some q"
  shows "\<exists>h'. ptr_swap v r h = Some h' \<and> rc_ok val h' \<and> reclaims h h' \<and>
    ptr h' = (ptr h)(v := Some q, r := Some p) \<and>
    deleted h' = deleted h \<and> ref_count h' = ref_count h"
proof -
  let ?h = "store_ptr v (Some q) h"
  let ?h' = "store_ptr r (Some p) ?h"
  have "counted val (\<lambda>o'. of_bool (p = Some o') - of_bool (q = Some o')) ?h"
    using store_raw_counted [OF assms(1) counted_raw_ok [OF assms(1,3)], of v] assms(2) by simp
  from store_raw_counted [OF this, of p r] have "rc_ok val ?h'"
    using assms(2,3) counted_raw_ok [OF assms(1,2)] by (cases "r = v") simp_all
  moreover have "ptr ?h' = (ptr h)(v := Some q, r := Some p)" by (simp add: store_ptr_def)
  moreover have "reclaims h ?h'"
  proof (rule reclaims_none)
    fix o' assume "refs o' h \<noteq> {}"
    then obtain w where "ptr h w = Some (Some o')" by (auto simp: refs_def)
    then have "ptr ?h' (if w = v then r else if w = r then v else w) = Some (Some o')"
      using assms(2,3) by auto
    then show "refs o' ?h' \<noteq> {}" by (rule refs_in_scope)
  qed simp_all
  ultimately show ?thesis using assms by (simp add: ptr_swap_def)
qed

lemma ptr_destroy_ok:
  assumes "rc_ok val h" and "ptr h v = Some q" and "card (dom (ptr h)) + 2 < 2 ^ 31"
  shows "\<exists>h'. ptr_destroy rel v h = Some h' \<and> rc_ok val h' \<and> reclaims h h' \<and>
    ptr h' = (ptr h)(v := None)"
proof -
  let ?h = "store_ptr v None h"
  have fin: "finite (dom (ptr h))" by (rule counted_finite [OF assms(1)])
  have c: "counted val (\<lambda>p. of_bool (q = Some p)) ?h"
    using store_counted [OF assms(1), of None v] assms(2) by simp
  have b: "card (dom (ptr ?h)) + 1 < 2 ^ 31"
    using card_dom_store [OF fin, of v None] assms(3) by linarith
  have r: "raw_ok q ?h" using counted_raw_ok [OF assms(1,2)] by simp
  obtain h' where h': "on_object (Release rel) q ?h = Some h'" "ptr h' = ptr ?h"
      "set (deleted h') = set (deleted h) \<union> {p. q = Some p \<and> refs p ?h = {}}"
      "dom (ref_count h') = dom (ref_count h) - {p. q = Some p \<and> refs p ?h = {}}" "rc_ok val h'"
    using on_Release [OF c r b] by auto
  have "{p. q = Some p \<and> refs p ?h = {}} = {p. refs p h \<noteq> {} \<and> refs p h' = {}}"
    using assms(2) h'(2) by (auto simp: refs_ptr [OF h'(2)] refs_store) (auto simp: refs_def)
  with h' have "reclaims h h'" by (intro reclaims_dom)
  moreover have "ptr_destroy rel v h = Some h'"
    using h'(1) assms(2) by (auto simp: ptr_destroy_def Release_store)
  moreover have "ptr h' = (ptr h)(v := None)" using h'(2) by (simp add: store_ptr_def)
  ultimately show ?thesis using h'(5) by auto
qed

end

lemma raw_ok_dom: "dom (ref_count h') = dom (ref_count h) \<Longrightarrow> raw_ok q h' = raw_ok q h"
  by (cases q) (auto simp: raw_ok_def)

context ref_counter
begin

lemma assign_raw_ok:
  assumes "rc_ok val h" and "ptr h v = Some old" and "raw_ok q h" and "card (dom (ptr h)) + 2 < 2 ^ 31"
  shows "\<exists>h'. assign_raw add rel v q h = Some h' \<and> rc_ok val h' \<and> reclaims h h' \<and>
    ptr h' = (ptr h)(v := Some q)"
proof -
  obtain h1 where h1: "on_object (AddRef add) q h = Some h1" "ptr h1 = ptr h"
      "deleted h1 = deleted h" "dom (ref_count h1) = dom (ref_count h)"
      "counted val (\<lambda>p. of_bool (q = Some p)) h1"
    using on_AddRef [OF assms(1,3)] assms(4) by fastforce
  let ?h = "store_ptr v (Some q) h1"
  have c: "counted val (\<lambda>p. of_bool (old = Some p)) ?h"
    using store_raw_counted [OF h1(5), of q v] assms(2,3) h1(2) raw_ok_dom [OF h1(4)] by simp
  have "card (dom (ptr ?h)) \<le> card (dom (ptr h)) + 1"
    using card_dom_store [OF counted_finite [OF h1(5)], of v "Some q"] h1(2) by simp
  then have b: "card (dom (ptr ?h)) + 1 < 2 ^ 31" using assms(4) by linarith
  have r: "raw_ok old ?h"
    using counted_raw_ok [OF assms(1,2)] raw_ok_dom [OF h1(4)] by simp
  obtain h' where h': "on_object (Release rel) old ?h = Some h'" "ptr h' = ptr ?h"
      "set (deleted h') = set (deleted h) \<union> {p. old = Some p \<and> refs p ?h = {}}"
      "dom (ref_count h') = dom (ref_count h) - {p. old = Some p \<and> refs p ?h = {}}" "rc_ok val h'"
    using on_Release [OF c r b] h1(3,4) by auto
  have p: "ptr h' = (ptr h)(v := Some q)" using h'(2) h1(2) by (simp add: store_ptr_def)
  have "{p. old = Some p \<and> refs p ?h = {}} = {p. refs p h \<noteq> {} \<and> refs p h' = {}}"
    using assms(2) by (auto simp: refs_ptr [OF h'(2)] refs_store refs_ptr [OF h1(2)])
      (auto simp: refs_def)
  with h' have "reclaims h h'" by (intro reclaims_dom)
  moreover have "assign_raw add rel v q h = Some h'"
    using h1(1,2) h'(1) assms(2) by (simp add: assign_raw_def)
  ultimately show ?thesis using h'(5) p by auto
qed

lemma assign_move_ok:
  assumes "rc_ok val h" and "ptr h t = None" and "ptr h v = Some old" and "ptr h r = Some q"
    and "card (dom (ptr h)) + 3 < 2 ^ 31"
  shows "\<exists>h'. assign_move rel t v r h = Some h' \<and> rc_ok val h' \<and> reclaims h h' \<and>
    ptr h' = (ptr h)(r := Some None, v := Some q)"
proof -
  from ptr_move_ok [OF assms(1,2,4)] obtain h1 where h1: "ptr_move t r h = Some h1" "rc_ok val h1"
    "ptr h1 = (ptr h)(t := Some q, r := Some None)" "deleted h1 = deleted h" "ref_count h1 = ref_count h"
    by auto
  let ?old = "if r = v then None else old"
  have t: "ptr h1 t = Some q" and v: "ptr h1 v = Some ?old" using h1(3) assms(2-4) by auto
  from ptr_swap_ok [OF h1(2) t v] obtain h2 where h2: "ptr_swap t v h1 = Some h2" "rc_ok val h2"
    "ptr h2 = (ptr h1)(t := Some ?old, v := Some q)" "deleted h2 = deleted h1" "ref_count h2 = ref_count h1"
    by auto
  have t2: "ptr h2 t = Some ?old" using h2(3) assms(2,3) by auto
  have "dom (ptr h2) = insert t (dom (ptr h))" using h1(3) h2(3) assms(3,4) by auto
  then have b: "card (dom (ptr h2)) + 2 < 2 ^ 31"
    using counted_finite [OF assms(1)] assms(2,5) by (simp add: domIff)
  from ptr_destroy_ok [OF h2(2) t2 b] obtain h' where h': "ptr_destroy rel t h2 = Some h'"
    "rc_ok val h'" "reclaims h2 h'" "ptr h' = (ptr h2)(t := None)" by auto
  have p: "ptr h' = (ptr h)(r := Some None, v := Some q)"
    using h'(4) h2(3) h1(3) assms(2-4) by (auto simp: fun_eq_iff)
  have "(refs p h2 = {}) = (refs p h = {})" for p
  proof
    show "refs p h = {}" if e: "refs p h2 = {}"
    proof (rule ccontr)
      assume "refs p h \<noteq> {}"
      then obtain w where w: "ptr h w = Some (Some p)" by (auto simp: refs_def)
      then have "ptr h2 (if w = r then v else if w = v then t else w) = Some (Some p)"
        using h1(3) h2(3) assms(2-4) by auto
      with e show False using refs_in_scope by blast
    qed
    show "refs p h2 = {}" if e: "refs p h = {}"
    proof -
      have "\<And>w. ptr h w \<noteq> Some (Some p)" using e by (auto simp: refs_def)
      then show ?thesis using h1(3) h2(3) assms(3,4) by (auto simp: refs_def split: if_splits)
    qed
  qed
  with h'(3) h1 h2 have "reclaims h h'" by (simp add: reclaims_def)
  with h1(1) h2(1) h'(1,2) p show ?thesis by (simp add: assign_move_def)
qed

lemma rc_exec_ok:
  assumes "rc_ok val h" and "rc_allowed op h" and "card (dom (ptr h)) + 3 < 2 ^ 31"
  shows "\<exists>h'. rc_exec init add rel op h = Some h' \<and> rc_ok val h' \<and> reclaims h h'"
proof -
  have b: "card (dom (ptr h)) + 2 < 2 ^ 31" using assms(3) by simp
  show ?thesis
  proof (cases op)
    case (New p)
    then show ?thesis using new_object_ok [OF assms(1)] assms(2) by simp
  next
    case (Null v)
    then show ?thesis using ptr_null_ok [OF assms(1)] assms(2) by simp
  next
    case (Raw v q)
    then show ?thesis using ptr_raw_ok [OF assms(1) _ _ b] assms(2) by auto
  next
    case (Copy v r)
    then obtain q where q: "ptr h r = Some q" "ptr h v = None" using assms(2) by auto
    then show ?thesis
      using ptr_raw_ok [OF assms(1) _ counted_raw_ok [OF assms(1) q(1)] b] Copy
      by (auto simp: ptr_copy_raw)
  next
    case (Move v r)
    then obtain q where "ptr h r = Some q" "ptr h v = None" using assms(2) by auto
    from ptr_move_ok [OF assms(1) this(2,1)] Move show ?thesis by auto
  next
    case (Destroy v)
    then obtain q where "ptr h v = Some q" using assms(2) by auto
    from ptr_destroy_ok [OF assms(1) this b] Destroy show ?thesis by auto
  next
    case (Assign_raw v q)
    then obtain old where "ptr h v = Some old" "raw_ok q h" using assms(2) by auto
    from assign_raw_ok [OF assms(1) this b] Assign_raw show ?thesis by auto
  next
    case (Assign_copy v r)
    then obtain q old where q: "ptr h r = Some q" "ptr h v = Some old" using assms(2) by auto
    then show ?thesis
      using assign_raw_ok [OF assms(1) q(2) counted_raw_ok [OF assms(1) q(1)] b] Assign_copy
      by (auto simp: assign_copy_def)
  next
    case (Assign_move t v r)
    then obtain q old where "ptr h r = Some q" "ptr h v = Some old" "ptr h t = None"
      using assms(2) by auto
    from assign_move_ok [OF assms(1) this(3,2,1) assms(3)] Assign_move show ?thesis by auto
  next
    case (Swap v r)
    then obtain q p where "ptr h r = Some q" "ptr h v = Some p" using assms(2) by auto
    from ptr_swap_ok [OF assms(1) this(2,1)] Swap show ?thesis by auto
  qed
qed

text \<open>\<^verbatim>\<open>HasOneRef\<close> answers whether exactly one smart pointer holds the object.\<close>

lemma one_reference:
  assumes "rc_ok val h" and "ref_count h p = Some c"
  shows "one c \<longleftrightarrow> (\<exists>!v. ptr h v = Some (Some p))"
proof -
  have "one c \<longleftrightarrow> card (refs p h) = 1"
    using assms by (simp add: counted_def val_one)
  also have "\<dots> \<longleftrightarrow> (\<exists>!v. ptr h v = Some (Some p))"
    by (auto simp: card_1_singleton_iff refs_def set_eq_iff)
  finally show ?thesis .
qed

end

subsection \<open>The two counters\<close>

interpretation plain: ref_counter RefCountedBase_init RefCountedBase_AddRef RefCountedBase_Release
  RefCountedBase_HasOneRef "\<lambda>c. c"
  by unfold_locales (auto simp: RefCountedBase_init_def RefCountedBase_AddRef_def
      RefCountedBase_Release_def RefCountedBase_HasOneRef_def)

lemma uint_plus_1: "uint (c :: 32 word) < 2 ^ 31 - 1 \<Longrightarrow> uint (c + 1) = uint c + 1"
  by (simp add: uint_word_ariths take_bit_eq_mod)

lemma uint_minus_1: "0 < uint (c :: 32 word) \<Longrightarrow> uint (c - 1) = uint c - 1"
  using uint_bounded [of c] by (simp add: uint_word_ariths take_bit_eq_mod)

lemma uint_eq_1: "uint (c :: 32 word) = 1 \<longleftrightarrow> c = 1"
  by (metis uint_1 word_uint_eq_iff)

interpretation atomic: ref_counter RefCountedThreadSafeBase_init RefCountedThreadSafeBase_AddRef
  RefCountedThreadSafeBase_Release RefCountedThreadSafeBase_HasOneRef uint
proof
  show "uint RefCountedThreadSafeBase_init = 0" by (simp add: RefCountedThreadSafeBase_init_def)
  show "RefCountedThreadSafeBase_HasOneRef c = (uint c = 1)" for c
    by (simp add: RefCountedThreadSafeBase_HasOneRef_def AtomicRefCountIsOne_def Acquire_Load_def
        uint_eq_1)
  show "\<exists>c'. RefCountedThreadSafeBase_AddRef c = Some c' \<and> uint c' = uint c + 1"
    if "uint c < 2 ^ 31 - 1" for c
    using uint_plus_1 [OF that]
    by (simp add: RefCountedThreadSafeBase_AddRef_def AtomicRefCountInc_eq)
  show "\<exists>c'. RefCountedThreadSafeBase_Release c = Some (uint c = 1, c') \<and> uint c' = uint c - 1"
    if "0 < uint c" for c
    using uint_minus_1 [OF that]
    by (simp add: RefCountedThreadSafeBase_Release_def AtomicRefCountDec_eq uint_eq_1)
qed

subsection \<open>Programs\<close>

definition rc_empty :: "'c rc_heap" where
  "rc_empty = \<lparr>ref_count = (\<lambda>p. None), ptr = (\<lambda>v. None), deleted = []\<rparr>"

fun rc_run ::
    "'c \<Rightarrow> ('c \<Rightarrow> 'c option) \<Rightarrow> ('c \<Rightarrow> (bool \<times> 'c) option) \<Rightarrow> rc_op list \<Rightarrow> 'c rc_heap \<Rightarrow>
      'c rc_heap option" where
  "rc_run init add rel [] h = Some h"
| "rc_run init add rel (op # ops) h = do { h' \<leftarrow> rc_exec init add rel op h; rc_run init add rel ops h' }"

fun rc_legal ::
    "'c \<Rightarrow> ('c \<Rightarrow> 'c option) \<Rightarrow> ('c \<Rightarrow> (bool \<times> 'c) option) \<Rightarrow> rc_op list \<Rightarrow> 'c rc_heap \<Rightarrow> bool" where
  "rc_legal init add rel [] h = True"
| "rc_legal init add rel (op # ops) h =
     (rc_allowed op h \<and>
      (case rc_exec init add rel op h of None \<Rightarrow> True | Some h' \<Rightarrow> rc_legal init add rel ops h'))"

text \<open>The objects that some smart pointer has held in the course of a run.\<close>

fun rc_held ::
    "'c \<Rightarrow> ('c \<Rightarrow> 'c option) \<Rightarrow> ('c \<Rightarrow> (bool \<times> 'c) option) \<Rightarrow> rc_op list \<Rightarrow> 'c rc_heap \<Rightarrow> nat set" where
  "rc_held init add rel [] h = {p. refs p h \<noteq> {}}"
| "rc_held init add rel (op # ops) h =
     {p. refs p h \<noteq> {}} \<union>
     (case rc_exec init add rel op h of None \<Rightarrow> {} | Some h' \<Rightarrow> rc_held init add rel ops h')"

lemma on_AddRef_ptr: "on_object (AddRef add) q h = Some h' \<Longrightarrow> ptr h' = ptr h"
  by (cases q) (auto simp: on_object_def AddRef_def bind_eq_Some_conv)

lemma on_Release_ptr: "on_object (Release rel) q h = Some h' \<Longrightarrow> ptr h' = ptr h"
  by (cases q) (auto simp: on_object_def Release_def bind_eq_Some_conv split: if_splits)

text \<open>An operation brings at most one variable into scope.\<close>

lemma rc_exec_dom:
  assumes "rc_exec init add rel op h = Some h'"
  shows "\<exists>v. dom (ptr h') \<subseteq> insert v (dom (ptr h))"
proof (cases op)
  case (New p)
  with assms show ?thesis by (auto simp: new_object_def split: if_splits)
next
  case (Null v)
  with assms show ?thesis by (auto simp: ptr_null_def split: if_splits)
next
  case (Raw v q)
  with assms show ?thesis
    by (intro exI [of _ v]) (auto simp: ptr_raw_def dest!: on_AddRef_ptr split: if_splits)
next
  case (Copy v r)
  with assms show ?thesis
    by (intro exI [of _ v])
      (auto simp: ptr_copy_def bind_eq_Some_conv dest!: on_AddRef_ptr split: if_splits)
next
  case (Move v r)
  with assms show ?thesis
    by (intro exI [of _ v]) (auto simp: ptr_move_def bind_eq_Some_conv split: if_splits)
next
  case (Destroy v)
  with assms show ?thesis
    by (intro exI [of _ v])
      (auto simp: ptr_destroy_def bind_eq_Some_conv dest!: on_Release_ptr split: if_splits)
next
  case (Assign_raw v q)
  with assms show ?thesis
    by (intro exI [of _ v])
      (auto simp: assign_raw_def bind_eq_Some_conv dest!: on_AddRef_ptr on_Release_ptr split: if_splits)
next
  case (Assign_copy v r)
  with assms show ?thesis
    by (intro exI [of _ v])
      (auto simp: assign_copy_def assign_raw_def bind_eq_Some_conv dest!: on_AddRef_ptr on_Release_ptr
        split: if_splits)
next
  case (Assign_move t v r)
  with assms show ?thesis
    by (intro exI [of _ t])
      (auto simp: assign_move_def ptr_move_def ptr_swap_def ptr_destroy_def bind_eq_Some_conv
        dest!: on_Release_ptr split: if_splits)
next
  case (Swap v r)
  with assms show ?thesis
    by (intro exI [of _ v]) (auto simp: ptr_swap_def bind_eq_Some_conv split: if_splits)
qed

lemma rc_exec_card:
  assumes "rc_exec init add rel op h = Some h'" and "finite (dom (ptr h))"
  shows "card (dom (ptr h')) \<le> card (dom (ptr h)) + 1"
proof -
  obtain v where "dom (ptr h') \<subseteq> insert v (dom (ptr h))" using rc_exec_dom [OF assms(1)] by auto
  then have "card (dom (ptr h')) \<le> card (insert v (dom (ptr h)))" using assms(2) by (intro card_mono) auto
  also have "\<dots> \<le> card (dom (ptr h)) + 1" using assms(2) by (simp add: card_insert_if)
  finally show ?thesis .
qed

lemma rc_ok_empty: "rc_ok val rc_empty"
  by (simp add: counted_def rc_empty_def refs_def)

lemma counted_deleted: "counted val d h \<Longrightarrow> p \<in> set (deleted h) \<Longrightarrow> refs p h = {}"
  unfolding counted_def refs_def by blast

context ref_counter
begin

text \<open>A legal program runs through; what it deletes is what was held and no longer is.\<close>

lemma rc_run_ok:
  assumes "rc_ok val h" and "rc_legal init add rel ops h"
    and "card (dom (ptr h)) + length ops + 3 < 2 ^ 31"
  shows "\<exists>h'. rc_run init add rel ops h = Some h' \<and> rc_ok val h' \<and>
    set (deleted h') = set (deleted h) \<union> {p. p \<in> rc_held init add rel ops h \<and> refs p h' = {}}"
  using assms
proof (induction ops arbitrary: h)
  case Nil
  then show ?case by simp
next
  case (Cons op ops)
  have "rc_allowed op h" "card (dom (ptr h)) + 3 < 2 ^ 31" using Cons.prems by auto
  from rc_exec_ok [OF Cons.prems(1) this] obtain h1 where h1: "rc_exec init add rel op h = Some h1"
    "rc_ok val h1" "reclaims h h1" by auto
  have "card (dom (ptr h1)) + length ops + 3 < 2 ^ 31"
    using rc_exec_card [OF h1(1) counted_finite [OF Cons.prems(1)]] Cons.prems(3) by simp
  with Cons.IH [OF h1(2)] Cons.prems(2) h1(1) obtain h' where h': "rc_run init add rel ops h1 = Some h'"
    "rc_ok val h'"
    "set (deleted h') = set (deleted h1) \<union> {p. p \<in> rc_held init add rel ops h1 \<and> refs p h' = {}}"
    by auto
  have s: "\<forall>p. refs p h1 \<noteq> {} \<longrightarrow> p \<in> rc_held init add rel ops h1"
    by (cases ops) auto
  have d: "\<forall>p. p \<in> set (deleted h1) \<longrightarrow> refs p h' = {}"
    using h'(2,3) counted_deleted by blast
  have "set (deleted h') = set (deleted h) \<union> {p. p \<in> rc_held init add rel (op # ops) h \<and> refs p h' = {}}"
  proof -
    have r: "set (deleted h1) = set (deleted h) \<union> {p. refs p h \<noteq> {} \<and> refs p h1 = {}}"
      using h1(3) by (simp add: reclaims_def)
    have e: "rc_held init add rel (op # ops) h = {p. refs p h \<noteq> {}} \<union> rc_held init add rel ops h1"
      using h1(1) by simp
    from s d show ?thesis unfolding e h'(3) r by blast
  qed
  with h1(1) h'(1,2) show ?case by auto
qed

end

text \<open>C13: Programs over scoped_ref_ptr with the plain counter: construction from a raw pointer, copying, moving,
  assignment, exchange and destruction in any order never touch a deleted object, keep every count at the number
  of smart pointers to the object, and delete each object once, exactly when its last smart pointer has gone; an
  object that was never held is not deleted.\<close>

theorem smart_pointers:
  assumes "rc_legal RefCountedBase_init RefCountedBase_AddRef RefCountedBase_Release ops rc_empty"
    and "length ops + 3 < 2 ^ 31"
  shows "\<exists>h. rc_run RefCountedBase_init RefCountedBase_AddRef RefCountedBase_Release ops rc_empty = Some h \<and>
    (\<forall>p c. ref_count h p = Some c \<longrightarrow> c = int (card {v. ptr h v = Some (Some p)})) \<and>
    (\<forall>v p. ptr h v = Some (Some p) \<longrightarrow> ref_count h p \<noteq> None) \<and> distinct (deleted h) \<and>
    set (deleted h) =
      {p \<in> rc_held RefCountedBase_init RefCountedBase_AddRef RefCountedBase_Release ops rc_empty.
         \<forall>v. ptr h v \<noteq> Some (Some p)}"
proof -
  have "card (dom (ptr (rc_empty :: int rc_heap))) + length ops + 3 < 2 ^ 31"
    using assms(2) by (simp add: rc_empty_def)
  with plain.rc_run_ok [OF rc_ok_empty assms(1)] show ?thesis
    by (auto simp: counted_def refs_def rc_empty_def)
qed

text \<open>Two objects, a copy, an assignment that drops the first object, a move and the end of all scopes.\<close>

definition rc_example :: "rc_op list" where
  "rc_example = [New 7, Raw 1 (Some 7), Copy 2 1, New 8, Assign_raw 1 (Some 8), Destroy 2,
     Null 3, Assign_move 4 3 1, Destroy 1, Swap 3 3, Destroy 3]"

lemmas rc_code = rc_empty_def new_object_def ptr_null_def ptr_raw_def ptr_copy_def ptr_move_def
  ptr_destroy_def assign_raw_def assign_copy_def assign_move_def ptr_swap_def on_object_def
  AddRef_def Release_def store_ptr_def RefCountedBase_AddRef_def RefCountedBase_Release_def
  RefCountedBase_init_def raw_ok_def

lemma rc_example_legal:
  "rc_legal RefCountedBase_init RefCountedBase_AddRef RefCountedBase_Release rc_example rc_empty"
  by (simp add: rc_example_def rc_code)

theorem smart_pointers_witness:
  "\<exists>h. rc_run RefCountedBase_init RefCountedBase_AddRef RefCountedBase_Release rc_example rc_empty = Some h \<and>
    distinct (deleted h) \<and> deleted h = [7, 8]"
proof -
  have "rc_run RefCountedBase_init RefCountedBase_AddRef RefCountedBase_Release rc_example rc_empty =
      Some \<lparr>ref_count = (\<lambda>p. None), ptr = (\<lambda>v. None), deleted = [7, 8]\<rparr>"
    by (simp add: rc_example_def rc_code fun_eq_iff)
  with smart_pointers [OF rc_example_legal] show ?thesis by (auto simp: rc_example_def)
qed

subsection \<open>References of several threads\<close>

text \<open>The thread-safe class exists for objects that several threads hold.  A world keeps the cell of
  every object, how many references to it each thread holds, and the object a thread is about to
  delete because its \<^verbatim>\<open>Release\<close> brought the cell to 0.  The decrement and the deletion are two steps, and
  other threads may step in between.  Copying a smart pointer is \<open>T_add\<close>, destroying one is
  \<open>T_release\<close> followed, if it was the last, by \<open>T_delete\<close>; moving one to another thread is
  \<open>T_give\<close>.\<close>

record rc_threads =
  cell :: "nat \<Rightarrow> Atomic32 option"
  holds :: "nat \<Rightarrow> nat \<Rightarrow> nat"
  dying :: "nat \<Rightarrow> nat option"
  gone :: "nat list"

datatype thread_op =
    T_new nat nat
  | T_add nat nat
  | T_release nat nat
  | T_delete nat
  | T_give nat nat nat

definition set_holds :: "nat \<Rightarrow> nat \<Rightarrow> nat \<Rightarrow> rc_threads \<Rightarrow> rc_threads" where
  "set_holds t p k w = w\<lparr>holds := (holds w)(t := (holds w t)(p := k))\<rparr>"

fun thread_exec :: "thread_op \<Rightarrow> rc_threads \<Rightarrow> rc_threads option" where
  "thread_exec (T_new t p) w =
     do { c \<leftarrow> RefCountedThreadSafeBase_AddRef RefCountedThreadSafeBase_init;
          Some (set_holds t p 1 (w\<lparr>cell := (cell w)(p \<mapsto> c)\<rparr>)) }"
| "thread_exec (T_add t p) w =
     do { c \<leftarrow> cell w p; c' \<leftarrow> RefCountedThreadSafeBase_AddRef c;
          Some (set_holds t p (holds w t p + 1) (w\<lparr>cell := (cell w)(p \<mapsto> c')\<rparr>)) }"
| "thread_exec (T_release t p) w =
     do { c \<leftarrow> cell w p; r \<leftarrow> RefCountedThreadSafeBase_Release c;
          Some (set_holds t p (holds w t p - 1)
            (w\<lparr>cell := (cell w)(p \<mapsto> snd r),
               dying := (if fst r then (dying w)(t \<mapsto> p) else dying w)\<rparr>)) }"
| "thread_exec (T_delete t) w =
     do { p \<leftarrow> dying w t; c \<leftarrow> cell w p;
          Some (w\<lparr>cell := (cell w)(p := None), dying := (dying w)(t := None), gone := gone w @ [p]\<rparr>) }"
| "thread_exec (T_give t u p) w =
     (let w' = set_holds t p (holds w t p - 1) w in Some (set_holds u p (holds w' u p + 1) w'))"

definition total :: "nat \<Rightarrow> nat \<Rightarrow> rc_threads \<Rightarrow> nat" where
  "total n p w = (\<Sum>t<n. holds w t p)"

text \<open>A thread works with what it holds, one operation at a time, and fewer than \<open>2 ^ 31 - 1\<close>
  references to an object exist.\<close>

fun thread_allowed :: "nat \<Rightarrow> thread_op \<Rightarrow> rc_threads \<Rightarrow> bool" where
  "thread_allowed n (T_new t p) w = (t < n \<and> dying w t = None \<and> cell w p = None \<and> p \<notin> set (gone w))"
| "thread_allowed n (T_add t p) w =
     (t < n \<and> dying w t = None \<and> 0 < holds w t p \<and> total n p w < 2 ^ 31 - 1)"
| "thread_allowed n (T_release t p) w = (t < n \<and> dying w t = None \<and> 0 < holds w t p)"
| "thread_allowed n (T_delete t) w = (t < n \<and> dying w t \<noteq> None)"
| "thread_allowed n (T_give t u p) w = (t < n \<and> u < n \<and> dying w t = None \<and> 0 < holds w t p)"

definition threads_start :: rc_threads where
  "threads_start = \<lparr>cell = (\<lambda>p. None), holds = (\<lambda>t p. 0), dying = (\<lambda>t. None), gone = []\<rparr>"

inductive threads_reachable :: "nat \<Rightarrow> rc_threads \<Rightarrow> bool" for n where
  threads_init: "threads_reachable n threads_start"
| threads_next: "threads_reachable n w \<Longrightarrow> thread_allowed n op w \<Longrightarrow> thread_exec op w = Some w' \<Longrightarrow>
    threads_reachable n w'"

text \<open>The cell of an object counts its references; at 0 exactly one thread is about to delete it.\<close>

definition object_ok :: "nat \<Rightarrow> rc_threads \<Rightarrow> nat \<Rightarrow> bool" where
  "object_ok n w p \<longleftrightarrow>
     (case cell w p of
        None \<Rightarrow> total n p w = 0 \<and> (\<forall>t. dying w t \<noteq> Some p)
      | Some c \<Rightarrow> uint c = int (total n p w) \<and> total n p w < 2 ^ 31 \<and> p \<notin> set (gone w) \<and>
          (if total n p w = 0 then \<exists>!t. dying w t = Some p else \<forall>t. dying w t \<noteq> Some p))"

definition threads_ok :: "nat \<Rightarrow> rc_threads \<Rightarrow> bool" where
  "threads_ok n w \<longleftrightarrow> (\<forall>p. object_ok n w p) \<and> distinct (gone w) \<and> (\<forall>t. dying w t \<noteq> None \<longrightarrow> t < n)"

lemma object_ok_cong:
  assumes "cell w' q = cell w q" and "total n q w' = total n q w"
    and "\<And>t. (dying w' t = Some q) = (dying w t = Some q)" and "(q \<in> set (gone w')) = (q \<in> set (gone w))"
  shows "object_ok n w' q = object_ok n w q"
  by (simp only: object_ok_def assms)

lemma threads_ok_object: "threads_ok n w \<Longrightarrow> object_ok n w p"
  by (simp add: threads_ok_def)

lemma threads_ok_change:
  assumes "threads_ok n w" and "object_ok n w' p" and "distinct (gone w')"
    and "\<And>t. dying w' t \<noteq> None \<Longrightarrow> t < n"
    and "\<And>q. q \<noteq> p \<Longrightarrow> cell w' q = cell w q \<and> total n q w' = total n q w \<and>
      (\<forall>t. (dying w' t = Some q) = (dying w t = Some q)) \<and> (q \<in> set (gone w')) = (q \<in> set (gone w))"
  shows "threads_ok n w'"
proof -
  have "object_ok n w' q" for q
  proof (cases "q = p")
    case False
    with assms(5) [OF False] threads_ok_object [OF assms(1), of q] show ?thesis
      by (subst object_ok_cong [of w' q w]) auto
  qed (use assms(2) in simp)
  with assms(3,4) show ?thesis by (simp add: threads_ok_def)
qed

lemma threads_ok_owned:
  assumes "threads_ok n w" and "0 < total n p w"
  obtains c where "cell w p = Some c" and "uint c = int (total n p w)" and "total n p w < 2 ^ 31"
    and "p \<notin> set (gone w)" and "\<And>t. dying w t \<noteq> Some p"
  using threads_ok_object [OF assms(1), of p] assms(2)
  by (auto simp: object_ok_def split: option.splits)

lemma threads_ok_dying:
  assumes "threads_ok n w" and "dying w t = Some p"
  obtains c where "cell w p = Some c" and "total n p w = 0" and "\<And>u. u \<noteq> t \<Longrightarrow> dying w u \<noteq> Some p"
    and "p \<notin> set (gone w)" and "t < n"
proof -
  have ok: "object_ok n w p" and t: "t < n"
    using assms threads_ok_object [OF assms(1), of p] by (simp_all add: threads_ok_def)
  from ok assms(2) obtain c where c: "cell w p = Some c"
    by (cases "cell w p") (auto simp: object_ok_def)
  from ok assms(2) c have "total n p w = 0" by (auto simp: object_ok_def split: if_splits)
  moreover from this ok c have "\<exists>!t. dying w t = Some p" "p \<notin> set (gone w)"
    by (simp_all add: object_ok_def)
  ultimately show thesis using c t assms(2) that by blast
qed

lemma total_set_holds:
  assumes "t < n"
  shows "int (total n q (set_holds t p k w)) =
    int (total n q w) + (if q = p then int k - int (holds w t p) else 0)"
proof -
  have "total n q (set_holds t p k w) =
      (\<Sum>u\<in>{..<n} - {t}. holds w u q) + (if q = p then k else holds w t q)"
    unfolding total_def using assms
    by (subst sum.remove [of _ t]) (auto simp: set_holds_def intro!: sum.cong)
  moreover have "total n q w = (\<Sum>u\<in>{..<n} - {t}. holds w u q) + holds w t q"
    unfolding total_def using assms by (subst sum.remove [of _ t]) auto
  ultimately show ?thesis by simp
qed

lemma total_two: "total 2 p w = holds w 0 p + holds w 1 p"
  by (simp add: total_def eval_nat_numeral)

lemma total_holds: "t < n \<Longrightarrow> holds w t p \<le> total n p w"
  unfolding total_def by (rule member_le_sum) auto

lemma set_holds_sel [simp]:
  "cell (set_holds t p k w) = cell w" "dying (set_holds t p k w) = dying w"
  "gone (set_holds t p k w) = gone w"
  by (simp_all add: set_holds_def)

lemma total_upd [simp]:
  "total n p (w\<lparr>cell := x\<rparr>) = total n p w" "total n p (w\<lparr>dying := y\<rparr>) = total n p w"
  "total n p (w\<lparr>gone := z\<rparr>) = total n p w"
  by (simp_all add: total_def)

lemma threads_ok_new:
  assumes "threads_ok n w" and "thread_allowed n (T_new t p) w"
  shows "\<exists>w'. thread_exec (T_new t p) w = Some w' \<and> threads_ok n w'"
proof -
  let ?v = "w\<lparr>cell := (cell w)(p \<mapsto> 1)\<rparr>"
  let ?w = "set_holds t p 1 ?v"
  have t: "t < n" and none: "cell w p = None" "p \<notin> set (gone w)" using assms(2) by auto
  then have z: "total n p w = 0" "\<And>s. dying w s \<noteq> Some p"
    using threads_ok_object [OF assms(1), of p] by (simp_all add: object_ok_def)
  then have h: "holds w t p = 0" using total_holds [OF t, of w p] by simp
  have tot: "total n q ?w = (if q = p then 1 else total n q w)" for q
    using total_set_holds [OF t, of q p 1 ?v] z h by (auto split: if_splits)
  have "object_ok n ?w p" using none z by (simp add: object_ok_def tot [unfolded One_nat_def])
  then have "threads_ok n ?w"
    by (rule threads_ok_change [OF assms(1)])
      (use assms(1) t in \<open>auto simp: tot [unfolded One_nat_def] threads_ok_def\<close>)
  then show ?thesis
    by (simp add: RefCountedThreadSafeBase_AddRef_def RefCountedThreadSafeBase_init_def AtomicRefCountInc_eq)
qed

lemma threads_ok_add:
  assumes "threads_ok n w" and "thread_allowed n (T_add t p) w"
  shows "\<exists>w'. thread_exec (T_add t p) w = Some w' \<and> threads_ok n w'"
proof -
  have t: "t < n" and h: "0 < holds w t p" and b: "total n p w < 2 ^ 31 - 1" using assms(2) by auto
  with total_holds [OF t, of w p] have pos: "0 < total n p w" by simp
  from threads_ok_owned [OF assms(1) pos] obtain c where c: "cell w p = Some c"
    "uint c = int (total n p w)" "p \<notin> set (gone w)" "\<And>t. dying w t \<noteq> Some p" by auto
  have u: "uint (c + 1) = uint c + 1" using c b by (intro uint_plus_1) simp
  let ?v = "w\<lparr>cell := (cell w)(p \<mapsto> c + 1)\<rparr>"
  let ?w = "set_holds t p (holds w t p + 1) ?v"
  have tot: "total n q ?w = (if q = p then total n p w + 1 else total n q w)" for q
    using total_set_holds [OF t, of q p "holds w t p + 1" ?v] by (auto split: if_splits)
  note tot' = tot [unfolded Suc_eq_plus1 [symmetric]]
  have "object_ok n ?w p" using c u b by (simp add: object_ok_def tot')
  then have "threads_ok n ?w"
    by (rule threads_ok_change [OF assms(1)]) (use assms(1) in \<open>auto simp: tot' threads_ok_def\<close>)
  with c show ?thesis by (simp add: RefCountedThreadSafeBase_AddRef_def AtomicRefCountInc_eq)
qed

lemma threads_ok_release:
  assumes "threads_ok n w" and "thread_allowed n (T_release t p) w"
  shows "\<exists>w'. thread_exec (T_release t p) w = Some w' \<and> threads_ok n w'"
proof -
  have t: "t < n" and h: "0 < holds w t p" and dt: "dying w t = None" using assms(2) by auto
  with total_holds [OF t, of w p] have pos: "0 < total n p w" by simp
  from threads_ok_owned [OF assms(1) pos] obtain c where c: "cell w p = Some c"
    "uint c = int (total n p w)" "total n p w < 2 ^ 31" "p \<notin> set (gone w)" "\<And>t. dying w t \<noteq> Some p" by auto
  have u: "uint (c - 1) = int (total n p w) - 1" using c pos by (simp add: uint_minus_1)
  have one: "c = 1 \<longleftrightarrow> total n p w = 1" using c(2) uint_eq_1 [of c] by auto
  let ?v = "w\<lparr>cell := (cell w)(p \<mapsto> c - 1),
    dying := (if c = 1 then (dying w)(t \<mapsto> p) else dying w)\<rparr>"
  obtain w' where w': "w' = set_holds t p (holds w t p - 1) ?v" by simp
  have tot: "total n q w' = (if q = p then total n p w - 1 else total n q w)" for q
    unfolding w' using total_set_holds [OF t, of q p "holds w t p - 1" ?v] h pos
    by (auto simp: of_nat_diff split: if_splits)
  have cell: "cell w' = (cell w)(p \<mapsto> c - 1)" and gone: "gone w' = gone w"
    and dying: "dying w' = (if c = 1 then (dying w)(t \<mapsto> p) else dying w)"
    by (simp_all add: w')
  have "object_ok n w' p"
    using c one u pos by (auto simp: object_ok_def tot cell gone dying of_nat_diff)
  then have "threads_ok n w'"
    by (rule threads_ok_change [OF assms(1)])
      (use assms(1) dt t in \<open>auto simp: tot cell gone dying threads_ok_def split: if_splits\<close>)
  moreover have "thread_exec (T_release t p) w = Some w'"
    using c by (simp add: RefCountedThreadSafeBase_Release_def AtomicRefCountDec_eq w')
  ultimately show ?thesis by blast
qed

lemma threads_ok_delete:
  assumes "threads_ok n w" and "thread_allowed n (T_delete t) w"
  shows "\<exists>w'. thread_exec (T_delete t) w = Some w' \<and> threads_ok n w'"
proof -
  from assms(2) obtain p where p: "dying w t = Some p" by auto
  from threads_ok_dying [OF assms(1) p] obtain c where c: "cell w p = Some c" "total n p w = 0"
    "\<And>u. u \<noteq> t \<Longrightarrow> dying w u \<noteq> Some p" "p \<notin> set (gone w)" by auto
  let ?w = "w\<lparr>cell := (cell w)(p := None), dying := (dying w)(t := None), gone := gone w @ [p]\<rparr>"
  have "object_ok n ?w p" using c by (auto simp: object_ok_def)
  then have "threads_ok n ?w"
    by (rule threads_ok_change [OF assms(1)])
      (use assms(1) p c in \<open>auto simp: threads_ok_def split: if_splits\<close>)
  with p c show ?thesis by simp
qed

lemma threads_ok_give:
  assumes "threads_ok n w" and "thread_allowed n (T_give t u p) w"
  shows "\<exists>w'. thread_exec (T_give t u p) w = Some w' \<and> threads_ok n w'"
proof -
  have t: "t < n" and u: "u < n" and h: "0 < holds w t p" using assms(2) by auto
  obtain v w' where v: "v = set_holds t p (holds w t p - 1) w"
    and w': "w' = set_holds u p (holds v u p + 1) v" by simp
  have tot: "total n q w' = total n q w" for q
    using total_set_holds [OF t, of q p "holds w t p - 1" w, folded v] h
      total_set_holds [OF u, of q p "holds v u p + 1" v, folded w']
    by (auto simp: of_nat_diff split: if_splits)
  have "cell w' = cell w" "dying w' = dying w" "gone w' = gone w" by (simp_all add: v w')
  note same = this tot
  have "threads_ok n w'"
    using assms(1) unfolding threads_ok_def object_ok_def same .
  then show ?thesis by (simp add: Let_def v w')
qed

lemma threads_ok_step:
  "threads_ok n w \<Longrightarrow> thread_allowed n op w \<Longrightarrow> \<exists>w'. thread_exec op w = Some w' \<and> threads_ok n w'"
  by (cases op) (blast intro: threads_ok_new threads_ok_add threads_ok_release threads_ok_delete
      threads_ok_give)+

lemma threads_reachable_ok: "threads_reachable n w \<Longrightarrow> threads_ok n w"
proof (induction rule: threads_reachable.induct)
  case threads_init
  show ?case by (simp add: threads_ok_def object_ok_def threads_start_def total_def)
next
  case (threads_next w op w')
  from threads_ok_step [OF threads_next.IH threads_next.hyps(2)] threads_next.hyps(3) show ?case by auto
qed

text \<open>C12: Threads that copy, drop and pass on references to shared objects never touch a deleted object: in every
  reachable world every operation a thread may do is defined, what a thread holds is not deleted, each object is
  deleted at most once, and an object that is neither held nor about to be deleted by exactly one thread is gone.\<close>

theorem shared_objects:
  assumes "threads_reachable n w" and "thread_allowed n op w"
  shows "thread_exec op w \<noteq> None \<and> distinct (gone w) \<and>
    (\<forall>t<n. \<forall>p. 0 < holds w t p \<longrightarrow> cell w p \<noteq> None \<and> p \<notin> set (gone w)) \<and>
    (\<forall>p. cell w p \<noteq> None \<and> (\<forall>t<n. holds w t p = 0) \<longrightarrow> (\<exists>!t. dying w t = Some p))"
proof -
  from assms(1) have ok: "threads_ok n w" by (rule threads_reachable_ok)
  have held: "cell w p \<noteq> None \<and> p \<notin> set (gone w)" if "t < n" "0 < holds w t p" for t p
  proof -
    have "0 < total n p w" using that total_holds [of t n w p] by simp
    from threads_ok_owned [OF ok this] show ?thesis by auto
  qed
  have "\<exists>!t. dying w t = Some p" if "cell w p \<noteq> None" "\<forall>t<n. holds w t p = 0" for p
  proof -
    have "total n p w = 0" using that(2) by (simp add: total_def)
    with threads_ok_object [OF ok, of p] that(1) show ?thesis by (auto simp: object_ok_def)
  qed
  with held ok threads_ok_step [OF ok assms(2)] show ?thesis by (auto simp: threads_ok_def)
qed

text \<open>Two threads share object 5 and both drop it; the second is about to delete it.\<close>

lemma shared_example:
  "threads_reachable 2 (threads_start\<lparr>cell := [5 \<mapsto> 0], dying := [1 \<mapsto> 5]\<rparr>)"
proof -
  let ?s = "\<lambda>c a b d. \<lparr>cell = [5 \<mapsto> c], holds = (\<lambda>t p. 0)(0 := (\<lambda>p. 0)(5 := a), 1 := (\<lambda>p. 0)(5 := b)),
    dying = d, gone = []\<rparr>"
  note code = set_holds_def RefCountedThreadSafeBase_AddRef_def RefCountedThreadSafeBase_init_def
    RefCountedThreadSafeBase_Release_def AtomicRefCountInc_eq AtomicRefCountDec_eq fun_eq_iff
  have s1: "threads_reachable 2 (?s 1 1 0 Map.empty)"
    by (rule threads_next [OF threads_init, of _ "T_new 0 5"])
      (simp_all add: threads_start_def code)
  have s2: "threads_reachable 2 (?s 2 2 0 Map.empty)"
    by (rule threads_next [OF s1, of "T_add 0 5"]) (simp_all add: total_two code)
  have s3: "threads_reachable 2 (?s 2 1 1 Map.empty)"
    by (rule threads_next [OF s2, of "T_give 0 1 5"]) (simp_all add: Let_def code)
  have s4: "threads_reachable 2 (?s 1 0 1 Map.empty)"
    by (rule threads_next [OF s3, of "T_release 0 5"]) (simp_all add: code)
  have "threads_reachable 2 (?s 0 0 0 [1 \<mapsto> 5])"
    by (rule threads_next [OF s4, of "T_release 1 5"]) (simp_all add: code)
  moreover have "?s 0 0 0 [1 \<mapsto> 5] = threads_start\<lparr>cell := [5 \<mapsto> 0], dying := [1 \<mapsto> 5]\<rparr>"
    by (simp add: threads_start_def fun_eq_iff)
  ultimately show ?thesis by simp
qed

theorem shared_objects_witness:
  "thread_exec (T_delete 1) (threads_start\<lparr>cell := [5 \<mapsto> 0], dying := [1 \<mapsto> 5]\<rparr>) \<noteq> None"
  using shared_objects [OF shared_example, of "T_delete 1"] by simp

end
