(* ===== verification/Scoped_Generic.thy ===== *)
theory Scoped_Generic
  imports Prelude "HOL-Library.Multiset"
begin

text \<open>
  \<^verbatim>\<open>ScopedGeneric\<close> of \<^verbatim>\<open>base/scoped_generic.h\<close>, the owner of a value that has to be given back
  (a file descriptor, for instance: \<^verbatim>\<open>ScopedFD\<close> of \<^verbatim>\<open>base/scoped_file.h\<close>).

  The variables in scope are a map from their numbers to their data: the held value and the traits
  object, which may have a state and is passed to \<^verbatim>\<open>Free\<close>.  \<open>freed\<close> lists the calls of
  \<^verbatim>\<open>Free\<close>, \<open>released\<close> the values \<^verbatim>\<open>release\<close> gave to the caller.  The value None stands for an
  operation on a variable out of scope, or the \<^verbatim>\<open>abort\<close> of \<^verbatim>\<open>reset\<close>.  The parameter \<open>invalid\<close> is
  \<^verbatim>\<open>traits_type::InvalidValue()\<close>.
\<close>

subsection \<open>Operations\<close>

record ('a, 't) scoped_data =
  traits :: 't
  generic :: 'a

record ('a, 't) scopes =
  scoped :: "nat \<Rightarrow> ('a, 't) scoped_data option"
  freed :: "('t \<times> 'a) list"
  released :: "'a list"

definition put_scoped ::
    "nat \<Rightarrow> ('a, 't) scoped_data option \<Rightarrow> ('a, 't) scopes \<Rightarrow> ('a, 't) scopes" where
  "put_scoped v d w = w\<lparr>scoped := (scoped w)(v := d)\<rparr>"

definition sg_construct :: "nat \<Rightarrow> 'a \<Rightarrow> 't \<Rightarrow> ('a, 't) scopes \<Rightarrow> ('a, 't) scopes option" where
  "sg_construct v x tr w =
     (if scoped w v = None then Some (put_scoped v (Some \<lparr>traits = tr, generic = x\<rparr>) w) else None)"

definition sg_FreeIfNecessary :: "'a \<Rightarrow> nat \<Rightarrow> ('a, 't) scopes \<Rightarrow> ('a, 't) scopes option" where
  "sg_FreeIfNecessary invalid v w =
     do { d \<leftarrow> scoped w v;
          if generic d \<noteq> invalid
          then Some (put_scoped v (Some (d\<lparr>generic := invalid\<rparr>))
                 (w\<lparr>freed := freed w @ [(traits d, generic d)]\<rparr>))
          else Some w }"

text \<open>The value is returned to the caller's expression.\<close>

definition sg_release :: "'a \<Rightarrow> nat \<Rightarrow> ('a, 't) scopes \<Rightarrow> ('a \<times> ('a, 't) scopes) option" where
  "sg_release invalid v w =
     do { d \<leftarrow> scoped w v; Some (generic d, put_scoped v (Some (d\<lparr>generic := invalid\<rparr>)) w) }"

definition sg_reset :: "'a \<Rightarrow> nat \<Rightarrow> 'a \<Rightarrow> ('a, 't) scopes \<Rightarrow> ('a, 't) scopes option" where
  "sg_reset invalid v x w =
     do { d \<leftarrow> scoped w v;
          if generic d \<noteq> invalid \<and> generic d = x then None
          else do { w1 \<leftarrow> sg_FreeIfNecessary invalid v w;
                    d1 \<leftarrow> scoped w1 v;
                    Some (put_scoped v (Some (d1\<lparr>generic := x\<rparr>)) w1) } }"

definition sg_move :: "'a \<Rightarrow> nat \<Rightarrow> nat \<Rightarrow> ('a, 't) scopes \<Rightarrow> ('a, 't) scopes option" where
  "sg_move invalid v r w =
     do { p \<leftarrow> sg_release invalid r w;
          d \<leftarrow> scoped (snd p) r;
          sg_construct v (fst p) (traits d) (snd p) }"

definition sg_assign :: "'a \<Rightarrow> nat \<Rightarrow> nat \<Rightarrow> ('a, 't) scopes \<Rightarrow> ('a, 't) scopes option" where
  "sg_assign invalid v r w =
     do { p \<leftarrow> sg_release invalid r w; sg_reset invalid v (fst p) (snd p) }"

definition sg_swap :: "nat \<Rightarrow> nat \<Rightarrow> ('a, 't) scopes \<Rightarrow> ('a, 't) scopes option" where
  "sg_swap v r w =
     do { d \<leftarrow> scoped w v; e \<leftarrow> scoped w r;
          Some (put_scoped r (Some d) (put_scoped v (Some e) w)) }"

definition sg_destroy :: "'a \<Rightarrow> nat \<Rightarrow> ('a, 't) scopes \<Rightarrow> ('a, 't) scopes option" where
  "sg_destroy invalid v w =
     do { w1 \<leftarrow> sg_FreeIfNecessary invalid v w; Some (put_scoped v None w1) }"

definition sg_get :: "nat \<Rightarrow> ('a, 't) scopes \<Rightarrow> 'a option" where
  "sg_get v w = map_option generic (scoped w v)"

definition sg_is_valid :: "'a \<Rightarrow> nat \<Rightarrow> ('a, 't) scopes \<Rightarrow> bool option" where
  "sg_is_valid invalid v w = map_option (\<lambda>d. generic d \<noteq> invalid) (scoped w v)"

datatype ('a, 't) sg_op =
    Sg_default nat 't
  | Sg_value nat 'a 't
  | Sg_move nat nat
  | Sg_destroy nat
  | Sg_assign nat nat
  | Sg_reset nat 'a
  | Sg_swap nat nat
  | Sg_release nat

fun sg_exec :: "'a \<Rightarrow> ('a, 't) sg_op \<Rightarrow> ('a, 't) scopes \<Rightarrow> ('a, 't) scopes option" where
  "sg_exec invalid (Sg_default v tr) w = sg_construct v invalid tr w"
| "sg_exec invalid (Sg_value v x tr) w = sg_construct v x tr w"
| "sg_exec invalid (Sg_move v r) w = sg_move invalid v r w"
| "sg_exec invalid (Sg_destroy v) w = sg_destroy invalid v w"
| "sg_exec invalid (Sg_assign v r) w = sg_assign invalid v r w"
| "sg_exec invalid (Sg_reset v x) w = sg_reset invalid v x w"
| "sg_exec invalid (Sg_swap v r) w = sg_swap v r w"
| "sg_exec invalid (Sg_release v) w =
     do { p \<leftarrow> sg_release invalid v w; Some ((snd p)\<lparr>released := released (snd p) @ [fst p]\<rparr>) }"

fun sg_run :: "'a \<Rightarrow> ('a, 't) sg_op list \<Rightarrow> ('a, 't) scopes \<Rightarrow> ('a, 't) scopes option" where
  "sg_run invalid [] w = Some w"
| "sg_run invalid (op # ops) w = do { w' \<leftarrow> sg_exec invalid op w; sg_run invalid ops w' }"

text \<open>File descriptors: \<open>-1\<close> is the invalid value and \<^verbatim>\<open>Free\<close> closes.\<close>

definition ScopedFD_InvalidValue :: int where
  "ScopedFD_InvalidValue = - 1"

subsection \<open>Where the values are\<close>

text \<open>The valid values: those in a list, and those the variables in scope hold.\<close>

definition valids :: "'a \<Rightarrow> 'a list \<Rightarrow> 'a multiset" where
  "valids invalid xs = filter_mset (\<lambda>x. x \<noteq> invalid) (mset xs)"

definition held_by :: "'a \<Rightarrow> ('a, 't) scoped_data option \<Rightarrow> 'a multiset" where
  "held_by invalid d =
     (case d of None \<Rightarrow> {#} | Some d \<Rightarrow> if generic d = invalid then {#} else {#generic d#})"

definition owned :: "'a \<Rightarrow> ('a, 't) scopes \<Rightarrow> 'a multiset" where
  "owned invalid w = (\<Sum>v\<in>dom (scoped w). held_by invalid (scoped w v))"

text \<open>The values a program hands in.\<close>

fun sg_input :: "('a, 't) sg_op \<Rightarrow> 'a list" where
  "sg_input (Sg_value v x tr) = [x]"
| "sg_input (Sg_reset v x) = [x]"
| "sg_input _ = []"

definition account :: "'a \<Rightarrow> ('a, 't) scopes \<Rightarrow> 'a multiset" where
  "account invalid w = owned invalid w + mset (map snd (freed w)) + valids invalid (released w)"

lemma valids_simps [simp]:
  "valids invalid [] = {#}"
  "valids invalid (xs @ ys) = valids invalid xs + valids invalid ys"
  "valids invalid [x] = (if x = invalid then {#} else {#x#})"
  by (simp_all add: valids_def)

lemma put_scoped_sel [simp]:
  "freed (put_scoped v d w) = freed w" "released (put_scoped v d w) = released w"
  "scoped (put_scoped v d w) u = (if u = v then d else scoped w u)"
  by (simp_all add: put_scoped_def)

lemma owned_put:
  assumes "finite (dom (scoped w))"
  shows "owned invalid (put_scoped v d w) + held_by invalid (scoped w v) =
    owned invalid w + held_by invalid d"
proof -
  let ?D = "insert v (dom (scoped w))"
  have ext: "owned invalid u = (\<Sum>x\<in>?D. held_by invalid (scoped u x))"
    if "dom (scoped u) \<subseteq> ?D" for u :: "('a, 'b) scopes"
    unfolding owned_def
    by (rule sum.mono_neutral_left) (use assms that in \<open>auto simp: held_by_def split: option.splits\<close>)
  have "owned invalid (put_scoped v d w) =
      held_by invalid d + (\<Sum>x\<in>?D - {v}. held_by invalid (scoped w x))"
    by (subst ext) (use assms in \<open>auto simp: sum.remove [of ?D v] intro!: sum.cong split: if_splits\<close>)
  moreover have "owned invalid w =
      held_by invalid (scoped w v) + (\<Sum>x\<in>?D - {v}. held_by invalid (scoped w x))"
    by (subst ext) (use assms in \<open>auto simp: sum.remove [of ?D v]\<close>)
  ultimately show ?thesis by (simp add: ac_simps)
qed

lemma finite_put: "finite (dom (scoped w)) \<Longrightarrow> finite (dom (scoped (put_scoped v d w)))"
  by (rule finite_subset [of _ "insert v (dom (scoped w))"]) (auto split: if_splits)

subsection \<open>Every operation keeps the account\<close>

lemma owned_upd [simp]: "owned invalid (w\<lparr>freed := f\<rparr>) = owned invalid w"
  "owned invalid (w\<lparr>released := r\<rparr>) = owned invalid w"
  by (simp_all add: owned_def)

lemma sg_construct_account:
  assumes "sg_construct v x tr w = Some w'" and "finite (dom (scoped w))"
  shows "owned invalid w' = owned invalid w + valids invalid [x] \<and> freed w' = freed w \<and>
    released w' = released w \<and> finite (dom (scoped w'))"
  using assms owned_put [OF assms(2), of invalid v "Some \<lparr>traits = tr, generic = x\<rparr>"]
  by (auto simp: sg_construct_def held_by_def finite_put split: if_splits)

lemma sg_release_account:
  assumes "sg_release invalid v w = Some (x, w')" and "finite (dom (scoped w))"
  shows "owned invalid w' + valids invalid [x] = owned invalid w \<and> freed w' = freed w \<and>
    released w' = released w \<and> finite (dom (scoped w'))"
proof -
  from assms(1) obtain d where d: "scoped w v = Some d" "x = generic d"
    "w' = put_scoped v (Some (d\<lparr>generic := invalid\<rparr>)) w"
    by (auto simp: sg_release_def bind_eq_Some_conv)
  with owned_put [OF assms(2), of invalid v "Some (d\<lparr>generic := invalid\<rparr>)"] assms(2) show ?thesis
    by (auto simp: held_by_def finite_put)
qed

lemma sg_Free_account:
  assumes "sg_FreeIfNecessary invalid v w = Some w'" and "finite (dom (scoped w))"
  shows "owned invalid w' + mset (map snd (freed w')) = owned invalid w + mset (map snd (freed w)) \<and>
    released w' = released w \<and> finite (dom (scoped w')) \<and> held_by invalid (scoped w' v) = {#}"
proof -
  from assms(1) obtain d where d: "scoped w v = Some d"
    by (auto simp: sg_FreeIfNecessary_def bind_eq_Some_conv)
  let ?w = "w\<lparr>freed := freed w @ [(traits d, generic d)]\<rparr>"
  have "finite (dom (scoped ?w))" using assms(2) by simp
  from owned_put [OF this, of invalid v "Some (d\<lparr>generic := invalid\<rparr>)"] finite_put [OF this]
  show ?thesis using assms d
    by (auto simp: sg_FreeIfNecessary_def held_by_def split: if_splits)
qed

lemma sg_reset_account:
  assumes "sg_reset invalid v x w = Some w'" and "finite (dom (scoped w))"
  shows "owned invalid w' + mset (map snd (freed w')) =
      owned invalid w + mset (map snd (freed w)) + valids invalid [x] \<and>
    released w' = released w \<and> finite (dom (scoped w'))"
proof -
  from assms(1) obtain w1 d1 where w1: "sg_FreeIfNecessary invalid v w = Some w1"
    "scoped w1 v = Some d1" "w' = put_scoped v (Some (d1\<lparr>generic := x\<rparr>)) w1"
    by (auto simp: sg_reset_def bind_eq_Some_conv split: if_splits)
  note f = sg_Free_account [OF w1(1) assms(2)]
  with owned_put [of w1 invalid v "Some (d1\<lparr>generic := x\<rparr>)"] w1(3) show ?thesis
    by (auto simp: held_by_def finite_put ac_simps)
qed

lemma sg_destroy_account:
  assumes "sg_destroy invalid v w = Some w'" and "finite (dom (scoped w))"
  shows "owned invalid w' + mset (map snd (freed w')) = owned invalid w + mset (map snd (freed w)) \<and>
    released w' = released w \<and> finite (dom (scoped w'))"
proof -
  from assms(1) obtain w1 where w1: "sg_FreeIfNecessary invalid v w = Some w1"
    "w' = put_scoped v None w1"
    by (auto simp: sg_destroy_def bind_eq_Some_conv)
  note f = sg_Free_account [OF w1(1) assms(2)]
  with owned_put [of w1 invalid v None] w1(2) show ?thesis
    by (auto simp: held_by_def finite_put)
qed

lemma sg_swap_account:
  assumes "sg_swap v r w = Some w'" and "finite (dom (scoped w))"
  shows "owned invalid w' = owned invalid w \<and> freed w' = freed w \<and> released w' = released w \<and>
    finite (dom (scoped w'))"
proof -
  from assms(1) obtain d e where d: "scoped w v = Some d" "scoped w r = Some e"
    "w' = put_scoped r (Some d) (put_scoped v (Some e) w)"
    by (auto simp: sg_swap_def bind_eq_Some_conv)
  let ?w = "put_scoped v (Some e) w"
  have f: "finite (dom (scoped ?w))" by (rule finite_put [OF assms(2)])
  have "held_by invalid (scoped ?w r) = held_by invalid (Some e)" using d by simp
  with owned_put [OF assms(2), of invalid v "Some e"] owned_put [OF f, of invalid r "Some d"] d
  have "owned invalid w' + held_by invalid (Some e) + held_by invalid (Some d) =
      owned invalid w + held_by invalid (Some e) + held_by invalid (Some d)"
    by (simp add: ac_simps)
  with d finite_put [OF f] show ?thesis by simp
qed

lemma sg_exec_account:
  assumes "sg_exec invalid op w = Some w'" and "finite (dom (scoped w))"
  shows "account invalid w' = account invalid w + valids invalid (sg_input op) \<and>
    finite (dom (scoped w'))"
proof (cases op)
  case (Sg_default v tr)
  with assms sg_construct_account [of v invalid tr w w'] show ?thesis by (auto simp: account_def)
next
  case (Sg_value v x tr)
  with assms sg_construct_account [of v x tr w w' invalid] show ?thesis
    by (auto simp: account_def)
next
  case (Sg_move v r)
  with assms(1) obtain x w1 d where w1: "sg_release invalid r w = Some (x, w1)"
    "sg_construct v x (traits d) w1 = Some w'" "scoped w1 r = Some d"
    by (auto simp: sg_move_def bind_eq_Some_conv)
  from sg_release_account [OF w1(1) assms(2)] sg_construct_account [OF w1(2), of invalid] Sg_move
  show ?thesis by (auto simp: account_def split: if_splits)
next
  case (Sg_destroy v)
  with assms sg_destroy_account [of invalid v w w'] show ?thesis by (auto simp: account_def)
next
  case (Sg_assign v r)
  with assms(1) obtain x w1 where w1: "sg_release invalid r w = Some (x, w1)"
    "sg_reset invalid v x w1 = Some w'"
    by (auto simp: sg_assign_def bind_eq_Some_conv)
  from sg_release_account [OF w1(1) assms(2)] sg_reset_account [OF w1(2)] Sg_assign
  show ?thesis by (auto simp: account_def split: if_splits)
next
  case (Sg_reset v x)
  with assms sg_reset_account [of invalid v x w w'] show ?thesis by (auto simp: account_def)
next
  case (Sg_swap v r)
  with assms sg_swap_account [of v r w w' invalid] show ?thesis by (auto simp: account_def)
next
  case (Sg_release v)
  with assms(1) obtain x w1 where w1: "sg_release invalid v w = Some (x, w1)"
    "w' = w1\<lparr>released := released w1 @ [x]\<rparr>"
    by (auto simp: bind_eq_Some_conv)
  from sg_release_account [OF w1(1) assms(2)] w1(2) Sg_release show ?thesis
    by (auto simp: account_def split: if_splits)
qed

lemma sg_run_account:
  "sg_run invalid ops w = Some w' \<Longrightarrow> finite (dom (scoped w)) \<Longrightarrow>
    account invalid w' = account invalid w + valids invalid (concat (map sg_input ops)) \<and>
    finite (dom (scoped w'))"
proof (induction ops arbitrary: w)
  case (Cons op ops)
  from Cons.prems(1) obtain w1 where w1: "sg_exec invalid op w = Some w1"
    "sg_run invalid ops w1 = Some w'" by (auto simp: bind_eq_Some_conv)
  from sg_exec_account [OF w1(1) Cons.prems(2)] Cons.IH [OF w1(2)] show ?case by auto
qed simp

definition sg_empty :: "('a, 't) scopes" where
  "sg_empty = \<lparr>scoped = (\<lambda>v. None), freed = [], released = []\<rparr>"

text \<open>C20: Whatever a program does with its ScopedGeneric variables, every value handed in is in one place at the
  end: a variable in scope holds it, Free was called with it, or release gave it back. So once all variables have
  left their scopes, and nothing was released, exactly the values handed in were freed, each as often as it came.\<close>

theorem scoped_values_accounted:
  assumes "sg_run invalid ops sg_empty = Some w"
  shows "valids invalid (concat (map sg_input ops)) =
      owned invalid w + mset (map snd (freed w)) + valids invalid (released w) \<and>
    (dom (scoped w) = {} \<and> released w = [] \<longrightarrow>
      mset (map snd (freed w)) = valids invalid (concat (map sg_input ops)))"
proof -
  have "account invalid (sg_empty :: ('a, 'b) scopes) = {#}"
    by (simp add: account_def owned_def sg_empty_def)
  moreover have "finite (dom (scoped (sg_empty :: ('a, 'b) scopes)))" by (simp add: sg_empty_def)
  ultimately have "account invalid w = valids invalid (concat (map sg_input ops))"
    using sg_run_account [OF assms] by simp
  then show ?thesis by (auto simp: account_def owned_def)
qed

text \<open>Descriptors 3, 4 and 5: one moved and destroyed, one replaced, one released.\<close>

definition sg_example :: "(int, unit) sg_op list" where
  "sg_example = [Sg_value 0 3 (), Sg_move 1 0, Sg_reset 0 4, Sg_reset 0 5, Sg_assign 0 0, Sg_swap 0 1,
     Sg_release 1, Sg_destroy 1, Sg_destroy 0]"

lemmas sg_code = sg_construct_def sg_FreeIfNecessary_def sg_release_def sg_reset_def sg_move_def
  sg_assign_def sg_swap_def sg_destroy_def put_scoped_def

theorem scoped_values_accounted_witness:
  "\<exists>w. sg_run ScopedFD_InvalidValue sg_example sg_empty = Some w \<and>
     {#3, 4, 5#} = owned ScopedFD_InvalidValue w + mset (map snd (freed w)) +
       valids ScopedFD_InvalidValue (released w) \<and>
     map snd (freed w) = [4, 3] \<and> released w = [5]"
proof -
  have "sg_run ScopedFD_InvalidValue sg_example sg_empty =
      Some \<lparr>scoped = (\<lambda>v. None), freed = [((), 4), ((), 3)], released = [5]\<rparr>"
    by (simp add: sg_example_def sg_code sg_empty_def ScopedFD_InvalidValue_def fun_eq_iff)
  from scoped_values_accounted [OF this] this show ?thesis
    by (simp add: sg_example_def valids_def ScopedFD_InvalidValue_def)
qed

text \<open>Resetting a variable to the value it holds ends the process; moving it to itself does not.\<close>

lemma reset_to_itself:
  "scoped w v = Some d \<Longrightarrow> generic d \<noteq> invalid \<Longrightarrow> sg_reset invalid v (generic d) w = None"
  by (simp add: sg_reset_def)

lemma assign_to_itself:
  assumes "scoped w v = Some d"
  shows "sg_assign invalid v v w = Some w"
proof -
  have "sg_assign invalid v v w = Some (put_scoped v (Some d) w)"
    using assms by (simp add: sg_assign_def sg_release_def sg_reset_def sg_FreeIfNecessary_def)
      (simp add: put_scoped_def)
  moreover have "put_scoped v (Some d) w = w" using assms by (simp add: put_scoped_def fun_upd_idem)
  ultimately show ?thesis by simp
qed

text \<open>The assignment moves the value alone: it is later freed through the traits object of its new
  variable, while the move constructor and \<^verbatim>\<open>swap\<close> carry the traits object along.\<close>

lemma assigned_value_freed_by_target:
  assumes "scoped w v = Some d" and "scoped w r = Some e" and "v \<noteq> r"
    and "generic d = invalid" and "generic e \<noteq> invalid"
    and "sg_assign invalid v r w = Some w1" and "sg_destroy invalid v w1 = Some w2"
  shows "freed w2 = freed w @ [(traits d, generic e)]"
  using assms
  by (auto simp: sg_assign_def sg_release_def sg_reset_def sg_FreeIfNecessary_def sg_destroy_def
      bind_eq_Some_conv split: if_splits)

lemma constructed_value_freed_by_source:
  assumes "scoped w r = Some e" and "generic e \<noteq> invalid"
    and "sg_move invalid v r w = Some w1" and "sg_destroy invalid v w1 = Some w2"
  shows "freed w2 = freed w @ [(traits e, generic e)]"
  using assms
  by (auto simp: sg_move_def sg_release_def sg_construct_def sg_FreeIfNecessary_def sg_destroy_def
      bind_eq_Some_conv split: if_splits)

end
