(* ===== verification/Thread_Time.thy ===== *)
theory Thread_Time
  imports Time_Base
begin

text \<open>
  The time conversions of \<^verbatim>\<open>threading/time_util.h\<close> and \<^verbatim>\<open>threading/time_util.cc\<close>, and the waits
  of \<^verbatim>\<open>Monitor\<close> (\<^verbatim>\<open>threading/monitor.cc\<close>) that compute their deadline with them.

  A tick is a fraction of a second, and the conversion of ticks rounds.  All values are \<open>int64_t\<close>;
  overflow and division by zero are None.  The clock, the mutex and the condition variable of the C
  library are parameters.
\<close>

subsection \<open>Conversions\<close>

definition NS_PER_S :: int where "NS_PER_S = 1000000000"
definition US_PER_S :: int where "US_PER_S = 1000000"
definition MS_PER_S :: int where "MS_PER_S = 1000"
definition NS_PER_MS :: int where "NS_PER_MS = NS_PER_S sdiv MS_PER_S"
definition US_PER_MS :: int where "US_PER_MS = US_PER_S sdiv MS_PER_S"

lemmas tick_units = NS_PER_S_def US_PER_S_def MS_PER_S_def NS_PER_MS_def US_PER_MS_def

definition util_ToTimespec :: "int \<Rightarrow> timespec" where
  "util_ToTimespec v = \<lparr>tv_sec = v sdiv MS_PER_S, tv_nsec = (v smod MS_PER_S) * NS_PER_MS\<rparr>"

definition util_ToTimeval :: "int \<Rightarrow> timeval" where
  "util_ToTimeval v = \<lparr>val_sec = v sdiv MS_PER_S, val_usec = (v smod MS_PER_S) * US_PER_MS\<rparr>"

definition mod64 :: "int \<Rightarrow> int \<Rightarrow> int option" where
  "mod64 a b = (if b = 0 \<or> a = it_min int64_t \<and> b = - 1 then None else Some (a smod b))"

definition ToTicks :: "int \<Rightarrow> int \<Rightarrow> int \<Rightarrow> int \<Rightarrow> int option" where
  "ToTicks secs oldTicks oldTicksPerSec newTicksPerSec =
     do { result \<leftarrow> int64 (secs * newTicksPerSec);
          p \<leftarrow> int64 (oldTicks * newTicksPerSec);
          q \<leftarrow> div64 p oldTicksPerSec;
          result \<leftarrow> int64 (result + q);
          oldPerNew \<leftarrow> div64 oldTicksPerSec newTicksPerSec;
          if oldPerNew = 0 then Some result
          else do { r \<leftarrow> mod64 oldTicks oldPerNew;
                    if r \<ge> oldPerNew sdiv 2 then int64 (result + 1) else Some result } }"

definition ToTicks_timespec :: "timespec \<Rightarrow> int \<Rightarrow> int option" where
  "ToTicks_timespec v ticksPerSec = ToTicks (tv_sec v) (tv_nsec v) NS_PER_S ticksPerSec"

definition ToTicks_timeval :: "timeval \<Rightarrow> int \<Rightarrow> int option" where
  "ToTicks_timeval v ticksPerSec = ToTicks (val_sec v) (val_usec v) US_PER_S ticksPerSec"

definition ToMilliseconds_timespec :: "timespec \<Rightarrow> int option" where
  "ToMilliseconds_timespec v = ToTicks_timespec v MS_PER_S"

definition ToMilliseconds_timeval :: "timeval \<Rightarrow> int option" where
  "ToMilliseconds_timeval v = ToTicks_timeval v MS_PER_S"

definition ToUsec_timespec :: "timespec \<Rightarrow> int option" where
  "ToUsec_timespec v = ToTicks_timespec v US_PER_S"

definition ToUsec_timeval :: "timeval \<Rightarrow> int option" where
  "ToUsec_timeval v = ToTicks_timeval v US_PER_S"

subsection \<open>What the conversions compute\<close>

lemma int64_some: "- (2 ^ 63) \<le> v \<Longrightarrow> v < 2 ^ 63 \<Longrightarrow> int64 v = Some v"
  by (simp add: int64_def in_range_def int64_t_def)

lemma int64_sum:
  assumes "- (2 ^ 62) \<le> a" and "a < 2 ^ 62" and "0 \<le> b" and "b < 2 ^ 62"
  shows "int64 (a + b) = Some (a + b)" and "int64 (a + b + 1) = Some (a + b + 1)"
  using assms by (simp_all add: int64_some)

lemma sdiv_cancel: "0 < (c::int) \<Longrightarrow> (r * c) sdiv c = r"
  by (simp add: signed_divide_int_def sgn_mult abs_mult mult.assoc sgn_mult_abs)

lemma smod_cancel: "0 < (c::int) \<Longrightarrow> (r * c) smod c = 0"
  by (simp add: signed_modulo_int_def abs_mult)

text \<open>The quotient of a multiple: with \<open>k\<close> old ticks to a new one.\<close>

lemma tick_quotient: "0 < (n::int) \<Longrightarrow> 0 < k \<Longrightarrow> (t * n) div (k * n) = t div k"
  by simp

lemma round_half:
  assumes "0 < (k::int)" and "even k"
  shows "t div k + (if t mod k \<ge> k div 2 then 1 else 0) = (t + k div 2) div k"
proof -
  from assms(2) obtain m where m: "k = 2 * m" by auto
  let ?q = "t div k" and ?r = "t mod k"
  have b: "0 \<le> ?r" "?r < k" using assms(1) by simp_all
  have "(t + m) div k = ?q + (?r + m) div k"
  proof -
    have "t + m = ?r + m + ?q * k" by simp
    with assms(1) show ?thesis by (metis add.commute div_mult_self1 less_irrefl)
  qed
  moreover have "(?r + m) div k = (if m \<le> ?r then 1 else 0)"
    using b m by (auto simp: div_pos_pos_trivial intro!: int_div_pos_eq [of _ _ _ "?r - m"])
  ultimately show ?thesis using m by simp
qed

text \<open>ToTicks rounds to the nearest tick, halves upwards: if a new tick is an even number k of old ones, the
  result is the seconds in new ticks plus the old ticks divided by k, rounded.\<close>

theorem ToTicks_rounds:
  assumes "0 < new" and "0 < k" and "even k" and "0 \<le> t" and "t < k * new"
    and "- (2 ^ 62) \<le> secs * new" and "secs * new < 2 ^ 62" and "k * new * new < 2 ^ 62"
  shows "ToTicks secs t (k * new) new = Some (secs * new + (t + k div 2) div k)"
proof -
  have tn: "0 \<le> t * new" "t * new < 2 ^ 62"
  proof -
    show "0 \<le> t * new" using assms by simp
    have "t * new \<le> (k * new) * new" using assms by (intro mult_right_mono) auto
    with assms(8) show "t * new < 2 ^ 62" by simp
  qed
  have kn: "0 < k * new" "k * new < 2 ^ 62"
  proof -
    show "0 < k * new" using assms by simp
    have "k * new * 1 \<le> k * new * new" using assms by (intro mult_left_mono) auto
    with assms(8) show "k * new < 2 ^ 62" by simp
  qed
  have q: "(t * new) sdiv (k * new) = t div k"
    using tn(1) kn(1) tick_quotient [OF assms(1,2)] by (simp add: sdiv_nonneg)
  have td: "0 \<le> t div k" "t div k \<le> t" using assms zdiv_mono2 [of t 1 k]
    by (simp_all add: pos_imp_zdiv_nonneg_iff)
  have t62: "t < 2 ^ 62" using assms(5) kn(2) by simp
  have k: "(k * new) sdiv new = k" using assms(1,2) by (simp add: sdiv_nonneg)
  have k62: "k < 2 ^ 63"
  proof -
    have "k * 1 \<le> k * new" using assms by (intro mult_left_mono) auto
    with kn(2) show ?thesis by simp
  qed
  have d: "0 \<le> t div k" "t div k < 2 ^ 62" using td t62 by linarith+
  have p1: "int64 (secs * new) = Some (secs * new)"
    by (rule int64_some) (use assms(6,7) in simp_all)
  have p1': "int64 (t * new) = Some (t * new)" 
    by (rule int64_some, rule order_trans [OF _ tn(1)], simp, rule less_trans [OF tn(2)], simp)
  have p2: "div64 (t * new) (k * new) = Some (t div k)" "div64 (k * new) new = Some k"
    using kn k62 assms(1,2) d by (simp_all add: div64_def q k int64_some)
  note p3 = int64_sum [OF assms(6,7) d]
  have p5: "mod64 t k = Some (t mod k)"
    using assms(2,4) by (auto simp: mod64_def sdiv_nonneg)
  have p6: "k sdiv 2 = k div 2" using assms(2) by (simp add: sdiv_nonneg)
  have "ToTicks secs t (k * new) new =
      Some (secs * new + (t div k + (if t mod k \<ge> k div 2 then 1 else 0)))"
    using assms(2) by (simp add: ToTicks_def p1 p1' p2 p3 p5 p6 flip: add.assoc)
  then show ?thesis by (simp only: round_half [OF assms(2,3)])
qed

theorem ToTicks_rounds_witness:
  "ToTicks 1700000000 123500000 (1000000 * 1000) 1000 = Some (1700000000 * 1000 + (123500000 + 1000000 div 2) div 1000000)"
  by (rule ToTicks_rounds) simp_all

text \<open>An odd number of old ticks rounds up too early: a third counts as a half.\<close>

lemma ToTicks_odd: "ToTicks 0 1 3 1 = Some 1"
  by (simp add: ToTicks_def div64_def mod64_def int64_def in_range_def int64_t_def signed_divide_int_def
      signed_modulo_int_def)

text \<open>If the units agree there is nothing to round, yet every tick is counted as a half: the microseconds of a
  \<^verbatim>\<open>timeval\<close> come out one too high.\<close>

lemma ToTicks_same:
  assumes "0 < new" and "0 \<le> t" and "t < 2 ^ 31" and "new < 2 ^ 31"
    and "- (2 ^ 62) \<le> secs * new" and "secs * new < 2 ^ 62"
  shows "ToTicks secs t new new = Some (secs * new + t + 1)"
proof -
  have b: "0 \<le> t * new" "t * new < 2 ^ 62"
  proof -
    show "0 \<le> t * new" using assms by simp
    have "t * new < 2 ^ 31 * 2 ^ 31" using assms by (intro mult_strict_mono) auto
    then show "t * new < 2 ^ 62" by simp
  qed
  have p1: "int64 (secs * new) = Some (secs * new)"
    by (rule int64_some) (use assms(5,6) in simp_all)
  have p1': "int64 (t * new) = Some (t * new)" 
    by (rule int64_some, rule order_trans [OF _ b(1)], simp, rule less_trans [OF b(2)], simp)
  have p2: "div64 (t * new) new = Some t" "div64 new new = Some 1"
    using assms by (simp_all add: div64_def sdiv_nonneg int64_some)
  have "t < 2 ^ 62" using assms(3) by simp
  note p3 = int64_sum [OF assms(5,6,2) this]
  have p4: "mod64 t 1 = Some 0" "(1::int) sdiv 2 = 0"
    using assms(2) by (auto simp: mod64_def sdiv_nonneg int64_t_def)
  show ?thesis by (simp add: ToTicks_def p1 p1' p2 p3 p4)
qed

theorem ToUsec_timeval_too_high:
  assumes "0 \<le> val_sec v" and "val_sec v < 2 ^ 40" and "0 \<le> val_usec v" and "val_usec v < US_PER_S"
  shows "ToUsec_timeval v = Some (val_sec v * US_PER_S + val_usec v + 1)"
  unfolding ToUsec_timeval_def ToTicks_timeval_def
  by (rule ToTicks_same) (use assms in \<open>simp_all add: tick_units\<close>)

lemma timespec_roundtrip_exact:
  assumes "in_range int64_t v"
  shows "ToMilliseconds_timespec (util_ToTimespec v) = Some v"
proof -
  let ?s = "v sdiv 1000" and ?r = "v smod 1000"
  have v: "?s * 1000 + ?r = v" by (rule sdiv_mult_smod_eq)
  have r: "\<bar>?r\<bar> < 1000" and s: "\<bar>?s * 1000\<bar> \<le> \<bar>v\<bar>"
  proof -
    have m: "0 \<le> \<bar>v\<bar> mod 1000" "\<bar>v\<bar> mod 1000 < 1000" by simp_all
    have "?r = sgn v * (\<bar>v\<bar> mod 1000)" by (simp add: signed_modulo_int_def)
    with m show "\<bar>?r\<bar> < 1000" by (cases v "0::int" rule: linorder_cases) auto
    have "?s = sgn v * (\<bar>v\<bar> div 1000)" by (simp add: signed_divide_int_def)
    then have "\<bar>?s * 1000\<bar> \<le> \<bar>v\<bar> div 1000 * 1000"
      by (cases v "0::int" rule: linorder_cases) (auto simp: abs_mult)
    also have "\<dots> \<le> \<bar>v\<bar>" using m(1) by (simp add: minus_mod_eq_div_mult [symmetric])
    finally show "\<bar>?s * 1000\<bar> \<le> \<bar>v\<bar>" .
  qed
  have range: "- (2 ^ 63) \<le> v" "v < 2 ^ 63" using assms by (auto simp: in_range_def int64_t_def)
  have n: "NS_PER_MS = 1000000" by (simp add: tick_units sdiv_nonneg)
  have q: "(?r * 1000000 * 1000) sdiv 1000000000 = ?r" "(?r * 1000000) smod 1000000 = 0"
    using sdiv_cancel [of 1000000000 ?r] smod_cancel [of 1000000 ?r] by (simp_all add: mult.assoc)
  have s1: "int64 (?s * 1000) = Some (?s * 1000)"
  proof (cases "0 \<le> v")
    case True
    with s range show ?thesis by (intro int64_some; linarith)
  next
    case False
    then have "?s \<le> 0" by (simp add: signed_divide_int_def pos_imp_zdiv_nonneg_iff)
    then have "?s * 1000 \<le> 0" by simp
    with s range False show ?thesis by (intro int64_some; linarith)
  qed
  have s2: "int64 (?r * 1000000 * 1000) = Some (?r * 1000000 * 1000)"
  proof -
    have "- 1000 < ?r" "?r < 1000" using r by simp_all
    then show ?thesis by (simp add: int64_some)
  qed
  have s3: "div64 (?r * 1000000 * 1000) 1000000000 = Some ?r"
    using r q(1) int64_some [of ?r] by (simp add: div64_def)
  have s4: "int64 v = Some v" using range by (rule int64_some)
  have s5: "div64 1000000000 1000 = Some 1000000"
    by (simp add: div64_def sdiv_nonneg int64_some)
  have s6: "mod64 (?r * 1000000) 1000000 = Some 0" using q(2) by (simp add: mod64_def)
  have "ToTicks ?s (?r * 1000000) 1000000000 1000 = Some v"
    using s1 s2 s3 s4 s5 s6 v by (simp add: ToTicks_def sdiv_nonneg)
  then show ?thesis
    by (simp add: ToMilliseconds_timespec_def ToTicks_timespec_def util_ToTimespec_def n
        NS_PER_S_def MS_PER_S_def)
qed

text \<open>Milliseconds survive the way to a timespec and back, for every 64-bit value, negative ones included.\<close>

theorem timespec_roundtrip:
  assumes "in_range int64_t v"
  shows "ToMilliseconds_timespec (util_ToTimespec v) = Some v"
  using assms by (rule timespec_roundtrip_exact)

theorem timespec_roundtrip_witness:
  "ToMilliseconds_timespec (util_ToTimespec (- 1500)) = Some (- 1500) \<and>
   util_ToTimespec (- 1500) = \<lparr>tv_sec = - 1, tv_nsec = - 500000000\<rparr>"
proof
  show "ToMilliseconds_timespec (util_ToTimespec (- 1500)) = Some (- 1500)"
    by (rule timespec_roundtrip) (simp add: in_range_def int64_t_def)
  show "util_ToTimespec (- 1500) = \<lparr>tv_sec = - 1, tv_nsec = - 500000000\<rparr>"
    by (simp add: util_ToTimespec_def tick_units signed_divide_int_def signed_modulo_int_def)
qed

subsection \<open>Clocks\<close>

text \<open>A call of \<^verbatim>\<open>clock_gettime\<close> is its return value with the time it stored.  The static flag
  \<^verbatim>\<open>useRealtime\<close> is passed on; a failing monotonic clock has to fail with \<^verbatim>\<open>EINVAL\<close>.\<close>

definition CurrentTimeTicks :: "int \<times> timespec \<Rightarrow> int \<Rightarrow> int option" where
  "CurrentTimeTicks realtime ticksPerSec =
     (if fst realtime = 0 then ToTicks_timespec (snd realtime) ticksPerSec else None)"

definition MonotonicTimeTicks ::
    "bool \<Rightarrow> int \<times> timespec \<Rightarrow> bool \<Rightarrow> int \<times> timespec \<Rightarrow> int \<Rightarrow> (bool \<times> int) option" where
  "MonotonicTimeTicks useRealtime monotonic errno_is_EINVAL realtime ticksPerSec =
     (if useRealtime then map_option (Pair True) (CurrentTimeTicks realtime ticksPerSec)
      else if fst monotonic \<noteq> 0
      then if errno_is_EINVAL then map_option (Pair True) (CurrentTimeTicks realtime ticksPerSec)
           else None
      else map_option (Pair False) (ToTicks_timespec (snd monotonic) ticksPerSec))"

text \<open>Once the monotonic clock has failed it is not asked again.\<close>

lemma monotonic_failure_is_remembered:
  assumes "MonotonicTimeTicks False monotonic e realtime tps = Some (flag, r)" and "fst monotonic \<noteq> 0"
  shows "flag \<and> MonotonicTimeTicks flag monotonic' e' realtime tps = Some (True, r)"
  using assms by (auto simp: MonotonicTimeTicks_def split: if_splits)

subsection \<open>Waiting on a monitor\<close>

text \<open>The calls a wait makes on the system \<open>'w\<close>: \<^verbatim>\<open>pthread_mutex_trylock\<close> and \<^verbatim>\<open>pthread_mutex_unlock\<close>
  (\<^verbatim>\<open>Mutex::IsLocked\<close>), \<^verbatim>\<open>pthread_cond_wait\<close> and \<^verbatim>\<open>pthread_cond_timedwait\<close>.\<close>

record 'w monitor_calls =
  mutex_trylock :: "'w \<Rightarrow> int \<times> 'w"
  mutex_unlock :: "'w \<Rightarrow> int \<times> 'w"
  cond_wait :: "'w \<Rightarrow> int \<times> 'w"
  cond_timedwait :: "timespec \<Rightarrow> 'w \<Rightarrow> int \<times> 'w"

definition ETIMEDOUT :: int where "ETIMEDOUT = 110"
definition EPERM :: int where "EPERM = 1"

definition mutex_TryLock :: "'w monitor_calls \<Rightarrow> 'w \<Rightarrow> bool \<times> 'w" where
  "mutex_TryLock C w = (case mutex_trylock C w of (ret, w1) \<Rightarrow> (ret = 0, w1))"

definition mutex_Unlock :: "'w monitor_calls \<Rightarrow> 'w \<Rightarrow> 'w option" where
  "mutex_Unlock C w = (case mutex_unlock C w of (ret, w1) \<Rightarrow> if ret \<noteq> EPERM then Some w1 else None)"

definition mutex_IsLocked :: "'w monitor_calls \<Rightarrow> 'w \<Rightarrow> (bool \<times> 'w) option" where
  "mutex_IsLocked C w =
     (case mutex_TryLock C w of
        (locked, w1) \<Rightarrow> if locked then do { w2 \<leftarrow> mutex_Unlock C w1; Some (False, w2) } else Some (True, w1))"

text \<open>The asserts of the waits: the caller, or somebody, holds the mutex.\<close>

definition assert_locked :: "'w monitor_calls \<Rightarrow> 'w \<Rightarrow> 'w option" where
  "assert_locked C w = do { r \<leftarrow> mutex_IsLocked C w; if fst r then Some (snd r) else None }"

definition monitor_WaitForTime :: "'w monitor_calls \<Rightarrow> timespec \<Rightarrow> 'w \<Rightarrow> (int \<times> 'w) option" where
  "monitor_WaitForTime C abstime w = do { w1 \<leftarrow> assert_locked C w; Some (cond_timedwait C abstime w1) }"

definition monitor_WaitForever :: "'w monitor_calls \<Rightarrow> 'w \<Rightarrow> (int \<times> 'w) option" where
  "monitor_WaitForever C w = do { w1 \<leftarrow> assert_locked C w; Some (cond_wait C w1) }"

definition monitor_WaitForTimeRelative ::
    "'w monitor_calls \<Rightarrow> int \<times> timespec \<Rightarrow> int \<Rightarrow> 'w \<Rightarrow> (int \<times> 'w) option" where
  "monitor_WaitForTimeRelative C realtime timeout_ms w =
     (if timeout_ms = 0 then monitor_WaitForever C w
      else do { now \<leftarrow> CurrentTimeTicks realtime MS_PER_S;
                deadline \<leftarrow> int64 (now + timeout_ms);
                monitor_WaitForTime C (util_ToTimespec deadline) w })"

datatype wait_error = TimedOutException | TLibraryException string

definition monitor_Wait ::
    "'w monitor_calls \<Rightarrow> int \<times> timespec \<Rightarrow> int \<Rightarrow> 'w \<Rightarrow> ((wait_error + unit) \<times> 'w) option" where
  "monitor_Wait C realtime timeout_ms w =
     do { r \<leftarrow> monitor_WaitForTimeRelative C realtime timeout_ms w;
          Some (if fst r = ETIMEDOUT then Inl TimedOutException
                else if fst r \<noteq> 0
                then Inl (TLibraryException ''pthread_cond_wait() or pthread_cond_timedwait() failed'')
                else Inr (), snd r) }"

text \<open>A wait with a timeout passes the condition variable a deadline exactly that many milliseconds
  after the current time, rounded to milliseconds; its three outcomes are those of the system call.\<close>

theorem wait_deadline:
  assumes "timeout_ms \<noteq> 0" and "mutex_trylock C w = (ret, w1)" and "ret \<noteq> 0"
    and "ToMilliseconds_timespec now = Some ms" and "in_range int64_t (ms + timeout_ms)"
    and "cond_timedwait C (util_ToTimespec (ms + timeout_ms)) w1 = (e, w2)"
  shows "monitor_Wait C (0, now) timeout_ms w =
      Some (if e = 0 then Inr () else if e = ETIMEDOUT then Inl TimedOutException
            else Inl (TLibraryException ''pthread_cond_wait() or pthread_cond_timedwait() failed''), w2) \<and>
    ToMilliseconds_timespec (util_ToTimespec (ms + timeout_ms)) = Some (ms + timeout_ms)"
  using assms timespec_roundtrip_exact [OF assms(5)]
  by (simp add: monitor_Wait_def monitor_WaitForTimeRelative_def monitor_WaitForTime_def
      assert_locked_def mutex_IsLocked_def mutex_TryLock_def CurrentTimeTicks_def
      ToMilliseconds_timespec_def int64_def ETIMEDOUT_def)

text \<open>Waiting without holding the mutex ends the process.\<close>

lemma wait_unlocked:
  assumes "mutex_trylock C w = (0, w1)"
  shows "monitor_WaitForever C w = None" and "monitor_WaitForTime C abstime w = None"
  using assms
  by (simp_all add: monitor_WaitForever_def monitor_WaitForTime_def assert_locked_def
      mutex_IsLocked_def mutex_TryLock_def bind_eq_None_conv)

end
