(* ===== verification/Thread_Local.thy ===== *)
theory Thread_Local
  imports Prelude "HOL-Library.Multiset"
begin

text \<open>
  Thread-local objects: \<^verbatim>\<open>ThreadLocal\<close> of \<^verbatim>\<open>threading/thread_local.h\<close> with its three managers.

  Threads and objects have numbers.  The value of the pthread key is one object or the null pointer
  per thread; the header ignores a failure of \<^verbatim>\<open>pthread_setspecific\<close>, which an operation gets as the
  flag \<open>fails\<close>.  \<open>allocated\<close> counts the objects the manager has made, \<open>destroyed\<close> lists those it
  has deleted.
\<close>

subsection \<open>Managers and operations\<close>

datatype manager = DefaultThreadLocalManager | DestroyOnlyThreadLocalManager | NoopThreadLocalManager

record tls =
  slot :: "nat \<Rightarrow> nat option"
  allocated :: nat
  destroyed :: "nat list"

definition manager_allocate :: "manager \<Rightarrow> tls \<Rightarrow> nat option \<times> tls" where
  "manager_allocate m w =
     (if m = DefaultThreadLocalManager then (Some (allocated w), w\<lparr>allocated := allocated w + 1\<rparr>)
      else (None, w))"

definition delete_object :: "nat option \<Rightarrow> tls \<Rightarrow> tls" where
  "delete_object q w = (case q of None \<Rightarrow> w | Some p \<Rightarrow> w\<lparr>destroyed := destroyed w @ [p]\<rparr>)"

definition manager_destroy :: "manager \<Rightarrow> nat \<Rightarrow> tls \<Rightarrow> tls" where
  "manager_destroy m p w = (if m = NoopThreadLocalManager then w else delete_object (Some p) w)"

definition manager_replace :: "manager \<Rightarrow> nat option \<Rightarrow> nat option \<Rightarrow> tls \<Rightarrow> tls" where
  "manager_replace m oldObj newObj w =
     (if m = NoopThreadLocalManager then w
      else if oldObj \<noteq> newObj then delete_object oldObj w
      else w)"

definition setImpl :: "bool \<Rightarrow> nat \<Rightarrow> nat option \<Rightarrow> tls \<Rightarrow> tls" where
  "setImpl fails t q w = (if fails then w else w\<lparr>slot := (slot w)(t := q)\<rparr>)"

definition getNoAlloc :: "nat \<Rightarrow> tls \<Rightarrow> nat option" where
  "getNoAlloc t w = slot w t"

definition tl_get :: "manager \<Rightarrow> bool \<Rightarrow> nat \<Rightarrow> tls \<Rightarrow> nat option \<times> tls" where
  "tl_get m fails t w =
     (case getNoAlloc t w of
        Some p \<Rightarrow> (Some p, w)
      | None \<Rightarrow>
          (case manager_allocate m w of
             (Some p, w1) \<Rightarrow> (Some p, setImpl fails t (Some p) w1)
           | (None, w1) \<Rightarrow> (None, w1)))"

definition tl_set :: "manager \<Rightarrow> bool \<Rightarrow> nat \<Rightarrow> nat option \<Rightarrow> tls \<Rightarrow> tls" where
  "tl_set m fails t q w = setImpl fails t q (manager_replace m (getNoAlloc t w) q w)"

definition tl_clear :: "manager \<Rightarrow> bool \<Rightarrow> nat \<Rightarrow> tls \<Rightarrow> tls" where
  "tl_clear m fails t w =
     (case getNoAlloc t w of
        None \<Rightarrow> w
      | Some p \<Rightarrow> setImpl fails t None (manager_destroy m p w))"

text \<open>At the end of a thread the system sets its value to null and calls \<^verbatim>\<open>onThreadExit\<close> with the
  value it had, unless that was null.\<close>

definition onThreadExit :: "manager \<Rightarrow> nat option \<Rightarrow> tls \<Rightarrow> tls" where
  "onThreadExit m q w = (case q of None \<Rightarrow> w | Some p \<Rightarrow> manager_destroy m p w)"

definition thread_exit :: "manager \<Rightarrow> nat \<Rightarrow> tls \<Rightarrow> tls" where
  "thread_exit m t w = onThreadExit m (slot w t) (w\<lparr>slot := (slot w)(t := None)\<rparr>)"

text \<open>The destructor deletes the key: the values are lost, and nothing is destroyed.\<close>

definition key_delete :: "tls \<Rightarrow> tls" where
  "key_delete w = w\<lparr>slot := (\<lambda>t. None)\<rparr>"

datatype tl_op =
    Tl_get nat
  | Tl_set nat "nat option"
  | Tl_clear nat
  | Tl_exit nat

fun tl_exec :: "manager \<Rightarrow> bool \<Rightarrow> tl_op \<Rightarrow> tls \<Rightarrow> tls" where
  "tl_exec m fails (Tl_get t) w = snd (tl_get m fails t w)"
| "tl_exec m fails (Tl_set t q) w = tl_set m fails t q w"
| "tl_exec m fails (Tl_clear t) w = tl_clear m fails t w"
| "tl_exec m fails (Tl_exit t) w = thread_exit m t w"

definition tl_run :: "manager \<Rightarrow> tl_op list \<Rightarrow> tls \<Rightarrow> tls" where
  "tl_run m ops w = fold (tl_exec m False) ops w"


lemmas tl_code = tl_get_def tl_set_def tl_clear_def thread_exit_def onThreadExit_def setImpl_def
  getNoAlloc_def manager_allocate_def manager_destroy_def manager_replace_def delete_object_def

subsection \<open>Threads do not see each other\<close>

fun op_thread :: "tl_op \<Rightarrow> nat" where
  "op_thread (Tl_get t) = t"
| "op_thread (Tl_set t q) = t"
| "op_thread (Tl_clear t) = t"
| "op_thread (Tl_exit t) = t"

lemma tl_exec_other: "u \<noteq> op_thread op \<Longrightarrow> slot (tl_exec m fails op w) u = slot w u"
  by (cases op) (auto simp: tl_code split: option.split)

lemma tl_run_other: "\<forall>op\<in>set ops. op_thread op \<noteq> u \<Longrightarrow> slot (tl_run m ops w) u = slot w u"
  unfolding tl_run_def by (induction ops arbitrary: w) (simp_all add: tl_exec_other)

text \<open>What \<^verbatim>\<open>get\<close> returns it returns again, whatever other threads do in between.\<close>

theorem get_is_stable:
  assumes "tl_get m False t w = (q, w1)" and "\<forall>op\<in>set ops. op_thread op \<noteq> t" and "q \<noteq> None"
  shows "tl_get m fails t (tl_run m ops w1) = (q, tl_run m ops w1)"
proof -
  have "slot w1 t = q"
    using assms(1,3) by (auto simp: tl_get_def getNoAlloc_def manager_allocate_def setImpl_def split: option.splits if_splits)
  with tl_run_other [OF assms(2), of m w1] assms(3) show ?thesis
    by (auto simp: tl_get_def getNoAlloc_def)
qed

text \<open>If the value cannot be stored every call makes another object, and nobody destroys them.\<close>

lemma failed_store_leaks:
  assumes "slot w t = None"
  shows "fst (tl_get DefaultThreadLocalManager True t (snd (tl_get DefaultThreadLocalManager True t w)))
      \<noteq> fst (tl_get DefaultThreadLocalManager True t w)"
    and "slot (snd (tl_get DefaultThreadLocalManager True t w)) = slot w"
  using assms by (simp_all add: tl_code)

subsection \<open>Every object is in one place\<close>



definition held :: "nat option \<Rightarrow> nat multiset" where
  "held q = (case q of None \<Rightarrow> {#} | Some p \<Rightarrow> {#p#})"

definition in_slots :: "nat \<Rightarrow> tls \<Rightarrow> nat multiset" where
  "in_slots n w = (\<Sum>t<n. held (slot w t))"


lemma in_slots_other [simp]:
  "in_slots n (w\<lparr>allocated := a\<rparr>) = in_slots n w" "in_slots n (w\<lparr>destroyed := d\<rparr>) = in_slots n w"
  by (simp_all add: in_slots_def)

lemma slot_held_simps [simp]: "held None = {#}" "held (Some p) = {#p#}"
  by (simp_all add: held_def)






text \<open>The destructor of the ThreadLocal itself destroys nothing, as its comment warns: what the threads
  hold then is lost.\<close>

lemma key_delete_leaks:
  assumes "slot w t = Some p"
  shows "destroyed (key_delete w) = destroyed w" and "slot (key_delete w) t = None"
  by (simp_all add: key_delete_def)

end
