(* ===== verification/Thread_Factory.thy ===== *)
theory Thread_Factory
  imports Prelude "HOL-Library.Signed_Division"
begin

text \<open>
  The posix threads of \<^verbatim>\<open>threading/thread_factory.h\<close> and \<^verbatim>\<open>threading/thread_factory.cc\<close>: the thread
  object with its start, join and destruction, the set of live thread ids, and the factory.

  A call of the pthread library is a parameter of the operation that makes it: its return value and, for
  \<^verbatim>\<open>pthread_create\<close>, the id of the new thread.  The calls that create or join a thread are recorded
  as events.  An operation is None where the code has undefined behaviour or a failed assert; an
  exception is \<open>Inl\<close> its message.
\<close>

subsection \<open>Thread objects\<close>

datatype pthread_event = Created u64 | Joined u64

datatype thread_state = uninitialized | starting

record 'r pthread_thread =
  pthread :: u64
  thread_state :: thread_state
  policy :: int
  priority :: int
  stackSize :: int
  detached :: bool
  thread_name :: string
  runnable :: 'r

record 'r pthread_world =
  thread :: "'r pthread_thread"
  live_thread_ids :: "u64 set"
  events :: "pthread_event list"

record start_calls =
  attr_init :: int
  attr_setdetachstate :: int
  attr_setstacksize :: "int \<Rightarrow> int"
  create :: "int \<times> u64"

definition AddLiveThreadId :: "u64 \<Rightarrow> 'r pthread_world \<Rightarrow> 'r pthread_world" where
  "AddLiveThreadId tid w = w\<lparr>live_thread_ids := insert tid (live_thread_ids w)\<rparr>"

definition RemoveLiveThreadId :: "u64 \<Rightarrow> 'r pthread_world \<Rightarrow> 'r pthread_world" where
  "RemoveLiveThreadId tid w = w\<lparr>live_thread_ids := live_thread_ids w - {tid}\<rparr>"

definition GetLiveThreadIds :: "u64 set \<Rightarrow> 'r pthread_world \<Rightarrow> u64 set" where
  "GetLiveThreadIds tids w = tids \<union> live_thread_ids w"

definition PthreadThread :: "int \<Rightarrow> int \<Rightarrow> int \<Rightarrow> bool \<Rightarrow> 'r \<Rightarrow> 'r pthread_thread" where
  "PthreadThread pol prio stack det r =
     \<lparr>pthread = 0, thread_state = uninitialized, policy = pol, priority = prio, stackSize = stack,
      detached = det, thread_name = [], runnable = r\<rparr>"

definition UpdateName :: "(u64 \<Rightarrow> string \<Rightarrow> bool) \<Rightarrow> 'r pthread_thread \<Rightarrow> bool" where
  "UpdateName set_name p =
     (if pthread p = 0 \<or> thread_name p = [] then False else set_name (pthread p) (thread_name p))"

definition SetName :: "(u64 \<Rightarrow> string \<Rightarrow> bool) \<Rightarrow> string \<Rightarrow> 'r pthread_thread \<Rightarrow> bool \<times> 'r pthread_thread" where
  "SetName set_name n p = (let p' = p\<lparr>thread_name := n\<rparr> in (UpdateName set_name p', p'))"

definition MB :: int where
  "MB = 1024 * 1024"

text \<open>The state is set before the thread is created, whether or not that succeeds.  The stack size is an
  \<^verbatim>\<open>int\<close> product.\<close>

definition Start :: "start_calls \<Rightarrow> 'r pthread_world \<Rightarrow> ((string + unit) \<times> 'r pthread_world) option" where
  "Start c w =
     (if thread_state (thread w) \<noteq> uninitialized then Some (Inr (), w)
      else if attr_init c \<noteq> 0 then Some (Inl ''pthread_attr_init failed'', w)
      else if attr_setdetachstate c \<noteq> 0 then Some (Inl ''pthread_attr_setdetachstate failed'', w)
      else if \<not> (- (2 ^ 31) \<le> MB * stackSize (thread w) \<and> MB * stackSize (thread w) < 2 ^ 31) then None
      else if attr_setstacksize c (MB * stackSize (thread w)) \<noteq> 0
      then Some (Inl ''pthread_attr_setstacksize failed'', w)
      else
        let w1 = w\<lparr>thread := (thread w)\<lparr>thread_state := starting\<rparr>\<rparr> in
        if fst (create c) \<noteq> 0 then Some (Inl ''pthread_create failed'', w1)
        else let tid = snd (create c) in
             Some (Inr (), AddLiveThreadId tid
               (w1\<lparr>thread := (thread w1)\<lparr>pthread := tid\<rparr>, events := events w1 @ [Created tid]\<rparr>)))"

text \<open>\<open>res\<close> is what \<^verbatim>\<open>pthread_join\<close> returns if it is called.\<close>

definition Join :: "int \<Rightarrow> 'r pthread_world \<Rightarrow> 'r pthread_world" where
  "Join res w =
     (let p = thread w in
      if \<not> detached p \<and> thread_state p \<noteq> uninitialized
      then w\<lparr>thread := p\<lparr>detached := (res = 0)\<rparr>, events := events w @ [Joined (pthread p)]\<rparr>
      else w)"

definition destroy_thread :: "int \<Rightarrow> 'r pthread_world \<Rightarrow> 'r pthread_world" where
  "destroy_thread res w =
     (let w1 = (if \<not> detached (thread w) then Join res w else w) in
      RemoveLiveThreadId (pthread (thread w1)) w1)"

text \<open>The body of the new thread: the scheduling calls, whose failure is only logged, then the task.  A
  null object ends it at once.\<close>

definition SCHED_OTHER :: int where "SCHED_OTHER = 0"
definition SCHED_FIFO :: int where "SCHED_FIFO = 1"
definition SCHED_RR :: int where "SCHED_RR = 2"

datatype sched_call = pthread_setschedparam int int | setpriority int

definition ThreadMain :: "'r pthread_thread option \<Rightarrow> sched_call list \<times> 'r option" where
  "ThreadMain arg =
     (case arg of
        None \<Rightarrow> ([], None)
      | Some p \<Rightarrow>
          (if policy p = SCHED_FIFO \<or> policy p = SCHED_RR then [pthread_setschedparam (policy p) (priority p)]
           else if policy p = SCHED_OTHER then [setpriority (priority p)] else [],
           Some (runnable p)))"

subsection \<open>The factory\<close>

datatype POLICY = OTHER | FIFO | ROUND_ROBIN

datatype PRIORITY = LOWEST | LOWER | LOW | NORMAL | HIGH | HIGHER | HIGHEST | INCREMENT | DECREMENT

datatype DetachState = ATTACHED | DETACHED

fun PRIORITY_value :: "PRIORITY \<Rightarrow> int" where
  "PRIORITY_value LOWEST = 0"
| "PRIORITY_value LOWER = 1"
| "PRIORITY_value LOW = 2"
| "PRIORITY_value NORMAL = 3"
| "PRIORITY_value HIGH = 4"
| "PRIORITY_value HIGHER = 5"
| "PRIORITY_value HIGHEST = 6"
| "PRIORITY_value INCREMENT = 7"
| "PRIORITY_value DECREMENT = 8"

fun ToPthreadPolicy :: "POLICY \<Rightarrow> int" where
  "ToPthreadPolicy OTHER = SCHED_OTHER"
| "ToPthreadPolicy FIFO = SCHED_FIFO"
| "ToPthreadPolicy ROUND_ROBIN = SCHED_RR"

text \<open>\<open>prio_range\<close> stands for \<^verbatim>\<open>sched_get_priority_min\<close> and \<^verbatim>\<open>sched_get_priority_max\<close>.  The scale is
  computed on quotients of integers and truncated at the end; for \<^verbatim>\<open>SCHED_OTHER\<close>, whose step is \<open>-6.5\<close>, the
  single precision arithmetic of the code is exact.\<close>

definition ToPthreadPriority :: "(int \<Rightarrow> int \<times> int) \<Rightarrow> POLICY \<Rightarrow> PRIORITY \<Rightarrow> int option" where
  "ToPthreadPriority prio_range pol prio =
     (let pthread_policy = ToPthreadPolicy pol;
          (min_priority, max_priority) =
            (if pthread_policy = SCHED_FIFO \<or> pthread_policy = SCHED_RR then prio_range pthread_policy
             else if pthread_policy = SCHED_OTHER then (19, - 20) else (0, 0));
          quanta = PRIORITY_value HIGHEST - PRIORITY_value LOWEST
      in if PRIORITY_value prio \<le> PRIORITY_value HIGHEST
         then Some ((min_priority * quanta + (max_priority - min_priority) * PRIORITY_value prio) sdiv quanta)
         else None)"

record factory =
  fac_policy :: POLICY
  fac_priority :: PRIORITY
  fac_stackSize :: int
  fac_detached :: DetachState

definition PosixThreadFactory :: "POLICY \<Rightarrow> PRIORITY \<Rightarrow> int \<Rightarrow> bool \<Rightarrow> factory" where
  "PosixThreadFactory pol prio stack det =
     \<lparr>fac_policy = pol, fac_priority = prio, fac_stackSize = stack, fac_detached = (if det then DETACHED else ATTACHED)\<rparr>"

definition PosixThreadFactory_detach :: "DetachState \<Rightarrow> factory" where
  "PosixThreadFactory_detach det =
     \<lparr>fac_policy = OTHER, fac_priority = NORMAL, fac_stackSize = 1, fac_detached = det\<rparr>"

definition Impl_NewThread ::
    "(int \<Rightarrow> int \<times> int) \<Rightarrow> 'r \<Rightarrow> DetachState \<Rightarrow> factory \<Rightarrow> 'r pthread_thread option" where
  "Impl_NewThread prio_range r det f =
     map_option
       (\<lambda>prio. PthreadThread (ToPthreadPolicy (fac_policy f)) prio (fac_stackSize f) (det = DETACHED) r)
       (ToPthreadPriority prio_range (fac_policy f) (fac_priority f))"

definition NewThread :: "(int \<Rightarrow> int \<times> int) \<Rightarrow> 'r \<Rightarrow> factory \<Rightarrow> 'r pthread_thread option" where
  "NewThread prio_range r f = Impl_NewThread prio_range r (fac_detached f) f"

definition NewThread_detach ::
    "(int \<Rightarrow> int \<times> int) \<Rightarrow> 'r \<Rightarrow> DetachState \<Rightarrow> factory \<Rightarrow> 'r pthread_thread option" where
  "NewThread_detach prio_range r det f = Impl_NewThread prio_range r det f"

definition SetStackSize :: "int \<Rightarrow> factory \<Rightarrow> factory" where
  "SetStackSize v f = f\<lparr>fac_stackSize := v\<rparr>"

definition SetPriority :: "PRIORITY \<Rightarrow> factory \<Rightarrow> factory" where
  "SetPriority v f = f\<lparr>fac_priority := v\<rparr>"

definition SetDetached :: "bool \<Rightarrow> factory \<Rightarrow> factory" where
  "SetDetached v f = f\<lparr>fac_detached := (if v then DETACHED else ATTACHED)\<rparr>"

definition IsDetached :: "factory \<Rightarrow> bool" where
  "IsDetached f = (fac_detached f = DETACHED)"

subsection \<open>The life of a thread\<close>

datatype thread_op = Op_start start_calls | Op_join int | Op_name string

fun thread_run ::
    "(u64 \<Rightarrow> string \<Rightarrow> bool) \<Rightarrow> thread_op list \<Rightarrow> 'r pthread_world \<Rightarrow> 'r pthread_world option" where
  "thread_run set_name [] w = Some w"
| "thread_run set_name (Op_start c # ops) w =
     do { r \<leftarrow> Start c w; thread_run set_name ops (snd r) }"
| "thread_run set_name (Op_join res # ops) w = thread_run set_name ops (Join res w)"
| "thread_run set_name (Op_name n # ops) w =
     thread_run set_name ops (w\<lparr>thread := snd (SetName set_name n (thread w))\<rparr>)"

definition new_world :: "'r pthread_thread \<Rightarrow> u64 set \<Rightarrow> 'r pthread_world" where
  "new_world p L = \<lparr>thread = p, live_thread_ids = L, events = []\<rparr>"

text \<open>What holds between the calls, for an object created with the flag \<open>det\<close> when the ids \<open>L\<close> were
  live.\<close>

definition life :: "bool \<Rightarrow> u64 set \<Rightarrow> 'r pthread_world \<Rightarrow> bool" where
  "life det L w \<longleftrightarrow>
     (let p = thread w; tid = pthread p in
      if thread_state p = uninitialized
      then tid = 0 \<and> detached p = det \<and> events w = [] \<and> live_thread_ids w = L
      else live_thread_ids w = insert tid L \<and>
        (if det then detached p \<and> events w = [Created tid]
         else events w = Created tid # (if detached p then [Joined tid] else [])))"

text \<open>The calls that create threads succeed, and so do those that join them.\<close>

fun op_ok :: "thread_op \<Rightarrow> bool" where
  "op_ok (Op_start c) = (fst (create c) = 0)"
| "op_ok (Op_join res) = (res = 0)"
| "op_ok (Op_name n) = True"

lemma Start_life:
  assumes "life det L w" and "fst (create c) = 0" and "Start c w = Some (r, w')"
  shows "life det L w'"
proof (cases "thread_state (thread w) = uninitialized")
  case False
  with assms show ?thesis by (simp add: Start_def)
next
  case True
  with assms(1) have l: "detached (thread w) = det" "events w = []" "live_thread_ids w = L"
    by (simp_all add: life_def Let_def)
  from True assms(2,3) have "w' = w \<or> w' = AddLiveThreadId (snd (create c))
      (w\<lparr>thread := (thread w)\<lparr>thread_state := starting, pthread := snd (create c)\<rparr>,
         events := events w @ [Created (snd (create c))]\<rparr>)"
    by (auto simp: Start_def Let_def split: if_splits)
  then show ?thesis
  proof
    assume "w' = w"
    with assms(1) show ?thesis by simp
  qed (simp add: l life_def AddLiveThreadId_def Let_def)
qed

lemma Join_life: "life det L w \<Longrightarrow> life det L (Join 0 w)"
  by (auto simp: Join_def life_def Let_def split: if_splits)

lemma SetName_life: "life det L w \<Longrightarrow> life det L (w\<lparr>thread := snd (SetName set_name n (thread w))\<rparr>)"
  by (auto simp: SetName_def life_def Let_def split: if_splits)

lemma thread_run_life:
  "life det L w \<Longrightarrow> \<forall>op\<in>set ops. op_ok op \<Longrightarrow> thread_run set_name ops w = Some w' \<Longrightarrow> life det L w'"
proof (induction set_name ops w rule: thread_run.induct)
  case (2 set_name c ops w)
  then obtain r w1 where s: "Start c w = Some (r, w1)" "thread_run set_name ops w1 = Some w'"
    by (auto simp: bind_eq_Some_conv)
  then have "life det L w1" using 2 by (auto intro: Start_life)
  with 2 s show ?case by auto
next
  case (3 set_name res ops w)
  then show ?case by (auto intro: Join_life)
next
  case (4 set_name n ops w)
  then show ?case by (auto intro: SetName_life)
qed simp

text \<open>C21: Whatever is called on a thread object, in any order and any number of times, until it is destroyed: if
  creating and joining threads succeeds, an object that was started has created exactly one thread, and if it was
  not created detached that thread has been joined exactly once, after its creation; an object that was not started
  has created and joined nothing. The set of live ids is then what it was before.\<close>

theorem thread_lifecycle:
  assumes "\<forall>op\<in>set ops. op_ok op"
    and "thread_run set_name ops (new_world (PthreadThread pol prio stack det r) L) = Some w"
    and "0 \<notin> L" and "pthread (thread w) \<notin> L"
  shows "events (destroy_thread 0 w) =
      (if thread_state (thread w) = uninitialized then []
       else Created (pthread (thread w)) # (if det then [] else [Joined (pthread (thread w))])) \<and>
    live_thread_ids (destroy_thread 0 w) = L"
proof -
  have "life det L (new_world (PthreadThread pol prio stack det r) L)"
    by (simp add: life_def new_world_def PthreadThread_def)
  from thread_run_life [OF this assms(1,2)] have "life det L w" .
  with assms(3,4) show ?thesis
    by (auto simp: life_def destroy_thread_def Join_def RemoveLiveThreadId_def Let_def split: if_splits)
qed

definition good_calls :: "u64 \<Rightarrow> start_calls" where
  "good_calls tid = \<lparr>attr_init = 0, attr_setdetachstate = 0, attr_setstacksize = (\<lambda>n. 0), create = (0, tid)\<rparr>"

theorem thread_lifecycle_witness:
  "\<exists>w. thread_run (\<lambda>i n. True)
        [Op_name ''worker'', Op_join 0, Op_start (good_calls 9), Op_start (good_calls 10), Op_join 0, Op_join 0]
        (new_world (PthreadThread 0 0 1 False ()) {4}) = Some w \<and>
     events (destroy_thread 0 w) = [Created 9, Joined 9] \<and> live_thread_ids (destroy_thread 0 w) = {4}"
proof -
  let ?ops = "[Op_name ''worker'', Op_join 0, Op_start (good_calls 9), Op_start (good_calls 10), Op_join 0, Op_join 0]"
  let ?w = "\<lparr>thread = (PthreadThread 0 0 1 True ())\<lparr>pthread := 9, thread_state := starting, thread_name := ''worker''\<rparr>,
    live_thread_ids = {9, 4}, events = [Created 9, Joined 9]\<rparr>"
  have r: "thread_run (\<lambda>i n. True) ?ops (new_world (PthreadThread 0 0 1 False ()) {4}) = Some ?w"
    by (simp add: good_calls_def new_world_def PthreadThread_def Start_def Join_def SetName_def Let_def
        MB_def AddLiveThreadId_def)
  have "\<forall>op\<in>set ?ops. op_ok op" by (simp add: good_calls_def)
  from thread_lifecycle [OF this r] r show ?thesis by (simp add: PthreadThread_def)
qed

text \<open>If creating the thread fails the object counts as started: a second start does nothing, and the
  destructor of an object that is not detached joins the thread id 0, which no thread has.\<close>

theorem failed_create_is_final:
  assumes "Start c w = Some (Inl ''pthread_create failed'', w')" and "thread_state (thread w) = uninitialized"
  shows "Start c' w' = Some (Inr (), w') \<and>
    (\<not> detached (thread w) \<longrightarrow> events (destroy_thread res w') = events w @ [Joined (pthread (thread w))])"
  using assms
  by (auto simp: Start_def destroy_thread_def Join_def RemoveLiveThreadId_def Let_def split: if_splits)

text \<open>Thread ids are used again once a detached thread has ended.  Destroying the object of the ended
  thread then takes the id of the running one out of the set.\<close>

lemma reused_id_is_removed:
  assumes "detached p" and "pthread p = tid" and "tid \<in> live_thread_ids w"
  shows "tid \<notin> live_thread_ids (destroy_thread res (w\<lparr>thread := p\<rparr>))"
  using assms by (simp add: destroy_thread_def RemoveLiveThreadId_def)

subsection \<open>What the factory makes\<close>

text \<open>The nice values of the default policy, from the lowest priority to the highest; the half steps are
  truncated towards 0.\<close>

lemma nice_values:
  "map (ToPthreadPriority prio_range OTHER) [LOWEST, LOWER, LOW, NORMAL, HIGH, HIGHER, HIGHEST] =
    map Some [19, 12, 6, 0, - 7, - 13, - 20]"
  by (simp add: ToPthreadPriority_def SCHED_OTHER_def SCHED_FIFO_def SCHED_RR_def signed_divide_int_def)

lemma relative_priorities_refused:
  "ToPthreadPriority prio_range pol INCREMENT = None" "ToPthreadPriority prio_range pol DECREMENT = None"
  by (simp_all add: ToPthreadPriority_def Let_def case_prod_beta)

text \<open>In a real-time policy the priorities lie in the range of the system, in their order.\<close>

lemma realtime_priorities:
  assumes "pol = FIFO \<or> pol = ROUND_ROBIN" and "prio_range (ToPthreadPolicy pol) = (lo, hi)"
    and "0 \<le> lo" and "lo \<le> hi"
    and "ToPthreadPriority prio_range pol p = Some v" and "ToPthreadPriority prio_range pol q = Some u"
    and "PRIORITY_value p \<le> PRIORITY_value q"
  shows "lo \<le> v \<and> v \<le> u \<and> u \<le> hi"
proof -
  have val: "ToPthreadPriority prio_range pol p =
      (if PRIORITY_value p \<le> 6 then Some ((lo * 6 + (hi - lo) * PRIORITY_value p) div 6) else None)" for p
  proof -
    have "0 \<le> PRIORITY_value p" by (cases p) simp_all
    then have "0 \<le> lo * 6 + (hi - lo) * PRIORITY_value p" using assms(3,4) by simp
    then have "(lo * 6 + (hi - lo) * PRIORITY_value p) sdiv 6 = (lo * 6 + (hi - lo) * PRIORITY_value p) div 6"
      by (cases "lo * 6 + (hi - lo) * PRIORITY_value p = 0") (simp_all add: signed_divide_int_def)
    then show ?thesis using assms(1,2)
      by (auto simp: ToPthreadPriority_def SCHED_FIFO_def SCHED_RR_def Let_def)
  qed
  have pq: "PRIORITY_value p \<le> 6" "PRIORITY_value q \<le> 6"
    and v: "v = (lo * 6 + (hi - lo) * PRIORITY_value p) div 6" "u = (lo * 6 + (hi - lo) * PRIORITY_value q) div 6"
    using assms(5,6) by (auto simp: val split: if_splits)
  have "0 \<le> PRIORITY_value p" by (cases p) simp_all
  then have a: "0 \<le> (hi - lo) * PRIORITY_value p" using assms(4) by simp
  have b: "(hi - lo) * PRIORITY_value p \<le> (hi - lo) * PRIORITY_value q"
    using assms(4,7) by (intro mult_left_mono) auto
  have c: "(hi - lo) * PRIORITY_value q \<le> (hi - lo) * 6"
    using assms(4) pq by (intro mult_left_mono) auto
  show ?thesis unfolding v using a b c by (intro conjI; linarith?) (auto intro: zdiv_mono1)
qed

text \<open>A thread of the factory takes its policy, stack size and detach state from it.\<close>

lemma NewThread_fields:
  assumes "NewThread prio_range r f = Some p"
  shows "detached p = IsDetached f \<and> policy p = ToPthreadPolicy (fac_policy f) \<and> stackSize p = fac_stackSize f \<and>
    thread_state p = uninitialized \<and> snd (ThreadMain (Some p)) = Some r"
  using assms
  by (auto simp: NewThread_def Impl_NewThread_def PthreadThread_def IsDetached_def ThreadMain_def)

end
