(* ===== verification/String_Printf.thy ===== *)
theory String_Printf
  imports Prelude
begin

text \<open>
  Formatted output into strings: \<^verbatim>\<open>base/string_printf.h\<close> and \<^verbatim>\<open>base/string_printf.cc\<close>.

  The formatting itself is the C library's \<^verbatim>\<open>vsnprintf\<close>, a parameter: for a buffer size it gives its
  return value and the characters it left in the buffer.  \<open>formats vs out\<close> is what the C standard says
  of a call that formats \<open>out\<close>: the return value is the whole length, and the buffer holds as much of
  the text as leaves room for the terminating zero.  None is undefined behaviour: a signed overflow, or a
  write beyond an array.
\<close>

type_synonym vsnprintf = "nat \<Rightarrow> int \<times> string"

definition kSpaceLength :: int where
  "kSpaceLength = 1024"

definition StringAppendV :: "vsnprintf \<Rightarrow> string \<Rightarrow> string option" where
  "StringAppendV vs dst =
     (case vs (nat kSpaceLength) of
        (result, space) \<Rightarrow>
          if result < kSpaceLength
          then if result \<ge> 0 then Some (dst @ take (nat result) space) else Some dst
          else if result + 1 \<ge> 2 ^ 31 then None
          else
            (let length' = result + 1 in
             case vs (nat length') of
               (result', buf) \<Rightarrow>
                 if result' \<ge> 0 \<and> result' < length' then Some (dst @ take (nat result') buf)
                 else Some dst))"

definition StringPrintf :: "vsnprintf \<Rightarrow> string option" where
  "StringPrintf vs = StringAppendV vs []"

text \<open>The destination is emptied before the arguments are formatted; an argument that points into it is
  part of \<open>vs\<close>.\<close>

definition SStringPrintf :: "vsnprintf \<Rightarrow> string \<Rightarrow> string option" where
  "SStringPrintf vs dst = StringAppendV vs []"

definition StringAppendF :: "vsnprintf \<Rightarrow> string \<Rightarrow> string option" where
  "StringAppendF vs dst = StringAppendV vs dst"

text \<open>The array of 32 argument pointers; \<^verbatim>\<open>c_str\<close> ends an argument at its first zero.  The loop over the
  vector writes to the array without a check.\<close>

definition kStringPrintfVectorMaxArgs :: nat where
  "kStringPrintfVectorMaxArgs = 32"

definition c_string :: "string \<Rightarrow> string" where
  "c_string s = takeWhile (\<lambda>c. c \<noteq> CHR 0x00) s"

fun store_args :: "nat \<Rightarrow> string list \<Rightarrow> string list \<Rightarrow> string list option" where
  "store_args i [] cstr = Some cstr"
| "store_args i (s # v) cstr =
     (if i < length cstr then store_args (Suc i) v (cstr[i := c_string s]) else None)"

definition StringPrintfVector :: "(string list \<Rightarrow> vsnprintf) \<Rightarrow> string list \<Rightarrow> string option" where
  "StringPrintfVector format v =
     do { cstr \<leftarrow> store_args 0 v (replicate kStringPrintfVectorMaxArgs []);
          StringPrintf (format cstr) }"

subsection \<open>The result is the formatted text\<close>

definition formats :: "vsnprintf \<Rightarrow> string \<Rightarrow> bool" where
  "formats vs out \<longleftrightarrow> (\<forall>n. 0 < n \<longrightarrow> vs n = (int (length out), take (n - 1) out))"

lemma formatted_appended:
  assumes "formats vs out" and "length out < 2 ^ 31 - 1"
  shows "StringAppendV vs dst = Some (dst @ out)"
proof -
  from assms(1) have f: "vs n = (int (length out), take (n - 1) out)" if "0 < n" for n
    using that by (simp add: formats_def)
  show ?thesis
  proof (cases "length out < 1024")
    case True
    with f [of 1024] show ?thesis by (simp add: StringAppendV_def kSpaceLength_def)
  next
    case False
    have "nat (int (length out) + 1) = length out + 1" by linarith
    with False f [of 1024] f [of "length out + 1"] assms(2) show ?thesis
      by (simp add: StringAppendV_def kSpaceLength_def Let_def)
  qed
qed

text \<open>Formatting appends the whole text, whether it fits into the 1024 characters on the stack or needs the
  second buffer, for every text shorter than the largest int; a format the library refuses appends nothing.\<close>

theorem printf_appends:
  assumes "if ok then formats vs out else vs 1024 = (- 1, junk)" and "length out < 2 ^ 31 - 1"
  shows "StringAppendV vs dst = Some (dst @ (if ok then out else []))"
  using assms formatted_appended [of vs out dst]
  by (cases ok) (simp_all add: StringAppendV_def kSpaceLength_def)

text \<open>The library that formats a fixed text of two thousand characters.\<close>

definition print_text :: "string \<Rightarrow> vsnprintf" where
  "print_text out = (\<lambda>n. (int (length out), take (n - 1) out))"

lemma print_text_formats: "formats (print_text out) out"
  by (simp add: formats_def print_text_def)

theorem printf_appends_witness:
  "StringAppendV (print_text (replicate 2000 (CHR ''x''))) ''log: '' = Some (''log: '' @ replicate 2000 (CHR ''x''))"
  using printf_appends [of True "print_text (replicate 2000 (CHR ''x''))" "replicate 2000 (CHR ''x'')" "[]" "''log: ''"]
    print_text_formats by simp

lemma store_args_fits:
  "i + length v \<le> length cstr \<Longrightarrow>
    store_args i v cstr = Some (take i cstr @ map c_string v @ drop (i + length v) cstr)"
proof (induction v arbitrary: i cstr)
  case (Cons s v)
  then have i: "i < length cstr" by simp
  have "store_args i (s # v) cstr =
      Some (take (Suc i) (cstr[i := c_string s]) @ map c_string v @ drop (Suc i + length v) (cstr[i := c_string s]))"
    using i Cons.prems by (simp add: Cons.IH)
  also have "take (Suc i) (cstr[i := c_string s]) = take i cstr @ [c_string s]"
    using i by (simp add: take_Suc_conv_app_nth)
  finally show ?case using i by simp
qed simp

lemma store_args_overflow:
  "length cstr < i + length v \<Longrightarrow> i \<le> length cstr \<Longrightarrow> store_args i v cstr = None"
proof (induction v arbitrary: i cstr)
  case (Cons s v)
  then show ?case by (cases "i < length cstr") auto
qed simp

text \<open>At most 32 strings are formatted, the missing ones as empty; one more is written beyond the
  array.\<close>

theorem printf_vector:
  assumes "formats (format (map c_string v @ replicate (32 - length v) [])) out" and "length out < 2 ^ 31 - 1"
  shows "StringPrintfVector format v = (if length v \<le> 32 then Some out else None)"
proof (cases "length v \<le> 32")
  case True
  then have "store_args 0 v (replicate 32 []) = Some (map c_string v @ replicate (32 - length v) [])"
    by (subst store_args_fits) simp_all
  moreover have "StringAppendV (format (map c_string v @ replicate (32 - length v) [])) [] = Some out"
  proof -
    have "formats vs out \<Longrightarrow> StringAppendV vs [] = Some out" for vs
      using assms(2) formatted_appended by simp
    with assms(1) show ?thesis by simp
  qed
  ultimately show ?thesis
    using True by (simp add: StringPrintfVector_def StringPrintf_def kStringPrintfVectorMaxArgs_def)
next
  case False
  then have "store_args 0 v (replicate 32 []) = None" by (intro store_args_overflow) simp_all
  with False show ?thesis by (simp add: StringPrintfVector_def kStringPrintfVectorMaxArgs_def)
qed

end
