(* ===== verification/Mysql_Connection.thy ===== *)
theory Mysql_Connection
  imports Conn_Info String_Printf
begin

text \<open>
  Opening a connection: the constructor of \<^verbatim>\<open>MysqlConnection\<close> and its \<^verbatim>\<open>Escape\<close>
  (\<^verbatim>\<open>db/drivers/mysql/mysql_connection.h\<close> and \<^verbatim>\<open>.cc\<close>).

  The constructor turns the properties of the connection string into calls of the MySQL client library,
  which are recorded.  A call that fails ends the process: \<open>accepts\<close> says which calls succeed.  A
  \<^verbatim>\<open>char const*\<close> argument is a text up to its first zero, or the null pointer.
\<close>

subsection \<open>The calls\<close>

datatype mysql_call =
    Mysql_opt_read_timeout u32
  | Mysql_opt_reconnect "8 word"
  | Mysql_opt_write_timeout u32
  | Mysql_set_charset_name string
  | Mysql_real_connect "string option" "string option" "string option" "string option" u32 "string option"





text \<open>\<^verbatim>\<open>mysql_real_escape_string\<close> is given by its return value and the buffer it filled; the buffer of the code
  has room for twice the text and a zero.\<close>

definition Escape :: "(string \<Rightarrow> nat \<times> string) \<Rightarrow> string \<Rightarrow> string option" where
  "Escape escape_string s =
     (case escape_string s of
        (len, buf) \<Rightarrow> if len \<le> 2 * length s + 1 then Some (take len buf) else None)"

definition Escape_c_str :: "(string \<Rightarrow> nat \<times> string) \<Rightarrow> string \<Rightarrow> string option" where
  "Escape_c_str escape_string str = Escape escape_string (c_string str)"

subsection \<open>From the connection string to the server\<close>

text \<open>What the properties mean.\<close>

definition number_call :: "(string \<rightharpoonup> string) \<Rightarrow> string \<Rightarrow> (u32 \<Rightarrow> mysql_call) \<Rightarrow> mysql_call list" where
  "number_call props key call =
     (case props key of
        None \<Rightarrow> []
      | Some s \<Rightarrow> let v = (word_of_int (the (istream_int s)) :: u32) in if v = 0 then [] else [call v])"














text \<open>\<^verbatim>\<open>my_bool\<close> has 8 bits: a number that is a multiple of 256 switches reconnecting off although it is
  not 0.\<close>

lemma reconnect_truncated:
  "number_call [''opt_reconnect'' \<mapsto> s] ''opt_reconnect'' (\<lambda>v. Mysql_opt_reconnect (ucast v)) =
    [Mysql_opt_reconnect 0]" if "istream_int s = Some 256"
  using that by (simp add: number_call_def)

subsection \<open>Escaping\<close>

text \<open>With a library that keeps within twice the length, the result is what it wrote; the overloads differ only
  on texts with a zero inside.\<close>

lemma Escape_result:
  assumes "escape_string s = (length out, out @ junk)" and "length out \<le> 2 * length s"
  shows "Escape escape_string s = Some out"
  using assms by (simp add: Escape_def)

lemma Escape_c_str_whole: "CHR 0x00 \<notin> set s \<Longrightarrow> Escape_c_str escape_string s = Escape escape_string s"
proof -
  assume "CHR 0x00 \<notin> set s"
  then have "c_string s = s" by (auto simp: c_string_def takeWhile_eq_all_conv)
  then show ?thesis by (simp add: Escape_c_str_def)
qed

end
