(* ===== verification/Double_Range.thy ===== *)
theory Double_Range
  imports Prelude
begin

text \<open>
  The parser of ranges of numbers in \<^verbatim>\<open>base/numbers.cc\<close>: \<^verbatim>\<open>ParseDoubleRange\<close> with its two helpers, and the
  strict conversions \<^verbatim>\<open>safe_strtof\<close> and \<^verbatim>\<open>safe_strtod\<close>.

  The text is a C string, a list of characters with a zero behind them, of which either everything
  (\<open>len = -1\<close>) or the first \<open>len\<close> characters are looked at; the pointer into it is a position.  Floating point
  numbers are the type \<open>'d\<close>; \<^verbatim>\<open>strtod\<close> is a parameter that gives the value and how many characters it
  took, 0 if there is no number.  A failed assert is None.
\<close>

type_synonym 'd strtod = "string \<Rightarrow> 'd \<times> nat"

type_synonym cursor = "nat \<times> int"

abbreviation NUL :: char where "NUL \<equiv> CHR 0x00"

definition char_at :: "string \<Rightarrow> nat \<Rightarrow> char" where
  "char_at s p = (if p < length s then s ! p else NUL)"

subsection \<open>Eating characters and numbers\<close>

definition EatAChar :: "string \<Rightarrow> string \<Rightarrow> bool \<Rightarrow> bool \<Rightarrow> cursor \<Rightarrow> char \<times> cursor" where
  "EatAChar s acceptable_chars update null_ok cur =
     (case cur of
        (text, len) \<Rightarrow>
          if len = 0 \<or> char_at s text = NUL then (if null_ok then CHR 0x01 else NUL, cur)
          else if char_at s text \<in> set acceptable_chars
          then (char_at s text, if update then (text + 1, if len \<noteq> - 1 then len - 1 else len) else cur)
          else (NUL, cur))"

text \<open>The rest of the text that \<^verbatim>\<open>strtod\<close> gets: up to the terminating zero, or a copy of \<open>rem\<close>
  characters.\<close>

definition number_text :: "string \<Rightarrow> nat \<Rightarrow> int \<Rightarrow> string" where
  "number_text s pos rem = (if rem = - 1 then drop pos s else take (nat rem) (drop pos s))"

text \<open>The result: success, the new cursor, the value if one was stored, and the two flags, which are only
  written if they are asked for.\<close>

record 'd eaten =
  eaten_ok :: bool
  eaten_cursor :: cursor
  eaten_val :: "'d option"
  eaten_minus :: bool
  eaten_period :: bool

definition not_eaten :: "cursor \<Rightarrow> bool \<Rightarrow> 'd eaten" where
  "not_eaten cur neg =
     \<lparr>eaten_ok = False, eaten_cursor = cur, eaten_val = None, eaten_minus = neg, eaten_period = False\<rparr>"

text \<open>The second half, from the sign on: \<open>pos\<close> and \<open>rem\<close> are the cursor behind a minus that was eaten.\<close>

definition eat_number ::
    "'d strtod \<Rightarrow> string \<Rightarrow> bool \<Rightarrow> bool \<Rightarrow> cursor \<Rightarrow> nat \<Rightarrow> int \<Rightarrow> 'd eaten" where
  "eat_number strtod s final_period neg cur pos rem =
     (if char_at s pos \<notin> set (NUL # ''-+.0123456789'') then not_eaten cur neg
      else case strtod (number_text s pos rem) of
        (retval, taken) \<Rightarrow>
          if taken = 0 then not_eaten cur neg
          else
            let period = (final_period \<and> char_at s (pos + taken - 1) = CHR ''.'');
                end' = (if period then pos + taken - 1 else pos + taken) in
            \<lparr>eaten_ok = True,
             eaten_cursor = (end', if rem \<noteq> - 1 then rem - (int end' - int pos) else snd cur),
             eaten_val = Some retval, eaten_minus = neg, eaten_period = period\<rparr>)"

definition EatADouble ::
    "'d strtod \<Rightarrow> string \<Rightarrow> bool \<Rightarrow> bool \<Rightarrow> bool \<Rightarrow> cursor \<Rightarrow> 'd eaten" where
  "EatADouble strtod s allow_question initial_minus final_period cur =
     (case cur of
        (text, len) \<Rightarrow>
          if len = 0 then not_eaten cur False
          else if allow_question \<and> char_at s text = CHR ''?''
          then \<lparr>eaten_ok = True, eaten_cursor = (text + 1, if len \<noteq> - 1 then len - 1 else len),
                 eaten_val = None, eaten_minus = False, eaten_period = False\<rparr>
          else if initial_minus \<and> char_at s text = CHR ''-''
          then if len = 1 then not_eaten cur True
               else eat_number strtod s final_period True cur (text + 1) (if len \<noteq> - 1 then len - 1 else len)
          else eat_number strtod s final_period False cur text len)"

definition stored :: "'d \<Rightarrow> 'd eaten \<Rightarrow> 'd" where
  "stored old e = (case eaten_val e of None \<Rightarrow> old | Some v \<Rightarrow> v)"

text \<open>\<^verbatim>\<open>--text\<close> and its \<^verbatim>\<open>++len\<close>.\<close>

definition step_back :: "cursor \<Rightarrow> cursor" where
  "step_back cur = (case cur of (text, len) \<Rightarrow> (text - 1, if len \<noteq> - 1 then len + 1 else len))"

subsection \<open>Ranges\<close>

record DoubleRangeOptions =
  separators :: string
  require_separator :: bool
  acceptable_terminators :: string
  null_terminator_ok :: bool
  allow_unbounded_markers :: bool
  num_required_bounds :: int
  dont_modify_unbounded :: bool
  allow_currency :: bool
  allow_comparators :: bool

text \<open>The output variables with the returned character, of which only whether it is zero matters; \<open>end\<close> is
  None until it is written.\<close>

record 'd range_result =
  range_from :: 'd
  range_to :: 'd
  is_currency :: bool
  range_end :: "int option"
  returned :: char

text \<open>The first part: a comparator and one bound.\<close>

definition parse_comparator ::
    "'d strtod \<Rightarrow> string \<Rightarrow> DoubleRangeOptions \<Rightarrow> char \<Rightarrow> cursor \<Rightarrow> 'd range_result \<Rightarrow> 'd range_result" where
  "parse_comparator strtod s opts comparator cur out =
     (let cur1 = snd (EatAChar s ''='' True False cur);
          (dollar, cur2) = (if allow_currency opts then EatAChar s ''$'' True False cur1 else (NUL, cur1));
          out1 = (if dollar \<noteq> NUL then out\<lparr>is_currency := True\<rparr> else out);
          e = EatADouble strtod s (allow_unbounded_markers opts) False False cur2;
          out2 = (if comparator = CHR ''>'' then out1\<lparr>range_from := stored (range_from out1) e\<rparr>
                  else out1\<lparr>range_to := stored (range_to out1) e\<rparr>)
      in if \<not> eaten_ok e then out2\<lparr>returned := NUL\<rparr>
         else out2\<lparr>range_end := Some (int (fst (eaten_cursor e))),
                   returned := fst (EatAChar s (acceptable_terminators opts) False (null_terminator_ok opts)
                                  (eaten_cursor e))\<rparr>)"

text \<open>The separator: a period counts only with another character behind it, and two more periods are eaten
  after a number that ended in one.\<close>

definition parse_separator ::
    "string \<Rightarrow> DoubleRangeOptions \<Rightarrow> bool \<Rightarrow> cursor \<Rightarrow> char \<times> cursor" where
  "parse_separator s opts final_period cur =
     (let (separator, cur1) = EatAChar s (separators opts) True False cur in
      if separator \<noteq> CHR ''.'' then (separator, cur1)
      else
        let (second, cur2) = EatAChar s ''.'' True False cur1 in
        if second \<noteq> NUL
        then (separator, if final_period then snd (EatAChar s ''.'' True False cur2) else cur2)
        else
          let (other, cur3) = EatAChar s (separators opts) True False cur2 in
          if other \<noteq> NUL then (separator, cur3) else (NUL, step_back cur3))"

text \<open>The last part: the position of the end and the terminator.\<close>

definition parse_end ::
    "string \<Rightarrow> DoubleRangeOptions \<Rightarrow> bool \<Rightarrow> cursor \<Rightarrow> 'd range_result \<Rightarrow> 'd range_result" where
  "parse_end s opts seen_dollar cur out =
     (let out1 = (if seen_dollar then out\<lparr>is_currency := True\<rparr> else out);
          terminator = fst (EatAChar s (acceptable_terminators opts) False (null_terminator_ok opts) cur)
      in out1\<lparr>range_end := Some (if terminator = CHR ''.'' then int (fst cur) - 1 else int (fst cur)),
              returned := terminator\<rparr>)"

definition parse_bounds ::
    "'d::uminus strtod \<Rightarrow> string \<Rightarrow> DoubleRangeOptions \<Rightarrow> 'd \<Rightarrow> cursor \<Rightarrow> 'd range_result \<Rightarrow> 'd range_result" where
  "parse_bounds strtod s opts from_default cur out =
     (let (dollar, cur0) = (if allow_currency opts then EatAChar s ''$'' True False cur else (NUL, cur));
          seen_dollar = (dollar \<noteq> NUL);
          e = EatADouble strtod s (allow_unbounded_markers opts)
                (CHR ''-'' \<in> set (separators opts) \<and> \<not> seen_dollar \<and> num_required_bounds opts < 2)
                (CHR ''.'' \<in> set (separators opts)) cur0;
          double_seen = eaten_ok e;
          out1 = out\<lparr>range_from := stored (range_from out) e\<rparr> in
      if num_required_bounds opts = 2 \<and> \<not> double_seen then out1\<lparr>returned := NUL\<rparr>
      else
        let (seen_dollar, cur1) =
              (if seen_dollar \<and> \<not> double_seen then (False, step_back (eaten_cursor e))
               else (seen_dollar, eaten_cursor e));
            (separator, cur2) = parse_separator s opts (eaten_period e) cur1 in
        if separator = NUL then
          let cur3 = (if eaten_period e then snd (EatAChar s ''.'' True False cur2) else cur2) in
          if eaten_minus e \<and> double_seen
          then parse_end s opts seen_dollar cur3
                 (out1\<lparr>range_to := range_from out1, range_from := from_default\<rparr>)
          else if require_separator opts \<or> (num_required_bounds opts > 0 \<and> \<not> double_seen) \<or>
                  num_required_bounds opts > 1
          then out1\<lparr>returned := NUL\<rparr>
          else parse_end s opts seen_dollar cur3 out1
        else
          let out2 = (if eaten_minus e \<and> double_seen then out1\<lparr>range_from := - range_from out1\<rparr> else out1);
              (dollar2, cur3) = (if seen_dollar \<or> (allow_currency opts \<and> \<not> double_seen)
                                 then EatAChar s ''$'' True False cur2 else (NUL, cur2));
              second_dollar_seen = (dollar2 \<noteq> NUL);
              e2 = EatADouble strtod s (allow_unbounded_markers opts) False False cur3;
              out3 = out2\<lparr>range_to := stored (range_to out2) e2\<rparr> in
          if num_required_bounds opts > of_bool double_seen + of_bool (eaten_ok e2)
          then out3\<lparr>returned := NUL\<rparr>
          else
            let (second_dollar_seen, cur4) =
                  (if second_dollar_seen \<and> \<not> eaten_ok e2 then (False, step_back (eaten_cursor e2))
                   else (second_dollar_seen, eaten_cursor e2))
            in parse_end s opts (seen_dollar \<or> second_dollar_seen) cur4 out3)"

text \<open>The four asserts, on the length, the separators and the number of bounds.\<close>

definition range_asserts :: "int \<Rightarrow> DoubleRangeOptions \<Rightarrow> bool" where
  "range_asserts len opts \<longleftrightarrow>
     len \<ge> - 1 \<and> separators opts \<noteq> [] \<and> set (separators opts) \<inter> set ''+0123456789eE$'' = {} \<and>
     num_required_bounds opts \<le> 2"

definition ParseDoubleRange ::
    "'d::uminus strtod \<Rightarrow> 'd \<Rightarrow> string \<Rightarrow> int \<Rightarrow> DoubleRangeOptions \<Rightarrow> 'd range_result \<Rightarrow>
      'd range_result option" where
  "ParseDoubleRange strtod HUGE_VAL s len opts out =
     (let from_default = (if dont_modify_unbounded opts then range_from out else - HUGE_VAL);
          out1 = (if \<not> dont_modify_unbounded opts
                  then out\<lparr>range_from := - HUGE_VAL, range_to := HUGE_VAL\<rparr> else out);
          out2 = (if allow_currency opts then out1\<lparr>is_currency := False\<rparr> else out1) in
      if \<not> range_asserts len opts then None
      else
        let (comparator, cur) =
              (if allow_comparators opts then EatAChar s ''<>'' True False (0, len) else (NUL, (0, len))) in
        if comparator \<noteq> NUL then Some (parse_comparator strtod s opts comparator cur out2)
        else Some (parse_bounds strtod s opts from_default cur out2))"

text \<open>A whole string is one number, with white space around it; \<open>is_space\<close> is \<^verbatim>\<open>ascii_isspace\<close>.\<close>

definition safe_strtod :: "(char \<Rightarrow> bool) \<Rightarrow> 'd strtod \<Rightarrow> string \<Rightarrow> bool \<times> 'd" where
  "safe_strtod is_space strtod str =
     (case strtod str of
        (value, taken) \<Rightarrow>
          let endptr = (if taken \<noteq> 0 then dropWhile is_space (drop taken str) else drop taken str)
          in (str \<noteq> [] \<and> endptr = [], value))"

subsection \<open>The pointer stays inside the text\<close>

definition looked_at :: "string \<Rightarrow> int \<Rightarrow> nat" where
  "looked_at s len = (if len = - 1 then length s else nat len)"

definition cursor_ok :: "string \<Rightarrow> int \<Rightarrow> cursor \<Rightarrow> bool" where
  "cursor_ok s len0 cur \<longleftrightarrow> fst cur \<le> looked_at s len0 \<and>
     snd cur = (if len0 = - 1 then - 1 else len0 - int (fst cur))"

definition length_ok :: "string \<Rightarrow> int \<Rightarrow> bool" where
  "length_ok s len0 \<longleftrightarrow> len0 = - 1 \<or> 0 \<le> len0 \<and> len0 \<le> int (length s)"

text \<open>What the C standard says of \<^verbatim>\<open>strtod\<close>: it takes no more than there is.\<close>

definition takes_inside :: "'d strtod \<Rightarrow> bool" where
  "takes_inside strtod \<longleftrightarrow> (\<forall>t. snd (strtod t) \<le> length t)"

lemma char_at_inside: "char_at s p \<noteq> NUL \<Longrightarrow> p < length s"
  by (auto simp: char_at_def split: if_splits)

lemma cursor_step:
  assumes "cursor_ok s len0 (p, len)" and "length_ok s len0" and "len \<noteq> 0" and "char_at s p \<noteq> NUL"
  shows "cursor_ok s len0 (p + 1, if len \<noteq> - 1 then len - 1 else len)"
  using assms char_at_inside [OF assms(4)]
  by (auto simp: cursor_ok_def length_ok_def looked_at_def split: if_splits)

lemma EatAChar_cursor:
  assumes "cursor_ok s len0 cur" and "length_ok s len0" and "EatAChar s cs update null_ok cur = (c, cur')"
  shows "cursor_ok s len0 cur' \<and> (c \<noteq> NUL \<and> update \<and> \<not> null_ok \<longrightarrow> fst cur' = fst cur + 1) \<and>
    (c = NUL \<longrightarrow> cur' = cur) \<and> fst cur \<le> fst cur'"
proof -
  obtain p len where cur: "cur = (p, len)" by (cases cur)
  note st = cursor_step [OF assms(1) [unfolded cur] assms(2)]
  show ?thesis
  proof (cases "len = 0 \<or> char_at s p = NUL \<or> char_at s p \<notin> set cs \<or> \<not> update")
    case True
    then show ?thesis using assms(1,3) by (auto simp: cur EatAChar_def split: if_splits)
  next
    case False
    then have "c = char_at s p" "cur' = (p + 1, if len \<noteq> - 1 then len - 1 else len)"
      using assms(3) by (simp_all add: cur EatAChar_def)
    with st False show ?thesis by (simp add: cur)
  qed
qed

lemma step_back_cursor:
  assumes "cursor_ok s len0 cur" and "length_ok s len0" and "0 < fst cur"
  shows "cursor_ok s len0 (step_back cur)"
  using assms by (cases cur) (auto simp: cursor_ok_def step_back_def length_ok_def looked_at_def)

lemma number_text_length:
  assumes "cursor_ok s len0 (pos, rem)" and "length_ok s len0"
  shows "length (number_text s pos rem) + pos = looked_at s len0"
  using assms by (auto simp: number_text_def cursor_ok_def length_ok_def looked_at_def split: if_splits)

lemma eat_number_cursor:
  assumes "cursor_ok s len0 cur" and "cursor_ok s len0 (pos, rem)" and "length_ok s len0"
    and "takes_inside strtod" and "fst cur \<le> pos"
  shows "cursor_ok s len0 (eaten_cursor (eat_number strtod s f neg cur pos rem)) \<and>
    fst cur \<le> fst (eaten_cursor (eat_number strtod s f neg cur pos rem)) \<and>
    (\<not> eaten_ok (eat_number strtod s f neg cur pos rem) \<longrightarrow>
      eaten_cursor (eat_number strtod s f neg cur pos rem) = cur)"
proof -
  obtain v k where k: "strtod (number_text s pos rem) = (v, k)" by (cases "strtod (number_text s pos rem)")
  show ?thesis
  proof (cases "char_at s pos \<notin> set (NUL # ''-+.0123456789'') \<or> k = 0")
    case True
    then show ?thesis using assms(1) k by (auto simp: eat_number_def not_eaten_def)
  next
    case False
    have "k \<le> length (number_text s pos rem)"
      using assms(4) k unfolding takes_inside_def by (metis snd_conv)
    with number_text_length [OF assms(2,3)] have b: "pos + k \<le> looked_at s len0" by linarith
    obtain e where e: "e = (if f \<and> char_at s (pos + k - 1) = CHR ''.'' then pos + k - 1 else pos + k)" by simp
    have le: "pos \<le> e" "e \<le> looked_at s len0" using False b by (auto simp: e)
    have "cursor_ok s len0 (e, if rem \<noteq> - 1 then rem - (int e - int pos) else snd cur)"
      using assms(1-3) le by (auto simp: cursor_ok_def length_ok_def looked_at_def split: if_splits)
    moreover have "eaten_cursor (eat_number strtod s f neg cur pos rem) =
        (e, if rem \<noteq> - 1 then rem - (int e - int pos) else snd cur)"
      "eaten_ok (eat_number strtod s f neg cur pos rem)"
      using False k by (simp_all add: eat_number_def Let_def e)
    ultimately show ?thesis using le(1) assms(5) by simp
  qed
qed

lemma EatADouble_cursor:
  assumes "cursor_ok s len0 cur" and "length_ok s len0" and "takes_inside strtod"
  shows "cursor_ok s len0 (eaten_cursor (EatADouble strtod s q m f cur)) \<and>
    fst cur \<le> fst (eaten_cursor (EatADouble strtod s q m f cur)) \<and>
    (\<not> eaten_ok (EatADouble strtod s q m f cur) \<longrightarrow> eaten_cursor (EatADouble strtod s q m f cur) = cur)"
proof -
  obtain p len where cur: "cur = (p, len)" by (cases cur)
  note st = cursor_step [OF assms(1) [unfolded cur] assms(2)]
  have n1: "cursor_ok s len0 (eaten_cursor (eat_number strtod s f True cur (p + 1) (if len \<noteq> - 1 then len - 1 else len))) \<and>
      fst cur \<le> fst (eaten_cursor (eat_number strtod s f True cur (p + 1) (if len \<noteq> - 1 then len - 1 else len))) \<and>
      (\<not> eaten_ok (eat_number strtod s f True cur (p + 1) (if len \<noteq> - 1 then len - 1 else len)) \<longrightarrow>
        eaten_cursor (eat_number strtod s f True cur (p + 1) (if len \<noteq> - 1 then len - 1 else len)) = cur)"
    if "char_at s p = CHR ''-''" "len \<noteq> 0"
    by (rule eat_number_cursor [OF assms(1) _ assms(2,3)]) (use st that in \<open>simp_all add: cur\<close>)
  have n2: "cursor_ok s len0 (eaten_cursor (eat_number strtod s f False cur p len)) \<and>
      fst cur \<le> fst (eaten_cursor (eat_number strtod s f False cur p len)) \<and>
      (\<not> eaten_ok (eat_number strtod s f False cur p len) \<longrightarrow>
        eaten_cursor (eat_number strtod s f False cur p len) = cur)"
    by (rule eat_number_cursor [OF assms(1) _ assms(2,3)]) (use assms(1) in \<open>simp_all add: cur\<close>)
  consider "len = 0" | "len \<noteq> 0" "q \<and> char_at s p = CHR ''?''"
    | "len \<noteq> 0" "\<not> (q \<and> char_at s p = CHR ''?'')" "m \<and> char_at s p = CHR ''-''"
    | "len \<noteq> 0" "\<not> (q \<and> char_at s p = CHR ''?'')" "\<not> (m \<and> char_at s p = CHR ''-'')"
    by blast
  then show ?thesis
  proof cases
    case 1
    then show ?thesis using assms(1) by (simp add: cur EatADouble_def not_eaten_def)
  next
    case 2
    with st show ?thesis by (simp add: cur EatADouble_def)
  next
    case 3
    with n1 assms(1) show ?thesis by (cases "len = 1") (simp_all add: cur EatADouble_def not_eaten_def)
  next
    case 4
    then have "EatADouble strtod s q m f cur = eat_number strtod s f False cur p len"
      by (auto simp: cur EatADouble_def)
    with n2 show ?thesis by simp
  qed
qed

text \<open>The helpers below step back only behind a character that was eaten.\<close>

lemma parse_separator_cursor:
  assumes "cursor_ok s len0 cur" and "length_ok s len0" and "parse_separator s opts final cur = (c, cur')"
  shows "cursor_ok s len0 cur'"
proof -
  obtain c1 cur1 where e1: "EatAChar s (separators opts) True False cur = (c1, cur1)" by (rule prod.exhaust)
  obtain c2 cur2 where e2: "EatAChar s ''.'' True False cur1 = (c2, cur2)" by (rule prod.exhaust)
  obtain c3 cur3 where e3: "EatAChar s (separators opts) True False cur2 = (c3, cur3)" by (rule prod.exhaust)
  obtain c4 cur4 where e4: "EatAChar s ''.'' True False cur2 = (c4, cur4)" by (rule prod.exhaust)
  note k1 = EatAChar_cursor [OF assms(1,2) e1]
  note k2 = EatAChar_cursor [OF conjunct1 [OF k1] assms(2) e2]
  note k3 = EatAChar_cursor [OF conjunct1 [OF k2] assms(2) e3]
  note k4 = EatAChar_cursor [OF conjunct1 [OF k2] assms(2) e4]
  have "cursor_ok s len0 (step_back cur3)" if "c1 = CHR ''.''"
    by (rule step_back_cursor) (use k1 k2 k3 assms(2) that in auto)
  with k1 k2 k3 k4 assms(3) show ?thesis
    unfolding parse_separator_def e1 e2 e3 e4 Let_def prod.case snd_conv by (auto split: if_splits)
qed

text \<open>An end that is written lies in the text, or one before it if the terminator is a period.\<close>

definition end_ok :: "string \<Rightarrow> int \<Rightarrow> 'd range_result \<Rightarrow> bool" where
  "end_ok s len0 r \<longleftrightarrow>
     (case range_end r of
        None \<Rightarrow> True
      | Some e \<Rightarrow> - 1 \<le> e \<and> e \<le> int (looked_at s len0) \<and> (returned r \<noteq> CHR ''.'' \<longrightarrow> 0 \<le> e))"

lemma parse_end_ok: "cursor_ok s len0 cur \<Longrightarrow> end_ok s len0 (parse_end s opts d cur out)"
  by (auto simp: end_ok_def parse_end_def Let_def cursor_ok_def)

lemma failed_end_ok: "range_end r = None \<Longrightarrow> end_ok s len0 r"
  by (simp add: end_ok_def)

lemma end_ok_if:
  "(b \<Longrightarrow> end_ok s len0 x) \<Longrightarrow> (\<not> b \<Longrightarrow> end_ok s len0 y) \<Longrightarrow> end_ok s len0 (if b then x else y)"
  by simp

lemma EatAChar_snd_cursor:
  "cursor_ok s len0 cur \<Longrightarrow> length_ok s len0 \<Longrightarrow> cursor_ok s len0 (snd (EatAChar s cs u n cur))"
  using EatAChar_cursor [of s len0 cur cs u n "fst (EatAChar s cs u n cur)" "snd (EatAChar s cs u n cur)"]
  by simp

lemma parse_comparator_ok:
  assumes "cursor_ok s len0 cur" and "length_ok s len0" and "takes_inside strtod" and "range_end out = None"
  shows "end_ok s len0 (parse_comparator strtod s opts c cur out)"
proof -
  let ?c1 = "snd (EatAChar s ''='' True False cur)"
  obtain d c2 where d: "(if allow_currency opts then EatAChar s ''$'' True False ?c1 else (NUL, ?c1)) = (d, c2)"
    by (rule prod.exhaust)
  have c1: "cursor_ok s len0 ?c1" by (rule EatAChar_snd_cursor [OF assms(1,2)])
  have c2: "cursor_ok s len0 c2"
  proof (cases "allow_currency opts")
    case True
    with d EatAChar_snd_cursor [OF c1 assms(2), of "''$''" True False] show ?thesis by simp
  qed (use d c1 in simp)
  note e = EatADouble_cursor [OF c2 assms(2,3), of "allow_unbounded_markers opts" False False]
  show ?thesis
    unfolding parse_comparator_def Let_def d prod.case
    using e assms(4) by (auto simp: end_ok_def cursor_ok_def)
qed

lemma parse_bounds_ok:
  assumes "cursor_ok s len0 cur" and "length_ok s len0" and "takes_inside strtod" and "range_end out = None"
  shows "end_ok s len0 (parse_bounds strtod s opts d0 cur out)"
proof -
  obtain dollar cur0 where d: "(if allow_currency opts then EatAChar s ''$'' True False cur else (NUL, cur)) = (dollar, cur0)"
    by (rule prod.exhaust)
  have c0: "cursor_ok s len0 cur0 \<and> (dollar \<noteq> NUL \<longrightarrow> 0 < fst cur0)"
  proof (cases "allow_currency opts")
    case True
    with d EatAChar_cursor [OF assms(1,2), of "''$''" True False dollar cur0] show ?thesis by auto
  qed (use d assms(1) in auto)
  obtain e where e: "e = EatADouble strtod s (allow_unbounded_markers opts)
      (CHR ''-'' \<in> set (separators opts) \<and> \<not> dollar \<noteq> NUL \<and> num_required_bounds opts < 2)
      (CHR ''.'' \<in> set (separators opts)) cur0" by simp
  note k = EatADouble_cursor [OF conjunct1 [OF c0] assms(2,3), of "allow_unbounded_markers opts"
      "CHR ''-'' \<in> set (separators opts) \<and> \<not> dollar \<noteq> NUL \<and> num_required_bounds opts < 2"
      "CHR ''.'' \<in> set (separators opts)", folded e]
  obtain sd cur1 where sd: "(if dollar \<noteq> NUL \<and> \<not> eaten_ok e then (False, step_back (eaten_cursor e))
      else (dollar \<noteq> NUL, eaten_cursor e)) = (sd, cur1)" by (rule prod.exhaust)
  have c1: "cursor_ok s len0 cur1"
    using sd k c0 step_back_cursor [of s len0 cur0] assms(2) by (auto split: if_splits)
  obtain sep cur2 where sep: "parse_separator s opts (eaten_period e) cur1 = (sep, cur2)" by (rule prod.exhaust)
  have c2: "cursor_ok s len0 cur2" by (rule parse_separator_cursor [OF c1 assms(2) sep])
  have c3: "cursor_ok s len0 (if eaten_period e then snd (EatAChar s ''.'' True False cur2) else cur2)"
    using c2 EatAChar_snd_cursor [OF c2 assms(2)] by simp
  obtain dollar2 cur4 where d2: "(if sd \<or> (allow_currency opts \<and> \<not> eaten_ok e)
      then EatAChar s ''$'' True False cur2 else (NUL, cur2)) = (dollar2, cur4)" by (rule prod.exhaust)
  have c4: "cursor_ok s len0 cur4 \<and> (dollar2 \<noteq> NUL \<longrightarrow> 0 < fst cur4)"
    using d2 c2 EatAChar_cursor [OF c2 assms(2), of "''$''" True False dollar2 cur4]
    by (auto split: if_splits)
  obtain e2 where e2: "e2 = EatADouble strtod s (allow_unbounded_markers opts) False False cur4" by simp
  note k2 = EatADouble_cursor [OF conjunct1 [OF c4] assms(2,3), of "allow_unbounded_markers opts" False False,
      folded e2]
  obtain sd2 cur5 where sd2: "(if dollar2 \<noteq> NUL \<and> \<not> eaten_ok e2 then (False, step_back (eaten_cursor e2))
      else (dollar2 \<noteq> NUL, eaten_cursor e2)) = (sd2, cur5)" by (rule prod.exhaust)
  have c5: "cursor_ok s len0 cur5"
    using sd2 k2 c4 step_back_cursor [of s len0 cur4] assms(2) by (auto split: if_splits)
  show ?thesis
    unfolding parse_bounds_def Let_def d prod.case e [symmetric] sd sep d2 e2 [symmetric] sd2
    by (intro end_ok_if parse_end_ok [OF c3] parse_end_ok [OF c5] failed_end_ok) (simp_all add: assms(4))
qed

text \<open>C34: For every text, length and options that pass the asserts the parser gives a result, looks only at the
  characters it was given, and an end it reports lies among them, or right behind the last; except that a period as
  terminator moves it back by one, at worst to the position before the text.\<close>

theorem range_end_inside:
  assumes "range_asserts len opts" and "length_ok s len" and "takes_inside strtod" and "range_end out = None"
  shows "\<exists>r. ParseDoubleRange strtod H s len opts out = Some r \<and>
    (case range_end r of
       None \<Rightarrow> True
     | Some e \<Rightarrow> - 1 \<le> e \<and> e \<le> int (looked_at s len) \<and> (returned r \<noteq> CHR ''.'' \<longrightarrow> 0 \<le> e))"
proof -
  have c: "cursor_ok s len (0, len)"
    using assms(1,2) by (auto simp: cursor_ok_def looked_at_def length_ok_def)
  obtain ch cur where ch: "(if allow_comparators opts then EatAChar s ''<>'' True False (0, len)
      else (NUL, (0, len))) = (ch, cur)" by (rule prod.exhaust)
  have cur: "cursor_ok s len cur"
    using ch c EatAChar_snd_cursor [OF c assms(2), of "''<>''" True False]
    by (cases "allow_comparators opts") auto
  have "end_ok s len (parse_comparator strtod s opts c' cur out')"
    "end_ok s len (parse_bounds strtod s opts d0 cur out')"
    if "range_end out' = None" for c' out' d0
    using that parse_comparator_ok [OF cur assms(2,3)] parse_bounds_ok [OF cur assms(2,3)] by auto
  with assms(1,4) ch show ?thesis
    by (auto simp: ParseDoubleRange_def Let_def end_ok_def)
qed

text \<open>A \<^verbatim>\<open>strtod\<close> that reads natural numbers.\<close>

definition digits_value :: "string \<Rightarrow> int" where
  "digits_value ds = foldl (\<lambda>n c. n * 10 + (int (uc c) - 48)) 0 ds"

definition read_digits :: "int strtod" where
  "read_digits t = (let ds = takeWhile (\<lambda>c. c \<in> set ''0123456789'') t in (digits_value ds, length ds))"

lemma read_digits_inside: "takes_inside read_digits"
  by (simp add: takes_inside_def read_digits_def Let_def length_takeWhile_le)

definition dash_options :: DoubleRangeOptions where
  "dash_options = \<lparr>separators = ''-'', require_separator = False, acceptable_terminators = '' .'',
     null_terminator_ok = True, allow_unbounded_markers = True, num_required_bounds = 0,
     dont_modify_unbounded = False, allow_currency = False, allow_comparators = False\<rparr>"

definition no_result :: "int range_result" where
  "no_result = \<lparr>range_from = 0, range_to = 0, is_currency = False, range_end = None, returned = NUL\<rparr>"

theorem range_end_inside_witness:
  "\<exists>r. ParseDoubleRange read_digits 999 ''12-345 '' 5 dash_options no_result = Some r \<and>
    (case range_end r of
       None \<Rightarrow> True
     | Some e \<Rightarrow> - 1 \<le> e \<and> e \<le> int (looked_at ''12-345 '' 5) \<and> (returned r \<noteq> CHR ''.'' \<longrightarrow> 0 \<le> e))"
  by (rule range_end_inside)
    (simp_all add: range_asserts_def dash_options_def length_ok_def no_result_def read_digits_inside)

text \<open>The text that is only a period, where no number is required, has its end before its first
  character.\<close>

lemma period_end_before_text:
  "\<exists>r. ParseDoubleRange read_digits 999 ''.'' (- 1) dash_options no_result = Some r \<and>
    range_end r = Some (- 1) \<and> returned r = CHR ''.''"
  by (simp add: ParseDoubleRange_def range_asserts_def dash_options_def no_result_def Let_def
      parse_bounds_def parse_separator_def parse_end_def EatADouble_def eat_number_def EatAChar_def
      not_eaten_def char_at_def number_text_def read_digits_def digits_value_def stored_def)

subsection \<open>Two bounds and a separator\<close>

text \<open>Two numbers with a dash between them and an accepted terminator behind are read as the two bounds, and the
  end lies right behind the second, whatever the other options are, currency signs and comparators apart.\<close>

theorem range_of_two:
  assumes "strtod (x @ CHR ''-'' # y @ r) = (X, length x)" and "strtod (y @ r) = (Y, length y)"
    and "x \<noteq> []" and "hd x \<in> set ''+.0123456789''" and "y \<noteq> []" and "hd y \<in> set ''-+.0123456789''"
    and "separators opts = ''-''" and "num_required_bounds opts \<le> 2"
    and "\<not> allow_currency opts" and "\<not> allow_comparators opts"
    and "if r = [] then null_terminator_ok opts
         else hd r \<in> set (acceptable_terminators opts) \<and> hd r \<noteq> NUL \<and> hd r \<noteq> CHR ''.''"
  shows "ParseDoubleRange strtod H (x @ CHR ''-'' # y @ r) (- 1) opts out =
    Some (out\<lparr>range_from := X, range_to := Y, range_end := Some (int (length x + 1 + length y)),
              returned := (if r = [] then CHR 0x01 else hd r)\<rparr>)"
proof -
  let ?s = "x @ CHR ''-'' # y @ r"
  have a: "char_at ?s 0 = hd x" "char_at ?s (length x) = CHR ''-''" "char_at ?s (length x + 1) = hd y"
    using assms(3,5) by (auto simp: char_at_def hd_conv_nth nth_append)
  have b: "char_at ?s (length x + 1 + length y) = (if r = [] then NUL else hd r)"
    by (simp add: char_at_def nth_append hd_conv_nth)
  have d: "drop (length x + 1) ?s = y @ r" by simp
  have e1: "EatADouble strtod ?s q m False (0, - 1) =
      \<lparr>eaten_ok = True, eaten_cursor = (length x, - 1), eaten_val = Some X, eaten_minus = False, eaten_period = False\<rparr>"
    for q m
    using assms(1,3,4) a(1)
    by (auto simp: EatADouble_def eat_number_def number_text_def Let_def)
  have e2: "EatADouble strtod ?s q False False (length x + 1, - 1) =
      \<lparr>eaten_ok = True, eaten_cursor = (length x + 1 + length y, - 1), eaten_val = Some Y, eaten_minus = False,
       eaten_period = False\<rparr>" for q
    using assms(2,5,6) a(3) d
    by (auto simp: EatADouble_def eat_number_def number_text_def Let_def)
  have sep: "parse_separator ?s opts False (length x, - 1) = (CHR ''-'', (length x + 1, - 1))"
    using a(2) assms(7) by (simp add: parse_separator_def EatAChar_def)
  have t: "fst (EatAChar ?s (acceptable_terminators opts) False (null_terminator_ok opts)
      (length x + 1 + length y, - 1)) = (if r = [] then CHR 0x01 else hd r)"
    using b assms(11) by (auto simp: EatAChar_def)
  have n: "(if r = [] then CHR 0x01 else hd r) \<noteq> CHR ''.''" using assms(11) by auto
  show ?thesis
    using assms(7-10) n
    by (simp add: ParseDoubleRange_def parse_bounds_def Let_def e1 e2 [simplified] sep [simplified] t [simplified]
        range_asserts_def stored_def parse_end_def)
qed

theorem range_of_two_witness:
  "map_option (\<lambda>r. (range_from r, range_to r, range_end r))
     (ParseDoubleRange read_digits 999 (''12'' @ CHR ''-'' # ''345'' @ '' x'') (- 1) dash_options no_result) =
   Some (12, 345, Some 6)"
  by (subst range_of_two [where X = 12 and Y = 345])
    (simp_all add: read_digits_def digits_value_def Let_def dash_options_def no_result_def uc_def)

text \<open>The strict conversion accepts a text exactly if it is a number with white space behind it; what
  \<^verbatim>\<open>strtod\<close> itself skips comes before.\<close>

lemma safe_strtod_accepts:
  assumes "strtod str = (v, taken)" and "taken \<noteq> 0"
  shows "safe_strtod is_space strtod str = (str \<noteq> [] \<and> (\<forall>c\<in>set (drop taken str). is_space c), v)"
  using assms by (simp add: safe_strtod_def Let_def dropWhile_eq_Nil_conv)

lemma safe_strtod_refuses:
  assumes "strtod str = (v, 0)"
  shows "fst (safe_strtod is_space strtod str) = False"
  using assms by (simp add: safe_strtod_def Let_def)

end
