(* ===== verification/Mutex_Guard.thy ===== *)
theory Mutex_Guard
  imports Thread_Time
begin

text \<open>
  The locks of \<^verbatim>\<open>threading/mutex.h\<close> and \<^verbatim>\<open>threading/mutex.cc\<close> with their guards, and the parts of
  \<^verbatim>\<open>Monitor\<close> (\<^verbatim>\<open>threading/monitor.h\<close>, \<^verbatim>\<open>threading/monitor.cc\<close>) that do not wait.

  Locks and guard variables have numbers.  The pthread library is a parameter: an operation gets what
  the library's call returns.  \<open>lock_log\<close> records what the library has been asked successfully: a lock
  was granted, a lock was given back.  A step is one call by any thread; a call that blocks is the step
  at which it returns.  The value None is a failed CHECK, DCHECK or assert, or an operation on a guard
  that is not in scope.
\<close>

subsection \<open>Locks\<close>

datatype lock_mode = Exclusive | Shared

datatype lock_event = Granted nat lock_mode | Returned nat

record guard_world =
  guard_of :: "nat \<Rightarrow> nat option option"
  lock_log :: "lock_event list"

definition EDEADLK :: int where "EDEADLK = 35"
definition EAGAIN :: int where "EAGAIN = 11"

definition log_event :: "lock_event \<Rightarrow> guard_world \<Rightarrow> guard_world" where
  "log_event e w = w\<lparr>lock_log := lock_log w @ [e]\<rparr>"

definition log_grant :: "int \<Rightarrow> nat \<Rightarrow> lock_mode \<Rightarrow> guard_world \<Rightarrow> guard_world" where
  "log_grant ret m md w = (if ret = 0 then log_event (Granted m md) w else w)"

definition Mutex_Lock :: "int \<Rightarrow> nat \<Rightarrow> guard_world \<Rightarrow> guard_world option" where
  "Mutex_Lock ret m w = (if ret \<noteq> EDEADLK then Some (log_grant ret m Exclusive w) else None)"

definition Mutex_TryLock :: "int \<Rightarrow> nat \<Rightarrow> guard_world \<Rightarrow> bool \<times> guard_world" where
  "Mutex_TryLock ret m w = (ret = 0, log_grant ret m Exclusive w)"

text \<open>The deadline of the timed calls, from the clock's answer and the timeout in milliseconds.\<close>

definition lock_deadline :: "int \<times> timespec \<Rightarrow> int \<Rightarrow> timespec option" where
  "lock_deadline realtime ms =
     do { now \<leftarrow> CurrentTimeTicks realtime MS_PER_S;
          t \<leftarrow> int64 (now + ms);
          Some (util_ToTimespec t) }"

definition Mutex_TimedLock ::
    "(timespec \<Rightarrow> int) \<Rightarrow> int \<times> timespec \<Rightarrow> int \<Rightarrow> nat \<Rightarrow> guard_world \<Rightarrow> (bool \<times> guard_world) option" where
  "Mutex_TimedLock timedlock realtime ms m w =
     do { ts \<leftarrow> lock_deadline realtime ms;
          Some (timedlock ts = 0, log_grant (timedlock ts) m Exclusive w) }"


definition ReadWriteMutex_AcquireWrite :: "int \<Rightarrow> nat \<Rightarrow> guard_world \<Rightarrow> guard_world option" where
  "ReadWriteMutex_AcquireWrite ret m w =
     (if ret \<noteq> EDEADLK then Some (log_grant ret m Exclusive w) else None)"

definition ReadWriteMutex_AcquireRead :: "int \<Rightarrow> nat \<Rightarrow> guard_world \<Rightarrow> guard_world option" where
  "ReadWriteMutex_AcquireRead ret m w =
     (if ret \<noteq> EDEADLK then Some (log_grant ret m Shared w) else None)"

definition ReadWriteMutex_AttemptWrite :: "int \<Rightarrow> nat \<Rightarrow> guard_world \<Rightarrow> bool \<times> guard_world" where
  "ReadWriteMutex_AttemptWrite ret m w = (ret = 0, log_grant ret m Exclusive w)"

definition ReadWriteMutex_AttemptRead :: "int \<Rightarrow> nat \<Rightarrow> guard_world \<Rightarrow> bool \<times> guard_world" where
  "ReadWriteMutex_AttemptRead ret m w = (ret = 0, log_grant ret m Shared w)"

definition ReadWriteMutex_TimedWrite ::
    "(timespec \<Rightarrow> int) \<Rightarrow> int \<times> timespec \<Rightarrow> int \<Rightarrow> nat \<Rightarrow> guard_world \<Rightarrow> (bool \<times> guard_world) option" where
  "ReadWriteMutex_TimedWrite timedlock realtime ms m w =
     do { ts \<leftarrow> lock_deadline realtime ms;
          Some (timedlock ts = 0, log_grant (timedlock ts) m Exclusive w) }"

definition ReadWriteMutex_TimedRead ::
    "(timespec \<Rightarrow> int) \<Rightarrow> int \<times> timespec \<Rightarrow> int \<Rightarrow> nat \<Rightarrow> guard_world \<Rightarrow> (bool \<times> guard_world) option" where
  "ReadWriteMutex_TimedRead timedlock realtime ms m w =
     do { ts \<leftarrow> lock_deadline realtime ms;
          Some (timedlock ts = 0, log_grant (timedlock ts) m Shared w) }"

text \<open>The result of \<^verbatim>\<open>pthread_rwlock_unlock\<close> is not looked at.\<close>

definition ReadWriteMutex_Release :: "int \<Rightarrow> nat \<Rightarrow> guard_world \<Rightarrow> guard_world option" where
  "ReadWriteMutex_Release ret m w = Some (log_event (Returned m) w)"

subsection \<open>Guards\<close>

definition put_guard :: "nat \<Rightarrow> nat option option \<Rightarrow> guard_world \<Rightarrow> guard_world" where
  "put_guard g v w = w\<lparr>guard_of := (guard_of w)(g := v)\<rparr>"

text \<open>What the library answers during one construction: to the blocking, the trying and the timed call,
  and the clock.\<close>

record lock_answers =
  lock_ret :: int
  try_ret :: int
  timed_ret :: "timespec \<Rightarrow> int"
  clock :: "int \<times> timespec"

definition kept :: "bool \<Rightarrow> nat \<Rightarrow> nat option" where
  "kept locked m = (if locked then Some m else None)"

definition Guard :: "lock_answers \<Rightarrow> nat \<Rightarrow> nat \<Rightarrow> int \<Rightarrow> guard_world \<Rightarrow> guard_world option" where
  "Guard A g m timeout w =
     (if guard_of w g \<noteq> None then None
      else if timeout = 0
      then do { w1 \<leftarrow> Mutex_Lock (lock_ret A) m w; Some (put_guard g (Some (Some m)) w1) }
      else if timeout < 0
      then case Mutex_TryLock (try_ret A) m w of
             (locked, w1) \<Rightarrow> Some (put_guard g (Some (kept locked m)) w1)
      else do { r \<leftarrow> Mutex_TimedLock (timed_ret A) (clock A) timeout m w;
                Some (put_guard g (Some (kept (fst r) m)) (snd r)) })"

definition RWGuard ::
    "lock_answers \<Rightarrow> nat \<Rightarrow> nat \<Rightarrow> bool \<Rightarrow> int \<Rightarrow> guard_world \<Rightarrow> guard_world option" where
  "RWGuard A g m write timeout w =
     (if guard_of w g \<noteq> None then None
      else do { r \<leftarrow>
          if write
          then if timeout \<noteq> 0 then ReadWriteMutex_TimedWrite (timed_ret A) (clock A) timeout m w
               else map_option (Pair True) (ReadWriteMutex_AcquireWrite (lock_ret A) m w)
          else if timeout \<noteq> 0 then ReadWriteMutex_TimedRead (timed_ret A) (clock A) timeout m w
               else map_option (Pair True) (ReadWriteMutex_AcquireRead (lock_ret A) m w);
        Some (put_guard g (Some (kept (fst r) m)) (snd r)) })"

text \<open>The other members of the two classes are the same code over the unlocking call.\<close>

definition release_by ::
    "(int \<Rightarrow> nat \<Rightarrow> guard_world \<Rightarrow> guard_world option) \<Rightarrow> int \<Rightarrow> nat \<Rightarrow> guard_world \<Rightarrow>
     (bool \<times> guard_world) option" where
  "release_by unlock ret g w =
     do { h \<leftarrow> guard_of w g;
          case h of None \<Rightarrow> Some (False, w)
          | Some m \<Rightarrow> do { w1 \<leftarrow> unlock ret m w; Some (True, put_guard g (Some None) w1) } }"

definition destroy_by ::
    "(int \<Rightarrow> nat \<Rightarrow> guard_world \<Rightarrow> guard_world option) \<Rightarrow> int \<Rightarrow> nat \<Rightarrow> guard_world \<Rightarrow> guard_world option" where
  "destroy_by unlock ret g w = do { r \<leftarrow> release_by unlock ret g w; Some (put_guard g None (snd r)) }"







definition Guard_bool :: "nat \<Rightarrow> guard_world \<Rightarrow> bool option" where
  "Guard_bool g w = map_option (\<lambda>h. h \<noteq> None) (guard_of w g)"


definition RWGuard_destroy :: "int \<Rightarrow> nat \<Rightarrow> guard_world \<Rightarrow> guard_world option" where
  "RWGuard_destroy = destroy_by ReadWriteMutex_Release"






subsection \<open>What the library has granted\<close>

text \<open>The state of every lock after a log: how often it is held, and how it was granted last.\<close>

fun lock_step :: "lock_event \<Rightarrow> (nat \<Rightarrow> lock_mode \<times> nat) \<Rightarrow> nat \<Rightarrow> lock_mode \<times> nat" where
  "lock_step (Granted m md) s = s(m := (md, Suc (snd (s m))))"
| "lock_step (Returned m) s = s(m := (fst (s m), snd (s m) - 1))"

definition replay :: "lock_event list \<Rightarrow> nat \<Rightarrow> lock_mode \<times> nat" where
  "replay es = fold lock_step es (\<lambda>_. (Exclusive, 0))"

definition outstanding :: "lock_event list \<Rightarrow> nat \<Rightarrow> nat" where
  "outstanding es m = snd (replay es m)"

fun all_events ::
    "((nat \<Rightarrow> lock_mode \<times> nat) \<Rightarrow> lock_event \<Rightarrow> bool) \<Rightarrow> lock_event list \<Rightarrow>
     (nat \<Rightarrow> lock_mode \<times> nat) \<Rightarrow> bool" where
  "all_events P [] s = True"
| "all_events P (e # es) s = (P s e \<and> all_events P es (lock_step e s))"

text \<open>A lock is given back only while it is held.\<close>

fun held_before :: "(nat \<Rightarrow> lock_mode \<times> nat) \<Rightarrow> lock_event \<Rightarrow> bool" where
  "held_before s (Returned m) = (0 < snd (s m))"
| "held_before s (Granted m md) = True"

definition returns_held :: "lock_event list \<Rightarrow> bool" where
  "returns_held es = all_events held_before es (\<lambda>_. (Exclusive, 0))"




lemma all_events_append [simp]:
  "all_events P (es @ fs) s = (all_events P es s \<and> all_events P fs (fold lock_step es s))"
  by (induction es arbitrary: s) auto

lemma returns_held_simps [simp]:
  "returns_held []" "returns_held (es @ [Granted m md]) = returns_held es"
  "returns_held (es @ [Returned m]) = (returns_held es \<and> 0 < outstanding es m)"
  by (auto simp: returns_held_def outstanding_def replay_def)

lemma outstanding_simps [simp]:
  "outstanding [] m = 0"
  "outstanding (es @ [Granted k md]) m = (if m = k then Suc (outstanding es m) else outstanding es m)"
  "outstanding (es @ [Returned k]) m = (if m = k then outstanding es m - 1 else outstanding es m)"
  by (auto simp: outstanding_def replay_def)


subsection \<open>Guards and grants agree\<close>

definition holders :: "guard_world \<Rightarrow> nat \<Rightarrow> nat set" where
  "holders w m = {g. guard_of w g = Some (Some m)}"


lemma put_guard_sel [simp]:
  "guard_of (put_guard g v w) = (guard_of w)(g := v)" "lock_log (put_guard g v w) = lock_log w"
  by (simp_all add: put_guard_def)

lemma log_event_sel [simp]:
  "guard_of (log_event e w) = guard_of w" "lock_log (log_event e w) = lock_log w @ [e]"
  by (simp_all add: log_event_def)

lemma log_grant_sel [simp]: "guard_of (log_grant ret m md w) = guard_of w"
  by (simp add: log_grant_def)



lemma holders_log [simp]: "holders (log_event e w) m = holders w m"
  by (simp add: holders_def)








subsection \<open>Programs\<close>










text \<open>A second guard tries the mutex of the first in vain, then the lock is handed over to a third one,
  while two readers share another lock.\<close>

definition granted_at_once :: lock_answers where
  "granted_at_once = \<lparr>lock_ret = 0, try_ret = 16, timed_ret = (\<lambda>_. 0),
     clock = (0, \<lparr>tv_sec = 1700000000, tv_nsec = 0\<rparr>)\<rparr>"





text \<open>A read-write lock whose readers are exhausted answers \<^verbatim>\<open>EAGAIN\<close>.  Only \<^verbatim>\<open>EDEADLK\<close> is checked for:
  the guard takes the lock for granted, and gives back what it never had.\<close>

definition out_of_readers :: lock_answers where
  "out_of_readers = granted_at_once\<lparr>lock_ret := EAGAIN\<rparr>"

lemma exhausted_reader:
  assumes "guard_of w g = None" and "outstanding (lock_log w) m = 0"
  shows "\<exists>w1 w2. RWGuard out_of_readers g m False 0 w = Some w1 \<and> guard_of w1 g = Some (Some m) \<and>
    lock_log w1 = lock_log w \<and> RWGuard_destroy 0 g w1 = Some w2 \<and> \<not> returns_held (lock_log w2)"
  using assms
  by (simp add: RWGuard_def out_of_readers_def ReadWriteMutex_AcquireRead_def EAGAIN_def EDEADLK_def
      log_grant_def kept_def RWGuard_destroy_def destroy_by_def release_by_def
      ReadWriteMutex_Release_def)
subsection \<open>Monitors\<close>

text \<open>A monitor locks its own mutex or that of its maker; its condition variable is made with it.  Events
  of the condition variable are recorded.\<close>

datatype cond_event = CondInit | CondDestroy

record monitor =
  monitor_mutex :: nat
  condInitialized :: bool
  cond_log :: "cond_event list"

datatype monitor_error = SystemResourceException

definition monitor_Cleanup :: "int \<Rightarrow> monitor \<Rightarrow> monitor option" where
  "monitor_Cleanup ret M =
     (if condInitialized M
      then if ret = 0
           then Some (M\<lparr>condInitialized := False, cond_log := cond_log M @ [CondDestroy]\<rparr>)
           else None
      else Some M)"

definition monitor_Init ::
    "int \<Rightarrow> int \<Rightarrow> nat \<Rightarrow> monitor \<Rightarrow> (monitor_error + monitor) option" where
  "monitor_Init init_ret destroy_ret m M =
     (let M1 = M\<lparr>monitor_mutex := m\<rparr>;
          M2 = (if init_ret = 0
                then M1\<lparr>condInitialized := True, cond_log := cond_log M1 @ [CondInit]\<rparr> else M1) in
      if \<not> condInitialized M2
      then do { _ \<leftarrow> monitor_Cleanup destroy_ret M2; Some (Inl SystemResourceException) }
      else Some (Inr M2))"

text \<open>The three constructors: with a mutex of its own (a new number), a given one, or that of another
  monitor.\<close>

definition new_monitor :: monitor where
  "new_monitor = \<lparr>monitor_mutex = 0, condInitialized = False, cond_log = []\<rparr>"

definition Monitor :: "int \<Rightarrow> int \<Rightarrow> nat \<Rightarrow> (monitor_error + monitor) option" where
  "Monitor init_ret destroy_ret owned = monitor_Init init_ret destroy_ret owned new_monitor"

definition Monitor_mutex :: "int \<Rightarrow> int \<Rightarrow> nat \<Rightarrow> (monitor_error + monitor) option" where
  "Monitor_mutex init_ret destroy_ret m = monitor_Init init_ret destroy_ret m new_monitor"

definition Monitor_monitor :: "int \<Rightarrow> int \<Rightarrow> monitor \<Rightarrow> (monitor_error + monitor) option" where
  "Monitor_monitor init_ret destroy_ret M =
     monitor_Init init_ret destroy_ret (monitor_mutex M) new_monitor"

text \<open>Notification asserts that the mutex is locked; \<open>signal\<close> is \<^verbatim>\<open>pthread_cond_signal\<close>, \<open>broadcast\<close> is
  \<^verbatim>\<open>pthread_cond_broadcast\<close>.\<close>

definition monitor_Notify :: "'w monitor_calls \<Rightarrow> ('w \<Rightarrow> int \<times> 'w) \<Rightarrow> 'w \<Rightarrow> 'w option" where
  "monitor_Notify C signal w =
     do { w1 \<leftarrow> assert_locked C w;
          case signal w1 of (iret, w2) \<Rightarrow> if iret = 0 then Some w2 else None }"

definition monitor_NotifyAll :: "'w monitor_calls \<Rightarrow> ('w \<Rightarrow> int \<times> 'w) \<Rightarrow> 'w \<Rightarrow> 'w option" where
  "monitor_NotifyAll C broadcast w =
     do { w1 \<leftarrow> assert_locked C w;
          case broadcast w1 of (iret, w2) \<Rightarrow> if iret = 0 then Some w2 else None }"

text \<open>\<^verbatim>\<open>Synchronized\<close> is a guard of the monitor's mutex that waits for it.\<close>

definition Synchronized :: "lock_answers \<Rightarrow> nat \<Rightarrow> monitor \<Rightarrow> guard_world \<Rightarrow> guard_world option" where
  "Synchronized A g M w = Guard A g (monitor_mutex M) 0 w"

text \<open>The condition variable of a monitor is made once and destroyed once; a monitor whose condition variable
  cannot be made is an exception and leaves nothing to destroy.  Monitors made from one another share
  the mutex.\<close>

lemma monitor_lifetime:
  "Monitor_mutex init_ret destroy_ret m =
     (if init_ret = 0 then Some (Inr \<lparr>monitor_mutex = m, condInitialized = True, cond_log = [CondInit]\<rparr>)
      else Some (Inl SystemResourceException))"
  "Monitor_monitor 0 d M = Some (Inr M') \<Longrightarrow> monitor_mutex M' = monitor_mutex M"
  "Monitor_mutex 0 d m = Some (Inr M') \<Longrightarrow>
     map_option cond_log (monitor_Cleanup 0 M') = Some [CondInit, CondDestroy]"
  by (auto simp: Monitor_mutex_def Monitor_monitor_def monitor_Init_def monitor_Cleanup_def new_monitor_def
      Let_def)

text \<open>Notification reaches the waiters if somebody holds the mutex and ends the process otherwise.  The owner
  of a recursive mutex can lock it again: for it the assert fails.\<close>

lemma notify_cases:
  assumes "mutex_trylock C w = (ret, w1)"
  shows "ret \<noteq> 0 \<Longrightarrow> signal w1 = (0, w2) \<Longrightarrow>
      monitor_Notify C signal w = Some w2 \<and> monitor_NotifyAll C signal w = Some w2"
    and "ret = 0 \<Longrightarrow> monitor_Notify C signal w = None \<and> monitor_NotifyAll C signal w = None"
  using assms
  by (simp_all add: monitor_Notify_def monitor_NotifyAll_def assert_locked_def mutex_IsLocked_def
      mutex_TryLock_def bind_eq_None_conv)

end
