(* ===== verification/Session_Pool.thy ===== *)
theory Session_Pool
  imports Frontend Conn_Pool
begin

text \<open>
  Sessions and the connection pool together: \<open>Open\<close> and \<open>Close\<close> of \<^verbatim>\<open>db/frontend/session.cc\<close> go through the
  connection manager, and \<open>Dispose\<close> of \<^verbatim>\<open>db/backend/db_connection.cc\<close> gives a connection back when its last
  handle goes.

  Connection objects, the pools and the handles are shared.  A handle is a \<^verbatim>\<open>scoped_ref_ptr\<close> to a
  connection: sessions, their copies, and the statements and results made from them each have one.  The
  reference count of a connection is the number of its handles.  None is an exception of the driver, a
  failed \<open>DCHECK\<close>, a null pointer or undefined behaviour.
\<close>

subsection \<open>Operations\<close>

record 's session_world =
  pools :: conn_manager
  objects :: "nat \<Rightarrow> 's db_connection option"
  pool_of :: "nat \<Rightarrow> string option"
  handles :: "nat option list"
  made :: nat

definition referenced :: "nat \<Rightarrow> nat option list \<Rightarrow> bool" where
  "referenced c hs = (Some c \<in> set hs)"

definition handle :: "'s session_world \<Rightarrow> nat \<Rightarrow> nat option" where
  "handle w h = (if h < length (handles w) then handles w ! h else None)"

text \<open>What is left of the objects when a pool has deleted some.\<close>

definition still_there :: "conn_pool \<Rightarrow> (nat \<Rightarrow> 's option) \<Rightarrow> nat \<Rightarrow> 's option" where
  "still_there p objs = (\<lambda>x. if x \<in> set (deleted p) then None else objs x)"

text \<open>\<open>Dispose\<close>: the object leaves its pool; it goes back if it may be recycled, else its cache is
  cleared and it is deleted.  Putting it back may delete others.\<close>

definition Dispose_connection ::
    "nat \<Rightarrow> Time \<Rightarrow> 's session_world \<Rightarrow> 's session_world option" where
  "Dispose_connection c now w =
     do { self \<leftarrow> objects w c;
          let w1 = w\<lparr>pool_of := (pool_of w)(c := None)\<rparr>;
          (case pool_of w c of
             Some str \<Rightarrow>
               do { p \<leftarrow> map_of (pools w) str;
                    p' \<leftarrow> Dispose_pooled c (recyclable self) now p;
                    _ \<leftarrow> (if recyclable self then Some self else ClearCache self);
                    Some (w1\<lparr>pools := replace_pool str p' (pools w),
                             objects := still_there p' (objects w)\<rparr>) }
           | None \<Rightarrow>
               do { _ \<leftarrow> ClearCache self; Some (w1\<lparr>objects := (objects w)(c := None)\<rparr>) }) }"

text \<open>A handle gets another value; then the reference to the old connection is given up.\<close>

definition set_handle ::
    "nat \<Rightarrow> nat option \<Rightarrow> Time \<Rightarrow> 's session_world \<Rightarrow> 's session_world option" where
  "set_handle h v now w =
     (if h < length (handles w)
      then let w1 = w\<lparr>handles := (handles w)[h := v]\<rparr> in
           case handle w h of
             None \<Rightarrow> Some w1
           | Some c \<Rightarrow> if referenced c (handles w1) then Some w1 else Dispose_connection c now w1
      else None)"

text \<open>The connections that the driver has made are numbered; if it is asked for one it makes the next.\<close>

definition Session_Open ::
    "nat \<Rightarrow> string \<Rightarrow> Time \<Rightarrow> 's session_world \<Rightarrow> 's session_world option" where
  "Session_Open h str now w =
     do { (c, m) \<leftarrow> Open_str str now (Some (made w)) (pools w);
          let objs = (case map_of m str of Some p \<Rightarrow> still_there p (objects w) | None \<Rightarrow> objects w);
          self \<leftarrow> (case objs c of
                     Some self \<Rightarrow> Some self
                   | None \<Rightarrow> do { info \<leftarrow> ConnectionInfo str; DBConnection info });
          let owner = (case map_of m str of Some p \<Rightarrow> if c \<in> set (users p) then Some str else None
                                          | None \<Rightarrow> None);
          set_handle h (Some c) now
            (w\<lparr>pools := m, objects := objs(c \<mapsto> self), pool_of := (pool_of w)(c := owner),
               made := (if c = made w then Suc (made w) else made w)\<rparr>) }"

definition Session_Close_pooled :: "nat \<Rightarrow> Time \<Rightarrow> 's session_world \<Rightarrow> 's session_world option" where
  "Session_Close_pooled h now w = set_handle h None now w"

definition Session_assign :: "nat \<Rightarrow> nat \<Rightarrow> Time \<Rightarrow> 's session_world \<Rightarrow> 's session_world option" where
  "Session_assign h other now w = (if h \<noteq> other then set_handle h (handle w other) now w else Some w)"

text \<open>An operation on the connection of a session.\<close>

definition on_connection ::
    "nat \<Rightarrow> ('s session \<Rightarrow> 's session option) \<Rightarrow> 's session_world \<Rightarrow> 's session_world option" where
  "on_connection h f w =
     do { c \<leftarrow> handle w h;
          self \<leftarrow> objects w c;
          s \<leftarrow> f (Some self);
          Some (w\<lparr>objects := (objects w)(c := s)\<rparr>) }"

definition Session_set_recyclable :: "bool \<Rightarrow> 's session \<Rightarrow> 's session option" where
  "Session_set_recyclable v s = map_option (\<lambda>conn. Some (conn\<lparr>recyclable := v\<rparr>)) s"

definition Session_set_once_called :: "bool \<Rightarrow> 's session \<Rightarrow> 's session option" where
  "Session_set_once_called v s = map_option (\<lambda>conn. Some (conn\<lparr>once_called := v\<rparr>)) s"

definition Session_ClearCache :: "'s session \<Rightarrow> 's session option" where
  "Session_ClearCache s = do { conn \<leftarrow> s; conn \<leftarrow> ClearCache conn; Some (Some conn) }"

text \<open>\<open>Begin\<close>, \<open>Commit\<close>, \<open>Rollback\<close>, \<open>LastInsertId\<close>, \<open>SequenceLast\<close> and \<open>Affected\<close>: a call of the backend under
  the guard that marks the connection when the call throws.\<close>

definition guarded_call :: "(db_error + 'a) \<Rightarrow> 's session \<Rightarrow> ((db_error + 'a) \<times> 's session) option" where
  "guarded_call answer s = map_option (\<lambda>conn. map_prod id Some (guard conn answer)) s"

text \<open>Programs over sessions and statements.  \<open>SCall\<close> is a call of the backend that may throw.\<close>

datatype 's session_op =
    SOpen nat string Time
  | SClose nat Time
  | SAssign nat nat Time
  | SPrepare nat string nat Time
  | SCall nat "db_error + unit"
  | SRecyclable nat bool
  | SOnce nat "'s db_connection \<Rightarrow> 's db_connection"
  | SClear nat

fun session_exec ::
    "(string \<Rightarrow> 's option) \<Rightarrow> (string \<Rightarrow> 's option) \<Rightarrow> 's session_op \<Rightarrow> 's session_world \<Rightarrow>
     's session_world option" where
  "session_exec np nd (SOpen h str now) w = Session_Open h str now w"
| "session_exec np nd (SClose h now) w = Session_Close_pooled h now w"
| "session_exec np nd (SAssign h other now) w = Session_assign h other now w"
| "session_exec np nd (SPrepare h q st now) w =
     do { c \<leftarrow> handle w h;
          self \<leftarrow> objects w c;
          (r, s) \<leftarrow> Session_Prepare np nd q (Some self);
          let w1 = w\<lparr>objects := (objects w)(c := s)\<rparr>;
          (case r of Inl e \<Rightarrow> Some w1 | Inr d \<Rightarrow> set_handle st (Some c) now w1) }"
| "session_exec np nd (SCall h answer) w = on_connection h (\<lambda>s. map_option snd (guarded_call answer s)) w"
| "session_exec np nd (SRecyclable h v) w = on_connection h (Session_set_recyclable v) w"
| "session_exec np nd (SOnce h f) w = on_connection h (Once f) w"
| "session_exec np nd (SClear h) w = on_connection h Session_ClearCache w"

fun session_run ::
    "(string \<Rightarrow> 's option) \<Rightarrow> (string \<Rightarrow> 's option) \<Rightarrow> 's session_op list \<Rightarrow> 's session_world \<Rightarrow>
     's session_world option" where
  "session_run np nd [] w = Some w"
| "session_run np nd (op # ops) w = do { w' \<leftarrow> session_exec np nd op w; session_run np nd ops w' }"

text \<open>At the start there are \<open>n\<close> handles without a connection.\<close>

definition no_sessions :: "nat \<Rightarrow> 's session_world" where
  "no_sessions n = \<lparr>pools = [], objects = (\<lambda>_. None), pool_of = (\<lambda>_. None), handles = replicate n None,
     made = 0\<rparr>"

subsection \<open>Without the flag nothing is recycled\<close>

text \<open>A program that never sets the flag of a connection.\<close>

fun leaves_flag :: "'s session_op \<Rightarrow> bool" where
  "leaves_flag (SRecyclable h v) = (\<not> v)"
| "leaves_flag (SOnce h f) = (\<forall>conn. recyclable (f conn) \<longrightarrow> recyclable conn)"
| "leaves_flag _ = True"

fun opens :: "'s session_op \<Rightarrow> bool" where
  "opens (SOpen h str now) = True"
| "opens _ = False"

definition pool_idle :: "'s session_world \<Rightarrow> conn_pool \<Rightarrow> bool" where
  "pool_idle w p \<longleftrightarrow> entries p = [] \<and> (\<forall>d\<in>set (deleted p). d < made w \<and> objects w d = None)"

definition held :: "nat option list \<Rightarrow> nat set" where
  "held hs = {c. Some c \<in> set hs}"

text \<open>The connections in \<open>C\<close> have lost their last handle and are about to be disposed of.\<close>

definition inert :: "nat set \<Rightarrow> 's session_world \<Rightarrow> bool" where
  "inert C w \<longleftrightarrow> (\<forall>x\<in>set (pools w). pool_idle w (snd x)) \<and>
     (\<forall>c self. objects w c = Some self \<longrightarrow> \<not> recyclable self \<and> c < made w) \<and>
     dom (objects w) = held (handles w) \<union> C"

lemma map_of_inert: "inert C w \<Longrightarrow> map_of (pools w) str = Some p \<Longrightarrow> pool_idle w p"
  by (fastforce simp: inert_def dest: map_of_SomeD)

lemma in_replace_pool: "x \<in> set (replace_pool str p m) \<Longrightarrow> x \<in> set m \<or> x = (str, p)"
  by (auto simp: replace_pool_def)

lemma in_insert_pool: "x \<in> set (insert_pool str p m) \<Longrightarrow> x \<in> set m \<or> x = (str, p)"
  by (auto simp: insert_pool_def dest: set_takeWhileD set_dropWhileD)

lemma still_there_idle: "pool_idle w p \<Longrightarrow> still_there p (objects w) = objects w"
  by (auto simp: still_there_def pool_idle_def)

lemma inert_delete:
  assumes "inert {c} w" and "c \<notin> held (handles w)" and "objects w' = (objects w)(c := None)"
    and "handles w' = handles w" and "made w' = made w"
    and "\<And>x. x \<in> set (pools w') \<Longrightarrow> x \<in> set (pools w) \<or> pool_idle w' (snd x)"
  shows "inert {} w'"
proof -
  have "pool_idle w' (snd x)" if "x \<in> set (pools w')" for x
    using assms(6) [OF that] assms(1,3,5) by (auto simp: inert_def pool_idle_def)
  moreover have "dom (objects w') = held (handles w')" using assms(1-4) by (auto simp: inert_def)
  ultimately show ?thesis using assms(1,3,5) by (auto simp: inert_def split: if_splits)
qed

lemma Dispose_inert:
  assumes "Dispose_connection c now w = Some w'" and "inert {c} w" and "c \<notin> held (handles w)"
  shows "inert {} w' \<and> made w' = made w"
proof -
  from assms(1) obtain self where self: "objects w c = Some self"
    by (auto simp: Dispose_connection_def bind_eq_Some_conv)
  with assms(2) have r: "\<not> recyclable self" "c < made w" by (auto simp: inert_def)
  show ?thesis
  proof (cases "pool_of w c")
    case None
    with assms(1) self have "w' = w\<lparr>pool_of := (pool_of w)(c := None), objects := (objects w)(c := None)\<rparr>"
      by (auto simp: Dispose_connection_def bind_eq_Some_conv)
    with inert_delete [OF assms(2,3), of w'] show ?thesis by simp
  next
    case (Some str)
    with assms(1) self r obtain p where p: "map_of (pools w) str = Some p"
      "w' = w\<lparr>pool_of := (pool_of w)(c := None),
        pools := replace_pool str (p\<lparr>users := remove1 c (users p), deleted := deleted p @ [c]\<rparr>) (pools w),
        objects := still_there (p\<lparr>users := remove1 c (users p), deleted := deleted p @ [c]\<rparr>) (objects w)\<rparr>"
      by (auto simp: Dispose_connection_def Dispose_pooled_def Let_def bind_eq_Some_conv)
    have idle: "pool_idle w p" by (rule map_of_inert [OF assms(2) p(1)])
    then have "still_there (p\<lparr>users := remove1 c (users p), deleted := deleted p @ [c]\<rparr>) (objects w) =
        (objects w)(c := None)"
      by (auto simp: still_there_def pool_idle_def)
    with p(2) have w': "pools w' =
        replace_pool str (p\<lparr>users := remove1 c (users p), deleted := deleted p @ [c]\<rparr>) (pools w)"
      "objects w' = (objects w)(c := None)" "handles w' = handles w" "made w' = made w" by simp_all
    have "x \<in> set (pools w) \<or> pool_idle w' (snd x)" if "x \<in> set (pools w')" for x
      using in_replace_pool [OF that [unfolded w'(1)]] idle r(2)
      by (auto simp: pool_idle_def w'(2,4))
    with inert_delete [OF assms(2,3) w'(2-4)] w'(4) show ?thesis by simp
  qed
qed
lemma held_upd:
  assumes "h < length hs"
  shows "held (hs[h := v]) \<union> set_option (hs ! h) = held hs \<union> set_option v"
proof -
  define xs ys where "xs = take h hs" and "ys = drop (Suc h) hs"
  have 1: "hs = xs @ hs ! h # ys" unfolding xs_def ys_def using assms by (rule id_take_nth_drop)
  have 2: "hs[h := v] = xs @ v # ys" unfolding xs_def ys_def using assms by (rule upd_conv_take_nth_drop)
  have app: "held (xs @ x # ys) = held xs \<union> set_option x \<union> held ys" for x
    by (auto simp: held_def elem_set)
  have "held hs = held xs \<union> set_option (hs ! h) \<union> held ys" using app [of "hs ! h"] 1 by simp
  then show ?thesis unfolding 2 app by blast
qed

lemma handle_held: "handle w h = Some c \<Longrightarrow> c \<in> held (handles w)"
  by (auto simp: handle_def held_def split: if_splits dest: nth_mem)

lemma inert_more: "inert {} w \<Longrightarrow> D \<subseteq> held (handles w) \<Longrightarrow> inert D w"
  by (auto simp: inert_def)

lemma inert_less: "inert D w \<Longrightarrow> D \<subseteq> held (handles w) \<Longrightarrow> inert {} w"
  by (simp add: inert_def Un_absorb2)

lemma set_handle_inert:
  assumes "set_handle h v now w = Some w'" and "inert (set_option v) w"
  shows "inert {} w' \<and> made w' = made w"
proof -
  define w1 where "w1 = w\<lparr>handles := (handles w)[h := v]\<rparr>"
  have h: "h < length (handles w)" using assms(1) by (simp add: set_handle_def split: if_splits)
  have same: "inert (set_option (handle w h)) w1"
    using assms(2) held_upd [OF h, of v] h by (simp add: inert_def w1_def pool_idle_def handle_def)
  show ?thesis
  proof (cases "handle w h")
    case None
    with assms(1) same show ?thesis by (auto simp: set_handle_def w1_def h)
  next
    case (Some c)
    show ?thesis
    proof (cases "referenced c (handles w1)")
      case True
      then have "inert {} w1" using same Some by (intro inert_less [OF same]) (simp add: referenced_def held_def)
      moreover have "w' = w1" using assms(1) Some True by (simp add: set_handle_def w1_def h)
      ultimately show ?thesis by (simp add: w1_def)
    next
      case False
      with assms(1) same Some Dispose_inert [of c now w1 w'] show ?thesis
        by (simp add: set_handle_def w1_def referenced_def held_def h)
    qed
  qed
qed

lemma pool_Open_idle:
  assumes "pool_Open now (Some n) p = Some (c, p')" and "pool_idle w p"
  shows "c = n \<and> pool_idle w p'"
  using assms
  by (auto simp: pool_Open_def pool_get_def drop_expired_def pool_idle_def bind_eq_Some_conv split: if_splits)

lemma ConnectionPool_idle: "ConnectionPool info = Some p \<Longrightarrow> pool_idle w p"
  by (auto simp: ConnectionPool_def pool_idle_def bind_eq_Some_conv)

lemma Open_info_idle:
  assumes "Open_info info now (Some n) (pools w) = Some (c, m)" and "inert {} w"
  shows "c = n \<and> (\<forall>x\<in>set m. pool_idle w (snd x))"
proof -
  have old: "\<forall>x\<in>set (pools w). pool_idle w (snd x)" using assms(2) by (simp add: inert_def)
  show ?thesis
  proof (cases "Get_int info ''@pool_size'' 0 = Some 0")
    case True
    with assms(1) old show ?thesis by (simp add: Open_info_def)
  next
    case False
    with assms(1) obtain p p' where p: "ConnectionPool info = Some p" "pool_Open now (Some n) p = Some (c, p')"
      "m = insert_pool (connection_string info) p' (pools w)"
      by (auto simp: Open_info_def bind_eq_Some_conv split: option.splits if_splits)
    from pool_Open_idle [OF p(2) ConnectionPool_idle [OF p(1)]] have "c = n" "pool_idle w p'" by auto
    with old show ?thesis unfolding p(3) by (fastforce dest: in_insert_pool)
  qed
qed

lemma Open_str_idle:
  assumes "Open_str str now (Some n) (pools w) = Some (c, m)" and "inert {} w"
  shows "c = n \<and> (\<forall>x\<in>set m. pool_idle w (snd x))"
proof (cases "if contains str ''@pool_size'' then map_of (pools w) str else None")
  case None
  with assms(1) obtain info where "Open_info info now (Some n) (pools w) = Some (c, m)"
    by (auto simp: Open_str_def bind_eq_Some_conv)
  from Open_info_idle [OF this assms(2)] show ?thesis .
next
  case (Some p)
  with assms(1) obtain p' where p: "pool_Open now (Some n) p = Some (c, p')" "m = replace_pool str p' (pools w)"
    by (auto simp: Open_str_def)
  have "map_of (pools w) str = Some p" using Some by (simp split: if_splits)
  from pool_Open_idle [OF p(1) map_of_inert [OF assms(2) this]] have "c = n" "pool_idle w p'" by auto
  moreover have "\<forall>x\<in>set (pools w). pool_idle w (snd x)" using assms(2) by (simp add: inert_def)
  ultimately show ?thesis unfolding p(2) by (fastforce dest: in_replace_pool)
qed

lemma DBConnection_flag: "DBConnection info = Some conn \<Longrightarrow> \<not> recyclable conn"
  by (auto simp: DBConnection_def Let_def split: option.splits if_splits)

lemma Session_Open_inert:
  assumes "Session_Open h str now w = Some w'" and "inert {} w"
  shows "inert {} w' \<and> made w' = Suc (made w)"
proof -
  from assms(1) obtain c m where o: "Open_str str now (Some (made w)) (pools w) = Some (c, m)"
    by (auto simp: Session_Open_def bind_eq_Some_conv)
  note idle = Open_str_idle [OF o assms(2)]
  have objs: "(case map_of m str of Some p \<Rightarrow> still_there p (objects w) | None \<Rightarrow> objects w) = objects w"
    using idle by (fastforce split: option.splits dest: map_of_SomeD intro: still_there_idle)
  have new: "objects w (made w) = None"
    using assms(2) by (cases "objects w (made w)") (auto simp: inert_def)
  from assms(1) o idle objs new obtain self owner where w':
    "\<not> recyclable self"
    "set_handle h (Some c) now (w\<lparr>pools := m, objects := (objects w)(c \<mapsto> self),
       pool_of := (pool_of w)(c := owner), made := Suc (made w)\<rparr>) = Some w'"
    by (auto simp: Session_Open_def bind_eq_Some_conv dest: DBConnection_flag)
  have "inert {c} (w\<lparr>pools := m, objects := (objects w)(c \<mapsto> self),
       pool_of := (pool_of w)(c := owner), made := Suc (made w)\<rparr>)"
    using assms(2) idle w'(1) by (auto simp: inert_def pool_idle_def less_Suc_eq split: if_splits)
  with set_handle_inert [OF w'(2)] show ?thesis by simp
qed

lemma on_connection_inert:
  assumes "on_connection h f w = Some w'" and "inert {} w"
    and "\<And>self s. f (Some self) = Some s \<Longrightarrow> \<exists>conn. s = Some conn \<and> (recyclable conn \<longrightarrow> recyclable self)"
  shows "inert {} w' \<and> made w' = made w"
proof -
  from assms(1) obtain c self s where c: "objects w c = Some self" "f (Some self) = Some s"
    "w' = w\<lparr>objects := (objects w)(c := s)\<rparr>"
    by (auto simp: on_connection_def bind_eq_Some_conv)
  from assms(3) [OF c(2)] obtain conn where s: "s = Some conn" "recyclable conn \<longrightarrow> recyclable self" by auto
  have "pool_idle w p \<Longrightarrow> pool_idle w' p" for p using c by (auto simp: pool_idle_def)
  with assms(2) c s show ?thesis by (auto simp: inert_def split: if_splits)
qed

lemma Session_Prepare_flag:
  assumes "Session_Prepare np nd q (Some self) = Some (r, s)"
  shows "\<exists>conn. s = Some conn \<and> (recyclable conn \<longrightarrow> recyclable self)"
  using assms
  by (auto simp: Session_Prepare_def new_statement_def Prepare_def GetPreparedStatement_def
      GetDirectStatement_def bind_eq_Some_conv split: option.splits if_splits prod.splits)
lemma session_exec_inert:
  assumes "session_exec np nd op w = Some w'" and "inert {} w" and "leaves_flag op"
  shows "inert {} w' \<and> made w' = made w + (if opens op then 1 else 0)"
proof (cases op)
  case (SOpen h str now)
  with assms(1,2) Session_Open_inert [of h str now w w'] show ?thesis by simp
next
  case (SClose h now)
  with assms(1,2) set_handle_inert [of h None now w w'] show ?thesis
    by (simp add: Session_Close_pooled_def)
next
  case (SAssign h other now)
  have "inert (set_option (handle w other)) w"
    by (rule inert_more [OF assms(2)]) (auto simp: handle_held)
  with SAssign assms(1,2) set_handle_inert [of h "handle w other" now w w'] show ?thesis
    by (auto simp: Session_assign_def split: if_splits)
next
  case (SPrepare h q st now)
  with assms(1) obtain c self r s where c: "handle w h = Some c" "objects w c = Some self"
    "Session_Prepare np nd q (Some self) = Some (r, s)"
    "(case r of Inl e \<Rightarrow> Some (w\<lparr>objects := (objects w)(c := s)\<rparr>)
      | Inr d \<Rightarrow> set_handle st (Some c) now (w\<lparr>objects := (objects w)(c := s)\<rparr>)) = Some w'"
    by (auto simp: bind_eq_Some_conv Let_def)
  let ?w = "w\<lparr>objects := (objects w)(c := s)\<rparr>"
  from c(1,2) have "on_connection h (\<lambda>_. Some s) w = Some ?w" by (simp add: on_connection_def)
  moreover from Session_Prepare_flag [OF c(3)] obtain conn where "s = Some conn"
    "recyclable conn \<longrightarrow> recyclable self" by auto
  ultimately have keep: "inert {} ?w"
    using assms(2) c(2) by (auto simp: inert_def pool_idle_def split: if_splits)
  have m: "made ?w = made w" by simp
  from keep have "inert (set_option (Some c)) ?w"
    by (rule inert_more) (use c(1) in \<open>simp add: handle_held\<close>)
  with c(4) keep set_handle_inert [of st "Some c" now ?w w'] SPrepare show ?thesis
    by (auto split: sum.splits)
next
  case (SCall h answer)
  with assms(1,2) on_connection_inert show ?thesis
    by (fastforce simp: guarded_call_def guard_def split: sum.splits)
next
  case (SRecyclable h v)
  with assms on_connection_inert show ?thesis by (fastforce simp: Session_set_recyclable_def)
next
  case (SOnce h f)
  with assms on_connection_inert show ?thesis by (fastforce simp: Once_def)
next
  case (SClear h)
  with assms(1,2) on_connection_inert show ?thesis
    by (fastforce simp: Session_ClearCache_def ClearCache_def bind_eq_Some_conv)
qed

lemma session_run_inert:
  "session_run np nd ops w = Some w' \<Longrightarrow> inert {} w \<Longrightarrow> \<forall>op\<in>set ops. leaves_flag op \<Longrightarrow>
     inert {} w' \<and> made w' = made w + length (filter opens ops)"
proof (induction ops arbitrary: w)
  case (Cons op ops)
  from Cons.prems(1) obtain v where v: "session_exec np nd op w = Some v"
    "session_run np nd ops v = Some w'"
    by (auto simp: bind_eq_Some_conv)
  from session_exec_inert [OF v(1) Cons.prems(2)] Cons.prems(3) Cons.IH [OF v(2)] show ?case by auto
qed simp

text \<open>C19: the flag starts cleared and the library never sets it: unless the program does, no session ever gets a
  connection that was used before.  Every \<open>Open\<close> makes a new connection, the pools stay empty, and a
  connection is deleted exactly when its last handle has gone.\<close>

theorem nothing_recycled:
  assumes "session_run np nd ops (no_sessions n) = Some w" and "\<forall>op\<in>set ops. leaves_flag op"
  shows "made w = length (filter opens ops) \<and> (\<forall>c. objects w c \<noteq> None \<longleftrightarrow> Some c \<in> set (handles w)) \<and>
    filter (\<lambda>x. entries (snd x) \<noteq> []) (pools w) = []"
proof -
  have "inert {} (no_sessions n :: 'a session_world)" by (simp add: inert_def no_sessions_def held_def)
  from session_run_inert [OF assms(1) this assms(2)] show ?thesis
    by (auto simp: inert_def pool_idle_def no_sessions_def held_def filter_empty_conv)
qed
subsection \<open>With the flag the connection comes back\<close>

lemma pool_Put_last:
  assumes "pool_ok (limit p) now p" and "limit p \<noteq> 0" and "limit p < npos"
    and "0 \<le> InMicroseconds (life_time p)" and "Time 0 \<le> now"
    and "c \<notin> set (users p @ map db_conn (entries p) @ deleted p)"
  shows "\<exists>p'. pool_Put (Some c) now p = Some p' \<and> entries p' \<noteq> [] \<and>
    last (entries p') = \<lparr>db_conn = c, last_used = now\<rparr> \<and> life_time p' = life_time p \<and>
    limit p' = limit p \<and> users p' = users p \<and> pool_ok (limit p) now p'"
proof -
  let ?e = "\<lparr>db_conn = c, last_used = now\<rparr>"
  define q where "q = p\<lparr>entries := entries p @ [?e], pool_size := size_add (pool_size p) 1\<rparr>"
  have "Suc (limit p) < size_max" using assms(3) by (simp add: npos_def)
  then have "pool_ok (Suc (limit p)) now q"
    using assms(1,5,6) by (auto simp: q_def pool_ok_def sorted_append size_add_exact)
  from drop_expired_ok [OF this, of now] obtain r where r: "drop_expired now q = Some r"
    "pool_ok (Suc (limit p)) now r" "entries r = dropWhile (expired (life_time p) now) (entries p @ [?e])"
    "limit r = limit p" "life_time r = life_time p" "users r = users p"
    by (auto simp: q_def)
  have put: "pool_Put (Some c) now p =
      do { p \<leftarrow> drop_expired now q; if pool_size p > limit p then drop_first p else Some p }"
    using assms(2) by (simp add: pool_Put_def q_def)
  have "\<not> expired (life_time p) now ?e" using assms(4) by (simp add: expired_def)
  then obtain es where es: "entries r = es @ [?e]"
    using r(3) by (metis dropWhile_append3)
  show ?thesis
  proof (cases "pool_size r > limit r")
    case True
    then have "limit p < length (entries r)" using r(2,4) by (simp add: pool_ok_def)
    moreover from this es assms(2) obtain x xs where "es = x # xs" by (cases es) auto
    moreover obtain p' where "drop_first r = Some p'" "pool_ok (limit p) now p'" "limit p' = limit r"
      "users p' = users r" using drop_first_ok [OF r(2)] calculation(1) by auto
    ultimately show ?thesis using True r(1,4-6) es by (auto simp: put drop_first_def)
  next
    case False
    then have "pool_ok (limit p) now r" using r(2,4) by (auto simp: pool_ok_def)
    with False r(1,4-6) es show ?thesis by (auto simp: put)
  qed
qed

lemma users_gone:
  assumes "pool_ok k now p" and "c \<in> set (users p)"
  shows "pool_ok k now (p\<lparr>users := remove1 c (users p)\<rparr>) \<and>
    c \<notin> set (remove1 c (users p) @ map db_conn (entries p) @ deleted p)"
  using assms by (auto simp: pool_ok_def)

text \<open>A session with a pooled connection that may be recycled, and no other handle to it.\<close>

definition may_come_back ::
    "'s session_world \<Rightarrow> nat \<Rightarrow> nat \<Rightarrow> 's db_connection \<Rightarrow> string \<Rightarrow> conn_pool \<Rightarrow> Time \<Rightarrow> bool" where
  "may_come_back w h c self str p clock \<longleftrightarrow>
     h < length (handles w) \<and> handle w h = Some c \<and> \<not> referenced c ((handles w)[h := None]) \<and>
     objects w c = Some self \<and> recyclable self \<and> pool_of w c = Some str \<and>
     map_of (pools w) str = Some p \<and> world_ok (limit p) (clock, p) \<and> limit p \<noteq> 0 \<and>
     c \<in> set (users p) \<and> c < made w \<and> contains str ''@pool_size''"

lemma map_of_replaced:
  "map_of m str = Some y \<Longrightarrow> map_of (replace_pool str x m) str = Some x"
  by (induction m) (auto simp: replace_pool_def split: if_splits)

lemma entry_alive:
  assumes "pool_ok k now p" and "entries p \<noteq> []"
  shows "db_conn (last (entries p)) \<notin> set (deleted p)"
proof -
  have "db_conn (last (entries p)) \<in> set (map db_conn (entries p))" using last_in_set [OF assms(2)] by simp
  with assms(1) show ?thesis unfolding pool_ok_def distinct_append by blast
qed

text \<open>Closing puts the connection into its pool, as the entry used last.\<close>

lemma close_recyclable:
  assumes "may_come_back w h c self str p clock" and "clock \<le> now" and "now \<le> Time (2 ^ 62)"
    and "0 \<le> InMicroseconds (life_time p)"
  shows "\<exists>w1 p'. Session_Close_pooled h now w = Some w1 \<and> map_of (pools w1) str = Some p' \<and>
    entries p' \<noteq> [] \<and> last (entries p') = \<lparr>db_conn = c, last_used = now\<rparr> \<and>
    life_time p' = life_time p \<and> limit p' = limit p \<and> pool_ok (limit p) now p' \<and>
    objects w1 c = Some self \<and> handles w1 = (handles w)[h := None] \<and> made w1 = made w"
proof -
  note m = assms(1) [unfolded may_come_back_def]
  from m assms(2,3) have ok: "pool_ok (limit p) now p" "limit p < npos" "Time 0 \<le> now"
    by (auto simp: world_ok_def intro: pool_ok_clock)
  define q where "q = p\<lparr>users := remove1 c (users p)\<rparr>"
  have q: "pool_ok (limit q) now q" "c \<notin> set (users q @ map db_conn (entries q) @ deleted q)"
    using users_gone [OF ok(1), of c] m by (simp_all add: q_def)
  from pool_Put_last [OF q(1) _ _ _ ok(3) q(2)] ok(2) m assms(4) obtain p' where p':
    "pool_Put (Some c) now q = Some p'" "entries p' \<noteq> []"
    "last (entries p') = \<lparr>db_conn = c, last_used = now\<rparr>" "life_time p' = life_time p"
    "limit p' = limit p" "pool_ok (limit p) now p'"
    by (auto simp: q_def)
  define w1 where "w1 = w\<lparr>handles := (handles w)[h := None], pool_of := (pool_of w)(c := None),
      pools := replace_pool str p' (pools w), objects := still_there p' (objects w)\<rparr>"
  have "Session_Close_pooled h now w = Some w1"
    using m p'(1)
    by (simp add: Session_Close_pooled_def set_handle_def Dispose_connection_def Dispose_pooled_def
        q_def w1_def)
  moreover have "map_of (pools w1) str = Some p'" using m by (simp add: w1_def map_of_replaced)
  moreover have "objects w1 c = Some self"
    using m entry_alive [OF p'(6,2)] p'(3) by (simp add: w1_def still_there_def)
  ultimately show ?thesis using p' by (auto simp: w1_def)
qed

text \<open>Opening takes that entry back while it is not expired.\<close>

lemma reopen_pooled:
  assumes "map_of (pools w) str = Some p" and "contains str ''@pool_size''"
    and "pool_ok (limit p) clock p" and "limit p \<noteq> 0" and "entries p \<noteq> []"
    and "\<not> expired (life_time p) now (last (entries p))" and "db_conn (last (entries p)) = c"
    and "objects w c = Some self" and "handle w g = None" and "g < length (handles w)" and "c < made w"
  shows "\<exists>w2. Session_Open g str now w = Some w2 \<and> handle w2 g = Some c \<and> objects w2 c = Some self \<and>
    pool_of w2 c = Some str \<and> made w2 = made w"
proof -
  from pool_get_ok [OF assms(3), of now] assms(5-7) obtain p2 where p2: "pool_get now p = Some (Some c, p2)"
    "pool_ok (limit p) clock (p2\<lparr>users := users p2 @ [c]\<rparr>)" by auto
  define p3 where "p3 = p2\<lparr>users := users p2 @ [c]\<rparr>"
  have "c \<in> set (users p3)" "c \<notin> set (deleted p3)"
    using p2(2) by (auto simp: p3_def pool_ok_def)
  moreover have "Open_str str now (Some (made w)) (pools w) = Some (c, replace_pool str p3 (pools w))"
    using assms(1,2,4) p2(1) by (simp add: Open_str_def pool_Open_def p3_def)
  ultimately show ?thesis
    using assms(8-11) map_of_replaced [OF assms(1)]
    by (simp add: Session_Open_def set_handle_def still_there_def handle_def)
qed

subsection \<open>An example\<close>

definition pool_string :: string where
  "pool_string = print_info ''mysql''
     [\<lparr>pp_key = ''@pool_size'', pp_value = ''1'', pp_quoted = False, pp_blanks = ([], [], [], [])\<rparr>]"

definition pool_string_info :: connection_info where
  "pool_string_info = \<lparr>properties = [''@pool_size'' \<mapsto> ''1''], connection_string = pool_string,
     driver = ''mysql''\<rparr>"

lemma pool_string_parsed: "ConnectionInfo pool_string = Some pool_string_info"
  unfolding pool_string_def pool_string_info_def
  by (subst ConnectionInfo_printed)
     (simp_all add: property_ok_def trimmed_def is_blank_uc uc_def print_info_def print_property_def
       print_value_def npos_def size_max_def)

lemma pool_string_contains: "contains pool_string ''@pool_size''"
  by (simp add: contains_def pool_string_def print_info_def print_property_def print_value_def
      occurs_at_def upt_rec)

lemma pool_string_size: "Get_int pool_string_info ''@pool_size'' d = Some 1"
proof -
  have "dec_digits 1 = ''1''" by code_simp
  then have "istream_int ''1'' = Some 1"
    using istream_int_show [of 1] by (simp add: show_int_def clamp_def int_types)
  then show ?thesis by (simp add: Get_int_def pool_string_info_def)
qed

lemma pool_string_pool: "ConnectionPool pool_string_info = Some pool_of_one"
  by (simp add: ConnectionPool_def pool_string_size)
     (simp add: pool_string_info_def Get_int_def FromSeconds_def pool_of_one_def time_units range64)

definition fresh_connection :: "nat db_connection" where
  "fresh_connection = \<lparr>cache = SetSize 64 DBStatementCache, default_is_prepared = True,
     once_called = False, recyclable = False\<rparr>"

lemma pool_string_connection: "DBConnection pool_string_info = Some fresh_connection"
  by (simp add: DBConnection_def pool_string_info_def fresh_connection_def Get_int_def Get_def)
lemma first_open: "Open_str pool_string now (Some n) [] = Some (n, [(pool_string, pool_of_one\<lparr>users := [n]\<rparr>)])"
proof -
  have "Open_info pool_string_info now (Some n) [] = Some (n, [(pool_string, pool_of_one\<lparr>users := [n]\<rparr>)])"
    using pool_string_pool
    by (simp add: Open_info_def pool_string_size pool_Open_def pool_get_def drop_expired_def
        pool_of_one_def insert_pool_def)
      (simp add: pool_string_info_def)
  then show ?thesis by (simp add: Open_str_def pool_string_parsed)
qed

definition opened :: "nat session_world" where
  "opened = \<lparr>pools = [(pool_string, pool_of_one\<lparr>users := [0]\<rparr>)], objects = [0 \<mapsto> fresh_connection],
     pool_of = [0 \<mapsto> pool_string], handles = [Some 0, None], made = 1\<rparr>"

lemma Session_Open_new:
  assumes "Open_str str now (Some (made w)) (pools w) = Some (made w, m)" and "map_of m str = Some p"
    and "objects w (made w) = None" and "ConnectionInfo str = Some info" and "DBConnection info = Some self"
    and "made w \<in> set (users p)"
  shows "Session_Open h str now w = set_handle h (Some (made w)) now
    (w\<lparr>pools := m, objects := (still_there p (objects w))(made w \<mapsto> self),
       pool_of := (pool_of w)(made w \<mapsto> str), made := Suc (made w)\<rparr>)"
  using assms by (simp add: Session_Open_def still_there_def)

lemma session_opened: "session_exec np nd (SOpen 0 pool_string (Time 10)) (no_sessions 2) = Some opened"
proof -
  have n: "replicate 2 None = [None, None :: nat option]" by (simp add: numeral_2_eq_2)
  let ?w = "no_sessions 2 :: nat session_world"
  have "Session_Open 0 pool_string (Time 10) ?w = set_handle 0 (Some (made ?w)) (Time 10)
      (?w\<lparr>pools := [(pool_string, pool_of_one\<lparr>users := [0]\<rparr>)],
        objects := (still_there (pool_of_one\<lparr>users := [0]\<rparr>) (objects ?w))(made ?w \<mapsto> fresh_connection),
        pool_of := (pool_of ?w)(made ?w \<mapsto> pool_string), made := Suc (made ?w)\<rparr>)"
    by (rule Session_Open_new [OF _ _ _ pool_string_parsed pool_string_connection])
       (simp_all add: no_sessions_def first_open)
  then show ?thesis
    by (simp add: no_sessions_def set_handle_def handle_def n opened_def still_there_def pool_of_one_def)
qed

definition closed :: "nat session_world" where
  "closed = \<lparr>pools = [(pool_string, pool_of_one\<lparr>deleted := [0]\<rparr>)], objects = Map.empty,
     pool_of = Map.empty, handles = [None, None], made = 1\<rparr>"

lemma session_closed: "session_exec np nd (SClose 0 (Time 20)) opened = Some closed"
  by (simp add: opened_def closed_def Session_Close_pooled_def set_handle_def handle_def referenced_def
      Dispose_connection_def Dispose_pooled_def fresh_connection_def ClearCache_def cache_Clear_def
      SetSize_def DBStatementCache_def cache_IsActive_def pool_of_one_def replace_pool_def
      still_there_def fun_eq_iff)

lemma session_reopened:
  "\<exists>w. session_exec np nd (SOpen 1 pool_string (Time 30)) closed = Some w \<and> handles w = [None, Some 1]"
proof -
  let ?p = "pool_of_one\<lparr>deleted := [0]\<rparr>"
  have "Open_str pool_string (Time 30) (Some 1) [(pool_string, ?p)] =
      Some (1, [(pool_string, ?p\<lparr>users := [1]\<rparr>)])"
    by (simp add: Open_str_def pool_string_contains pool_Open_def pool_get_def drop_expired_def
        pool_of_one_def replace_pool_def)
  then have "Session_Open 1 pool_string (Time 30) closed = set_handle 1 (Some (made closed)) (Time 30)
      (closed\<lparr>pools := [(pool_string, ?p\<lparr>users := [1]\<rparr>)],
        objects := (still_there (?p\<lparr>users := [1]\<rparr>) (objects closed))(made closed \<mapsto> fresh_connection),
        pool_of := (pool_of closed)(made closed \<mapsto> pool_string), made := Suc (made closed)\<rparr>)"
    by (intro Session_Open_new [OF _ _ _ pool_string_parsed pool_string_connection])
       (simp_all add: closed_def)
  then show ?thesis by (simp add: closed_def set_handle_def handle_def)
qed

text \<open>A call of the backend fails, the session is closed and opened again: the first connection is deleted
  and the driver makes another one.\<close>

theorem nothing_recycled_witness:
  "\<exists>w :: nat session_world.
     session_run (\<lambda>q. None) (\<lambda>q. None)
       [SOpen 0 pool_string (Time 10), SCall 0 (Inl BackendError), SClose 0 (Time 20),
        SOpen 1 pool_string (Time 30)] (no_sessions 2) = Some w \<and>
     made w = 2 \<and> objects w 0 = None \<and> handles w = [None, Some 1]"
proof -
  let ?ops = "[SOpen 0 pool_string (Time 10), SCall 0 (Inl BackendError), SClose 0 (Time 20),
    SOpen 1 pool_string (Time 30)] :: nat session_op list"
  have call: "session_exec (\<lambda>q. None) (\<lambda>q. None) (SCall 0 (Inl BackendError)) opened = Some opened"
    by (simp add: opened_def on_connection_def guarded_call_def guard_def handle_def fresh_connection_def)
  obtain w where w: "session_run (\<lambda>q. None) (\<lambda>q. None) ?ops (no_sessions 2) = Some w"
    "handles w = [None, Some 1]"
    using session_opened [of "\<lambda>q. None" "\<lambda>q. None"] call session_closed [of "\<lambda>q. None" "\<lambda>q. None"]
      session_reopened [of "\<lambda>q. None" "\<lambda>q. None"]
    by (auto simp del: session_exec.simps)
  have "\<forall>op\<in>set ?ops. leaves_flag op" by simp
  from nothing_recycled [OF w(1) this] have "made w = 2" "objects w 0 \<noteq> None \<longleftrightarrow> Some 0 \<in> set (handles w)"
    by simp_all
  with w show ?thesis by auto
qed

text \<open>C10: a recyclable connection goes back to its pool when its last handle goes, and the next session on the
  same string within the idle time gets it, as it was left: with its cached statements and with its
  one-time functor done.  The driver makes no connection.\<close>

theorem connection_recycled:
  assumes "may_come_back w h c self str p clock" and "g < length (handles w)"
    and "handle w g = None \<or> g = h" and "clock \<le> now" and "now \<le> now'"
    and "us now' \<le> us now + InMicroseconds (life_time p)" and "now' \<le> Time (2 ^ 62)"
  shows "\<exists>w1 w2. Session_Close_pooled h now w = Some w1 \<and> Session_Open g str now' w1 = Some w2 \<and>
    handle w2 g = Some c \<and> objects w2 c = Some self \<and> pool_of w2 c = Some str \<and> made w2 = made w"
proof -
  have "0 \<le> InMicroseconds (life_time p)" using assms(5,6) by (simp add: less_eq_Time_def)
  moreover have "now \<le> Time (2 ^ 62)" using assms(5,7) by simp
  ultimately obtain w1 p' where c: "Session_Close_pooled h now w = Some w1" "map_of (pools w1) str = Some p'"
    "entries p' \<noteq> []" "last (entries p') = \<lparr>db_conn = c, last_used = now\<rparr>" "life_time p' = life_time p"
    "limit p' = limit p" "pool_ok (limit p) now p'" "objects w1 c = Some self"
    "handles w1 = (handles w)[h := None]" "made w1 = made w"
    using close_recyclable [OF assms(1,4)] by blast
  have "\<not> expired (life_time p') now' (last (entries p'))" using assms(6) c(4,5) by (simp add: expired_def)
  moreover have "handle w1 g = None" "g < length (handles w1)"
    using assms(1-3) c(9) by (auto simp: may_come_back_def handle_def nth_list_update)
  ultimately show ?thesis
    using reopen_pooled [of w1 str p' now now' c self g] c assms(1) by (auto simp: may_come_back_def)
qed

text \<open>After the flag is set the session of the example gets its connection back.\<close>

definition flagged :: "nat session_world" where
  "flagged = opened\<lparr>objects := [0 \<mapsto> fresh_connection\<lparr>recyclable := True\<rparr>]\<rparr>"

theorem connection_recycled_witness:
  "session_exec (\<lambda>q. None) (\<lambda>q. None) (SRecyclable 0 True) opened = Some flagged \<and>
   (\<exists>w1 w2. Session_Close_pooled 0 (Time 20) flagged = Some w1 \<and>
      Session_Open 1 pool_string (Time 30) w1 = Some w2 \<and> handle w2 1 = Some 0 \<and> made w2 = 1)"
proof
  show "session_exec (\<lambda>q. None) (\<lambda>q. None) (SRecyclable 0 True) opened = Some flagged"
    by (simp add: on_connection_def opened_def flagged_def handle_def Session_set_recyclable_def)
  have "may_come_back flagged 0 0 (fresh_connection\<lparr>recyclable := True\<rparr>) pool_string
      (pool_of_one\<lparr>users := [0]\<rparr>) (Time 10)"
    by (simp add: may_come_back_def flagged_def opened_def handle_def referenced_def pool_of_one_def
        world_ok_def pool_ok_def npos_def size_max_def less_eq_Time_def pool_string_contains)
  then have "\<exists>w1 w2. Session_Close_pooled 0 (Time 20) flagged = Some w1 \<and>
      Session_Open 1 pool_string (Time 30) w1 = Some w2 \<and> handle w2 1 = Some 0 \<and>
      objects w2 0 = Some (fresh_connection\<lparr>recyclable := True\<rparr>) \<and> pool_of w2 0 = Some pool_string \<and>
      made w2 = made flagged"
    by (rule connection_recycled)
       (simp_all add: flagged_def opened_def handle_def less_eq_Time_def pool_of_one_def)
  then show "\<exists>w1 w2. Session_Close_pooled 0 (Time 20) flagged = Some w1 \<and>
      Session_Open 1 pool_string (Time 30) w1 = Some w2 \<and> handle w2 1 = Some 0 \<and> made w2 = 1"
    by (auto simp: flagged_def opened_def)
qed

end
