(* ===== verification/Diagnostics.thy ===== *)
theory Diagnostics
  imports String_Printf Numbers
begin

text \<open>
  Source locations, \<^verbatim>\<open>base/location.h\<close> and \<^verbatim>\<open>base/location.cc\<close>, and the names of threads,
  \<^verbatim>\<open>threading/thread_name.h\<close>.  The two names of a location are C strings; \<open>vs\<close> is the C library's
  formatting with \<^verbatim>\<open>%s[%d]\<close>, of which the lemmas use the law \<open>formats\<close>.
\<close>

subsection \<open>Locations\<close>

record location =
  function_name :: string
  file_name :: string
  line_number :: int

definition Location :: "string \<Rightarrow> string \<Rightarrow> int \<Rightarrow> location" where
  "Location f file n = \<lparr>function_name = f, file_name = file, line_number = n\<rparr>"

definition Location_default :: location where
  "Location_default = \<lparr>function_name = ''Unknown'', file_name = ''Unknown'', line_number = - 1\<rparr>"

text \<open>The addresses of the file names are compared: \<open>same\<close> says whether they agree.\<close>

definition Location_equal :: "(string \<Rightarrow> string \<Rightarrow> bool) \<Rightarrow> location \<Rightarrow> location \<Rightarrow> bool" where
  "Location_equal same a b = (line_number a = line_number b \<and> same (file_name a) (file_name b))"

definition Location_ToString :: "location \<Rightarrow> string" where
  "Location_ToString a = function_name a @ ''@'' @ file_name a @ '':'' @ show_int (line_number a)"

fun WriteFunctionName :: "string \<Rightarrow> string \<Rightarrow> string" where
  "WriteFunctionName [] dst = dst"
| "WriteFunctionName (c # p) dst =
     WriteFunctionName p
       (if c = CHR ''<'' then dst @ ''&lt;''
        else if c = CHR ''>'' then dst @ ''&gt;''
        else dst @ [c])"

definition Location_Write ::
    "(string \<Rightarrow> int \<Rightarrow> vsnprintf) \<Rightarrow> bool \<Rightarrow> bool \<Rightarrow> string \<Rightarrow> location \<Rightarrow> string option" where
  "Location_Write vs display_filename display_function_name dst a =
     do { out \<leftarrow> StringAppendF (vs (if display_filename then file_name a else ''line'') (line_number a)) dst;
          Some (if display_function_name then WriteFunctionName (function_name a) out @ '' '' else out) }"

definition escaped :: "char \<Rightarrow> string" where
  "escaped c = (if c = CHR ''<'' then ''&lt;'' else if c = CHR ''>'' then ''&gt;'' else [c])"

lemma WriteFunctionName_eq: "WriteFunctionName p dst = dst @ concat (map escaped p)"
  by (induction p arbitrary: dst) (auto simp: escaped_def)

text \<open>What is written into markup has no brackets of its own.  The ampersand is not escaped, so two names can
  be written alike.\<close>

lemma written_names:
  "CHR ''<'' \<notin> set (WriteFunctionName p [])" "CHR ''>'' \<notin> set (WriteFunctionName p [])"
  "WriteFunctionName ''<a'' [] = WriteFunctionName ''&lt;a'' []"
  by (auto simp: WriteFunctionName_eq escaped_def)

lemma Location_Write_text:
  assumes "formats (vs (if display_filename then file_name a else ''line'') (line_number a))
      ((if display_filename then file_name a else ''line'') @ ''['' @ show_int (line_number a) @ '']'')"
    and "length ((if display_filename then file_name a else ''line'') @ ''['' @ show_int (line_number a) @ '']'') < 2 ^ 31 - 1"
  shows "Location_Write vs display_filename display_function_name dst a =
    Some (dst @ (if display_filename then file_name a else ''line'') @ ''['' @ show_int (line_number a) @ '']'' @
      (if display_function_name then concat (map escaped (function_name a)) @ '' '' else []))"
  using formatted_appended [OF assms]
  by (simp add: Location_Write_def StringAppendF_def WriteFunctionName_eq)

subsection \<open>Names of threads\<close>

text \<open>A piece is the memory from its pointer on, up to the terminating zero, with a length.  Taking the first
  15 characters changes the length; \<^verbatim>\<open>data()\<close> is the pointer, so the C library reads on to the zero.\<close>

definition piece_substr :: "nat \<Rightarrow> string \<times> nat \<Rightarrow> string \<times> nat" where
  "piece_substr n s = (fst s, min n (snd s))"

definition SetThreadName :: "(u64 \<Rightarrow> string \<Rightarrow> int) \<Rightarrow> u64 \<Rightarrow> string \<times> nat \<Rightarrow> bool" where
  "SetThreadName pthread_setname tid name = (0 = pthread_setname tid (c_string (fst (piece_substr 15 name))))"

text \<open>The system's limit is 16 characters with the zero.  A longer name is not cut but refused.\<close>

lemma long_thread_name:
  assumes "\<And>t s. pthread_setname t s = 0 \<longleftrightarrow> length s < 16" and "CHR 0x00 \<notin> set name"
  shows "SetThreadName pthread_setname tid (name, length name) \<longleftrightarrow> length name < 16"
proof -
  have "c_string name = name" using assms(2) by (auto simp: c_string_def takeWhile_eq_all_conv)
  with assms(1) show ?thesis by (metis SetThreadName_def fst_conv piece_substr_def)
qed

end
